(* ===== verification/Prelude.thy ===== *)
theory Prelude
  imports Main "HOL-Library.Char_ord"
begin

text \<open>
  What the components of the development share: the error values of \<^verbatim>\<open>errors.go\<close>, the
  outcome type of a Go call (a value, a returned error, or a panic), string slices, the
  decimal numerals that \<^verbatim>\<open>fmt\<close> prints, and the fact collections the component proofs use.

  A Go string is a sequence of bytes, so it is modelled by \<open>string\<close> (a list of 8-bit
  characters); indices into it are byte offsets, as in the source.
\<close>

section \<open>Errors and outcomes\<close>

text \<open>
  The sentinel errors of \<^verbatim>\<open>errors.go\<close>, the two of \<open>database/sql\<close> the code returns
  itself, and errors that come from elsewhere (the driver, a converter, the standard
  library). \<open>Wrap\<close> is \<open>fmt.Errorf("...: %w", err)\<close>; of the message, the constant part is
  kept. \<open>errors_is\<close> is \<open>errors.Is\<close>.
\<close>

datatype goerr =
    ErrUnsupportedType
  | ErrPlaceholderNotFound
  | ErrColumnNotFound
  | ErrTagInvalid
  | ErrSliceExpansion
  | ErrPluginRegisteredTooLate
  | ErrNullNotAllowed
  | ErrNoRows
  | ErrTxDone
  | ErrOther string
  | Wrap string goerr

fun errors_is :: "goerr \<Rightarrow> goerr \<Rightarrow> bool" where
  "errors_is (Wrap m e) t = (Wrap m e = t \<or> errors_is e t)"
| "errors_is e t = (e = t)"

lemma errors_is_refl [simp]: "errors_is e e"
  by (cases e) auto

text \<open>A call returns a value, returns an error, or panics.\<close>

datatype 'a outcome = Ok 'a | Err goerr | Panic string

fun and_then :: "'a outcome \<Rightarrow> ('a \<Rightarrow> 'b outcome) \<Rightarrow> 'b outcome" where
  "and_then (Ok x) f = f x"
| "and_then (Err e) f = Err e"
| "and_then (Panic m) f = Panic m"

fun is_ok :: "'a outcome \<Rightarrow> bool" where
  "is_ok (Ok _) = True"
| "is_ok _ = False"

named_theorems outcome_iff \<open>when a composed outcome is a value, an error or a panic\<close>

lemma and_then_Ok_iff [outcome_iff]: "and_then m f = Ok y \<longleftrightarrow> (\<exists>x. m = Ok x \<and> f x = Ok y)"
  by (cases m) auto

lemma and_then_Err_iff [outcome_iff]:
  "and_then m f = Err e \<longleftrightarrow> m = Err e \<or> (\<exists>x. m = Ok x \<and> f x = Err e)"
  by (cases m) auto

lemma and_then_Panic_iff [outcome_iff]:
  "and_then m f = Panic p \<longleftrightarrow> m = Panic p \<or> (\<exists>x. m = Ok x \<and> f x = Panic p)"
  by (cases m) auto

lemma and_then_cong [fundef_cong]:
  "m = m' \<Longrightarrow> (\<And>x. m' = Ok x \<Longrightarrow> f x = g x) \<Longrightarrow> and_then m f = and_then m' g"
  by (cases m') auto

text \<open>Run a call on every element of a list in order, stopping at the first failure.\<close>

fun map_outcome :: "('a \<Rightarrow> 'b outcome) \<Rightarrow> 'a list \<Rightarrow> 'b list outcome" where
  "map_outcome f [] = Ok []"
| "map_outcome f (x # xs) =
     and_then (f x) (\<lambda>y. and_then (map_outcome f xs) (\<lambda>ys. Ok (y # ys)))"

lemma map_outcome_cong [fundef_cong]:
  "xs = ys \<Longrightarrow> (\<And>x. x \<in> set ys \<Longrightarrow> f x = g x) \<Longrightarrow> map_outcome f xs = map_outcome g ys"
  by (induction ys arbitrary: xs) (auto intro!: and_then_cong)

lemma map_outcome_length: "map_outcome f xs = Ok ys \<Longrightarrow> length ys = length xs"
  by (induction xs arbitrary: ys) (auto simp: outcome_iff)

lemma map_outcome_nth:
  "map_outcome f xs = Ok ys \<Longrightarrow> i < length xs \<Longrightarrow> f (xs ! i) = Ok (ys ! i)"
proof (induction xs arbitrary: ys i)
  case (Cons x xs)
  then show ?case by (cases i) (auto simp: outcome_iff)
qed simp

section \<open>Slices of strings\<close>

text \<open>\<open>s[a:b]\<close>, for \<open>a \<le> b \<le> len(s)\<close>.\<close>

definition substr :: "'a list \<Rightarrow> nat \<Rightarrow> nat \<Rightarrow> 'a list" where
  "substr s a b = take (b - a) (drop a s)"

lemma length_substr [simp]: "length (substr s a b) = min (b - a) (length s - a)"
  by (simp add: substr_def)

lemma substr_same [simp]: "substr s a a = []"
  by (simp add: substr_def)

lemma substr_append_drop: "a \<le> b \<Longrightarrow> substr s a b @ drop b s = drop a s"
proof -
  assume "a \<le> b"
  then have "drop b s = drop (b - a) (drop a s)" by simp
  then show ?thesis by (simp only: substr_def append_take_drop_id)
qed

lemma substr_append: "a \<le> b \<Longrightarrow> b \<le> c \<Longrightarrow> substr s a b @ substr s b c = substr s a c"
proof -
  assume "a \<le> b" "b \<le> c"
  then have "take (b - a) (drop a s) @ take (c - b) (drop (b - a) (drop a s))
    = take ((b - a) + (c - b)) (drop a s)"
    by (simp only: take_add)
  with \<open>a \<le> b\<close> \<open>b \<le> c\<close> show ?thesis by (simp add: substr_def)
qed

lemma substr_Suc: "i < length s \<Longrightarrow> substr s i (Suc i) = [s ! i]"
  by (simp add: substr_def take_Suc_conv_app_nth Cons_nth_drop_Suc [symmetric])

text \<open>\<open>strings.HasPrefix\<close>.\<close>

fun has_prefix :: "'a list \<Rightarrow> 'a list \<Rightarrow> bool" where
  "has_prefix s [] = True"
| "has_prefix [] (p # ps) = False"
| "has_prefix (c # s) (p # ps) = (c = p \<and> has_prefix s ps)"

lemma has_prefix_iff: "has_prefix s p \<longleftrightarrow> (\<exists>r. s = p @ r)"
  by (induction s p rule: has_prefix.induct) auto

lemma has_prefix_append [simp]: "has_prefix (p @ r) p"
  by (auto simp: has_prefix_iff)

text \<open>\<open>strings.Join\<close>.\<close>

fun join :: "'a list \<Rightarrow> 'a list list \<Rightarrow> 'a list" where
  "join sep [] = []"
| "join sep [x] = x"
| "join sep (x # y # xs) = x @ sep @ join sep (y # xs)"

section \<open>Decimal numerals\<close>

text \<open>\<open>%d\<close> of a non-negative integer.\<close>

definition digit_char :: "nat \<Rightarrow> char" where
  "digit_char d = char_of (48 + d)"

fun itoa :: "nat \<Rightarrow> string" where
  "itoa n = (if n < 10 then [digit_char n] else itoa (n div 10) @ [digit_char (n mod 10)])"

declare itoa.simps [simp del]

definition is_digit :: "char \<Rightarrow> bool" where
  "is_digit c = (c \<ge> CHR ''0'' \<and> c \<le> CHR ''9'')"

lemma is_digit_digit_char: "d < 10 \<Longrightarrow> is_digit (digit_char d)"
  by (auto simp: is_digit_def digit_char_def less_eq_char_def)

lemma itoa_digits: "\<forall>c \<in> set (itoa n). is_digit c"
proof (induction n rule: itoa.induct)
  case (1 n)
  then show ?case
    by (subst itoa.simps) (auto simp: is_digit_digit_char)
qed

lemma itoa_nonempty: "itoa n \<noteq> []"
  by (subst itoa.simps) simp

text \<open>The numeral determines the number: reading it back is the identity.\<close>

definition atoi_step :: "nat \<Rightarrow> char \<Rightarrow> nat" where
  "atoi_step acc c = 10 * acc + (of_char c - 48)"

lemma foldl_atoi_itoa: "foldl atoi_step 0 (itoa n) = n"
proof (induction n rule: itoa.induct)
  case (1 n)
  show ?case
  proof (cases "n < 10")
    case True
    then show ?thesis by (subst itoa.simps) (simp add: atoi_step_def digit_char_def)
  next
    case False
    with 1 have IH: "foldl atoi_step 0 (itoa (n div 10)) = n div 10" by simp
    have "of_char (digit_char (n mod 10)) - 48 = n mod 10"
      by (simp add: digit_char_def)
    with IH False show ?thesis
      by (subst itoa.simps) (simp add: atoi_step_def)
  qed
qed

lemma itoa_inject [simp]: "itoa m = itoa n \<longleftrightarrow> m = n"
  by (metis foldl_atoi_itoa)

end
