(* ===== verification/GoStrings.thy ===== *)
theory GoStrings
  imports Prelude
begin

text \<open>
  The part of Go's \<^verbatim>\<open>unicode/utf8\<close>, \<^verbatim>\<open>unicode\<close> and \<^verbatim>\<open>strings\<close> packages the code relies
  on: decoding a string into runes (an ill-formed byte decodes to U+FFFD of width 1),
  encoding a rune, the White\_Space property, \<open>TrimSpace\<close>, \<open>Split\<close> on a comma, \<open>Fields\<close>
  and \<open>ToLower\<close>. Case tables beyond ASCII are data of the Go release: they are the
  parameter \<open>unicode_tables\<close>; the ASCII part is written out.
\<close>

section \<open>UTF-8\<close>

definition rune_error :: nat where
  "rune_error = 0xFFFD"

definition is_cont :: "nat \<Rightarrow> bool" where
  "is_cont b = (0x80 \<le> b \<and> b \<le> 0xBF)"

text \<open>The first rune of a non-empty byte sequence and its width.\<close>

fun decode_bytes :: "nat list \<Rightarrow> nat \<times> nat" where
  "decode_bytes [] = (rune_error, 0)"
| "decode_bytes (b0 # bs) =
     (if b0 < 0x80 then (b0, 1)
      else if 0xC2 \<le> b0 \<and> b0 \<le> 0xDF then
        (case bs of
           b1 # _ \<Rightarrow> if is_cont b1 then ((b0 - 0xC0) * 0x40 + (b1 - 0x80), 2) else (rune_error, 1)
         | _ \<Rightarrow> (rune_error, 1))
      else if 0xE0 \<le> b0 \<and> b0 \<le> 0xEF then
        (case bs of
           b1 # b2 # _ \<Rightarrow>
             if (if b0 = 0xE0 then 0xA0 else 0x80) \<le> b1 \<and> b1 \<le> (if b0 = 0xED then 0x9F else 0xBF)
                \<and> is_cont b2
             then ((b0 - 0xE0) * 0x1000 + (b1 - 0x80) * 0x40 + (b2 - 0x80), 3)
             else (rune_error, 1)
         | _ \<Rightarrow> (rune_error, 1))
      else if 0xF0 \<le> b0 \<and> b0 \<le> 0xF4 then
        (case bs of
           b1 # b2 # b3 # _ \<Rightarrow>
             if (if b0 = 0xF0 then 0x90 else 0x80) \<le> b1 \<and> b1 \<le> (if b0 = 0xF4 then 0x8F else 0xBF)
                \<and> is_cont b2 \<and> is_cont b3
             then ((b0 - 0xF0) * 0x40000 + (b1 - 0x80) * 0x1000 + (b2 - 0x80) * 0x40 + (b3 - 0x80), 4)
             else (rune_error, 1)
         | _ \<Rightarrow> (rune_error, 1))
      else (rune_error, 1))"

definition decode_rune :: "string \<Rightarrow> nat \<times> nat" where
  "decode_rune s = decode_bytes (map of_char (take 4 s))"

lemma decode_bytes_width: "bs \<noteq> [] \<Longrightarrow> 0 < snd (decode_bytes bs)"
  by (cases bs) (auto split: list.splits)

lemma decode_rune_width: "s \<noteq> [] \<Longrightarrow> 0 < snd (decode_rune s)"
  unfolding decode_rune_def by (rule decode_bytes_width) simp

lemma decode_rune_ascii: "of_char c < (128::nat) \<Longrightarrow> decode_rune (c # s) = (of_char c, 1)"
  by (simp add: decode_rune_def)

text \<open>\<open>for _, r := range s\<close> and \<open>[]rune(s)\<close>.\<close>

function runes :: "string \<Rightarrow> nat list" where
  "runes [] = []"
| "runes (c # s) = fst (decode_rune (c # s)) # runes (drop (snd (decode_rune (c # s))) (c # s))"
  by pat_completeness auto
termination
proof (relation "measure length")
  fix c :: char and s :: string
  have "0 < snd (decode_rune (c # s))" by (rule decode_rune_width) simp
  then show "(drop (snd (decode_rune (c # s))) (c # s), c # s) \<in> measure length"
    by auto
qed simp

declare runes.simps(2) [simp del]

definition is_ascii :: "string \<Rightarrow> bool" where
  "is_ascii s = list_all (\<lambda>c. of_char c < (128::nat)) s"

text \<open>\<open>WriteRune\<close>: surrogates and values beyond U+10FFFF become U+FFFD.\<close>

definition encode_rune :: "nat \<Rightarrow> string" where
  "encode_rune r =
     map char_of
       (if r < 0x80 then [r]
        else if r < 0x800 then [0xC0 + r div 0x40, 0x80 + r mod 0x40]
        else if (0xD800 \<le> r \<and> r < 0xE000) \<or> 0x10FFFF < r then [0xEF, 0xBF, 0xBD]
        else if r < 0x10000 then
          [0xE0 + r div 0x1000, 0x80 + r div 0x40 mod 0x40, 0x80 + r mod 0x40]
        else
          [0xF0 + r div 0x40000, 0x80 + r div 0x1000 mod 0x40, 0x80 + r div 0x40 mod 0x40,
           0x80 + r mod 0x40 :: nat])"

lemma encode_rune_ascii: "r < 128 \<Longrightarrow> encode_rune r = [char_of r]"
  by (simp add: encode_rune_def)

section \<open>Character classes\<close>

text \<open>\<open>unicode.IsSpace\<close>: the Latin-1 spaces and the White\_Space table.\<close>

definition is_space :: "nat \<Rightarrow> bool" where
  "is_space r =
     (if r < 0x80 then (9 \<le> r \<and> r \<le> 13) \<or> r = 32
      else r = 0x85 \<or> r = 0xA0 \<or> r = 0x1680 \<or> (0x2000 \<le> r \<and> r \<le> 0x200A)
           \<or> r = 0x2028 \<or> r = 0x2029 \<or> r = 0x202F \<or> r = 0x205F \<or> r = 0x3000)"

record unicode_tables =
  u_upper :: "nat \<Rightarrow> bool"
  u_lower :: "nat \<Rightarrow> bool"
  u_digit :: "nat \<Rightarrow> bool"
  u_to_lower :: "nat \<Rightarrow> nat"

definition is_upper :: "unicode_tables \<Rightarrow> nat \<Rightarrow> bool" where
  "is_upper u r = (if r < 128 then 65 \<le> r \<and> r \<le> 90 else u_upper u r)"

definition is_lower :: "unicode_tables \<Rightarrow> nat \<Rightarrow> bool" where
  "is_lower u r = (if r < 128 then 97 \<le> r \<and> r \<le> 122 else u_lower u r)"

definition is_digit_rune :: "unicode_tables \<Rightarrow> nat \<Rightarrow> bool" where
  "is_digit_rune u r = (if r < 128 then 48 \<le> r \<and> r \<le> 57 else u_digit u r)"

definition to_lower_rune :: "unicode_tables \<Rightarrow> nat \<Rightarrow> nat" where
  "to_lower_rune u r = (if r < 128 then (if 65 \<le> r \<and> r \<le> 90 then r + 32 else r) else u_to_lower u r)"

text \<open>\<open>strings.ToLower\<close>: every rune is mapped and written back.\<close>

definition to_lower :: "unicode_tables \<Rightarrow> string \<Rightarrow> string" where
  "to_lower u s = concat (map (\<lambda>r. encode_rune (to_lower_rune u r)) (runes s))"

section \<open>strings.TrimSpace, Split and Fields\<close>

function trim_left :: "string \<Rightarrow> string" where
  "trim_left [] = []"
| "trim_left (c # s) =
     (if is_space (fst (decode_rune (c # s))) then trim_left (drop (snd (decode_rune (c # s))) (c # s))
      else c # s)"
  by pat_completeness auto
termination
proof (relation "measure length")
  fix c :: char and s :: string
  have "0 < snd (decode_rune (c # s))" by (rule decode_rune_width) simp
  then show "(drop (snd (decode_rune (c # s))) (c # s), c # s) \<in> measure length"
    by auto
qed simp

text \<open>\<open>utf8.DecodeLastRuneInString\<close> looks for a start byte among the last four bytes.\<close>

definition rune_start :: "char \<Rightarrow> bool" where
  "rune_start c = (\<not> is_cont (of_char c))"

definition decode_last :: "string \<Rightarrow> nat \<times> nat" where
  "decode_last s =
     (let n = length s in
      if n = 0 then (rune_error, 0)
      else if of_char (s ! (n - 1)) < (0x80::nat) then (of_char (s ! (n - 1)), 1)
      else (case filter (\<lambda>k. k \<le> n \<and> rune_start (s ! (n - k))) [2, 3, 4] of
              [] \<Rightarrow> (rune_error, 1)
            | k # _ \<Rightarrow> (let (r, w) = decode_rune (drop (n - k) s)
                       in if w = k then (r, w) else (rune_error, 1))))"

lemma decode_last_width: "s \<noteq> [] \<Longrightarrow> 0 < snd (decode_last s)"
  by (auto simp: decode_last_def Let_def split: list.splits prod.splits dest: Cons_eq_filterD)

function trim_right :: "string \<Rightarrow> string" where
  "trim_right s =
     (if s \<noteq> [] \<and> is_space (fst (decode_last s)) then trim_right (take (length s - snd (decode_last s)) s)
      else s)"
  by pat_completeness auto
termination
proof (relation "measure length")
  fix s :: string
  assume "s \<noteq> [] \<and> is_space (fst (decode_last s))"
  with decode_last_width [of s] show "(take (length s - snd (decode_last s)) s, s) \<in> measure length"
    by auto
qed simp

declare trim_right.simps [simp del]

definition trim_space :: "string \<Rightarrow> string" where
  "trim_space s = trim_right (trim_left s)"

text \<open>\<open>strings.Split(s, sep)\<close> for a one-byte separator: never empty.\<close>

fun split_on :: "char \<Rightarrow> string \<Rightarrow> string list" where
  "split_on d [] = [[]]"
| "split_on d (c # s) =
     (if c = d then [] # split_on d s
      else (case split_on d s of [] \<Rightarrow> [[c]] | w # ws \<Rightarrow> (c # w) # ws))"

lemma split_on_nonempty: "split_on d s \<noteq> []"
  by (cases s) (auto split: list.splits)

lemma join_split_on: "join [d] (split_on d s) = s"
proof (induction s)
  case (Cons c s)
  obtain w ws where w: "split_on d s = w # ws"
    using split_on_nonempty [of d s] by (cases "split_on d s") auto
  with Cons show ?case by (cases ws) auto
qed simp

end
