(* ===== verification/Placeholders.thy ===== *)
theory Placeholders
  imports GoStrings
begin

text \<open>
  The placeholder parser of \<^verbatim>\<open>bind.go\<close> and everything built on it that only looks at the
  query text: \<open>parsePlaceholders\<close>, \<open>namedPlaces\<close>, \<open>groupNamedPlaces\<close>,
  \<open>replaceNamedInFragment\<close> and \<open>Rebind\<close>. The loops keep the source's byte indices; the
  specification they are compared with is a lexer that works on the list of bytes and
  whose tokens concatenate to the query.
\<close>

section \<open>The parser\<close>

record placeholder =
  pl_name :: string
  pl_pos :: nat
  pl_end :: nat

definition isIdentChar :: "char \<Rightarrow> bool" where
  "isIdentChar c =
     (c = CHR ''_''
      \<or> (c \<ge> CHR ''a'' \<and> c \<le> CHR ''z'')
      \<or> (c \<ge> CHR ''A'' \<and> c \<le> CHR ''Z'')
      \<or> (c \<ge> CHR ''0'' \<and> c \<le> CHR ''9''))"

definition isQuote :: "char \<Rightarrow> bool" where
  "isQuote c = (c = CHR 0x27 \<or> c = CHR 0x22 \<or> c = CHR 0x60)"

text \<open>The inner loops: the index after a quoted literal, a line comment, a block comment
  (before the final \<open>i += 2\<close>) and an identifier.\<close>

function skip_quoted :: "string \<Rightarrow> char \<Rightarrow> nat \<Rightarrow> nat" where
  "skip_quoted q quote i =
     (if i < length q then
        (if q ! i = quote then
           (if i + 1 < length q \<and> q ! (i + 1) = quote then skip_quoted q quote (i + 2)
            else i + 1)
         else skip_quoted q quote (i + 1))
      else i)"
  by pat_completeness auto
termination
  by (relation "measure (\<lambda>(q, c, i). length q - i)") auto

function skip_line :: "string \<Rightarrow> nat \<Rightarrow> nat" where
  "skip_line q i = (if i < length q \<and> q ! i \<noteq> CHR 0x0A then skip_line q (i + 1) else i)"
  by pat_completeness auto
termination
  by (relation "measure (\<lambda>(q, i). length q - i)") auto

function skip_block :: "string \<Rightarrow> nat \<Rightarrow> nat" where
  "skip_block q i =
     (if i + 1 < length q \<and> \<not> (q ! i = CHR ''*'' \<and> q ! (i + 1) = CHR ''/'')
      then skip_block q (i + 1) else i)"
  by pat_completeness auto
termination
  by (relation "measure (\<lambda>(q, i). length q - i)") auto

function skip_ident :: "string \<Rightarrow> nat \<Rightarrow> nat" where
  "skip_ident q i = (if i < length q \<and> isIdentChar (q ! i) then skip_ident q (i + 1) else i)"
  by pat_completeness auto
termination
  by (relation "measure (\<lambda>(q, i). length q - i)") auto

declare skip_quoted.simps [simp del] skip_line.simps [simp del]
  skip_block.simps [simp del] skip_ident.simps [simp del]

lemma skip_quoted_ge: "i \<le> skip_quoted q c i"
  by (induction q c i rule: skip_quoted.induct) (subst skip_quoted.simps, force)

lemma skip_line_ge: "i \<le> skip_line q i"
  by (induction q i rule: skip_line.induct) (subst skip_line.simps, force)

lemma skip_block_ge: "i \<le> skip_block q i"
  by (induction q i rule: skip_block.induct) (subst skip_block.simps, force)

lemma skip_ident_ge: "i \<le> skip_ident q i"
  by (induction q i rule: skip_ident.induct) (subst skip_ident.simps, force)

text \<open>The main loop, with the placeholders found so far.\<close>

function parse_loop :: "string \<Rightarrow> nat \<Rightarrow> placeholder list \<Rightarrow> placeholder list" where
  "parse_loop q i places =
     (if i < length q then
        (let c = q ! i in
         if isQuote c then parse_loop q (skip_quoted q c (i + 1)) places
         else if c = CHR ''-'' then
           (if i + 1 < length q \<and> q ! (i + 1) = CHR ''-''
            then parse_loop q (skip_line q (i + 2)) places
            else parse_loop q (i + 1) places)
         else if c = CHR ''/'' then
           (if i + 1 < length q \<and> q ! (i + 1) = CHR ''*''
            then parse_loop q (skip_block q (i + 2) + 2) places
            else parse_loop q (i + 1) places)
         else if c = CHR '':'' then
           (if i + 1 < length q \<and> q ! (i + 1) = CHR '':''
            then parse_loop q (i + 2) places
            else
              (let e = skip_ident q (i + 1) in
               if e = i + 1 then parse_loop q e places
               else parse_loop q e
                      (places @ [\<lparr>pl_name = substr q (i + 1) e, pl_pos = i, pl_end = e\<rparr>])))
         else if c = CHR ''?'' then
           parse_loop q (i + 1) (places @ [\<lparr>pl_name = [], pl_pos = i, pl_end = i + 1\<rparr>])
         else parse_loop q (i + 1) places)
      else places)"
  by pat_completeness auto
termination
proof (relation "measure (\<lambda>(q, i, ps). length q - i)", goal_cases)
  case (2 q i ps c)
  with skip_quoted_ge [of "i + 1" q c] show ?case by auto
next
  case (3 q i ps c)
  with skip_line_ge [of "i + 2" q] show ?case by auto
next
  case (5 q i ps c)
  with skip_block_ge [of "i + 2" q] show ?case by auto
next
  case (8 q i ps c e)
  with skip_ident_ge [of "i + 1" q] show ?case by auto
next
  case (9 q i ps c e)
  with skip_ident_ge [of "i + 1" q] show ?case by auto
qed auto

declare parse_loop.simps [simp del]

definition parsePlaceholders :: "string \<Rightarrow> placeholder list" where
  "parsePlaceholders query = parse_loop query 0 []"

definition namedPlaces :: "placeholder list \<Rightarrow> placeholder list" where
  "namedPlaces places = filter (\<lambda>p. pl_name p \<noteq> []) places"

section \<open>The lexer specification\<close>

text \<open>
  A query is a sequence of tokens: stretches of text (a literal, a comment, a cast or a
  single byte) and placeholders.
\<close>

datatype token = Txt string | Pos | Named string

fun render :: "token \<Rightarrow> string" where
  "render (Txt s) = s"
| "render Pos = ''?''"
| "render (Named n) = CHR '':'' # n"

definition flat :: "token list \<Rightarrow> string" where
  "flat ts = concat (map render ts)"

lemma flat_simps [simp]:
  "flat [] = []" "flat (t # ts) = render t @ flat ts" "flat (ts @ us) = flat ts @ flat us"
  by (simp_all add: flat_def)

fun quoted_span :: "char \<Rightarrow> string \<Rightarrow> string \<times> string" where
  "quoted_span q [] = ([], [])"
| "quoted_span q [c] = ([c], [])"
| "quoted_span q (c # d # r) =
     (if c = q then
        (if d = q then (c # d # fst (quoted_span q r), snd (quoted_span q r)) else ([c], d # r))
      else (c # fst (quoted_span q (d # r)), snd (quoted_span q (d # r))))"

fun block_span :: "string \<Rightarrow> string \<times> string" where
  "block_span [] = ([], [])"
| "block_span [c] = ([c], [])"
| "block_span (c # d # r) =
     (if c = CHR ''*'' \<and> d = CHR ''/'' then ([c, d], r)
      else (c # fst (block_span (d # r)), snd (block_span (d # r))))"

lemma quoted_span_append: "fst (quoted_span q s) @ snd (quoted_span q s) = s"
  by (induction q s rule: quoted_span.induct) auto

lemma block_span_append: "fst (block_span s) @ snd (block_span s) = s"
  by (induction s rule: block_span.induct) auto

lemma quoted_span_le [simp]: "length (snd (quoted_span q s)) \<le> length s"
  by (metis quoted_span_append length_append le_add2)

lemma block_span_le [simp]: "length (snd (block_span s)) \<le> length s"
  by (metis block_span_append length_append le_add2)

lemma dropWhile_le [simp]: "length (dropWhile P s) \<le> length s"
  by (rule length_dropWhile_le)

abbreviation starts_with :: "char \<Rightarrow> string \<Rightarrow> bool" where
  "starts_with c s \<equiv> s \<noteq> [] \<and> hd s = c"

function lex_query :: "string \<Rightarrow> token list" where
  "lex_query [] = []"
| "lex_query (c # s) =
     (if isQuote c then Txt (c # fst (quoted_span c s)) # lex_query (snd (quoted_span c s))
      else if c = CHR ''-'' \<and> starts_with CHR ''-'' s then
        Txt (c # CHR ''-'' # takeWhile (\<lambda>x. x \<noteq> CHR 0x0A) (tl s))
          # lex_query (dropWhile (\<lambda>x. x \<noteq> CHR 0x0A) (tl s))
      else if c = CHR ''/'' \<and> starts_with CHR ''*'' s then
        Txt (c # CHR ''*'' # fst (block_span (tl s))) # lex_query (snd (block_span (tl s)))
      else if c = CHR '':'' \<and> starts_with CHR '':'' s then Txt ''::'' # lex_query (tl s)
      else if c = CHR '':'' \<and> s \<noteq> [] \<and> isIdentChar (hd s) then
        Named (takeWhile isIdentChar s) # lex_query (dropWhile isIdentChar s)
      else if c = CHR ''?'' then Pos # lex_query s
      else Txt [c] # lex_query s)"
  by pat_completeness auto
termination
proof (relation "measure length", goal_cases)
  case (3 c s)
  then show ?case
    using dropWhile_le [of "\<lambda>x. x \<noteq> CHR 0x0A" "tl s"] by auto
next
  case (4 c s)
  then show ?case
    using block_span_le [of "tl s"] by auto
qed (auto simp: le_imp_less_Suc)

declare lex_query.simps(2) [simp del]

text \<open>One token of the lexer, case by case.\<close>

lemma lex_cases:
  obtains (quote) "isQuote c" "lex_query (c # s) = Txt (c # fst (quoted_span c s)) # lex_query (snd (quoted_span c s))"
    | (line) "\<not> isQuote c" "c = CHR ''-''" "starts_with CHR ''-'' s"
        "lex_query (c # s) = Txt (c # CHR ''-'' # takeWhile (\<lambda>x. x \<noteq> CHR 0x0A) (tl s))
          # lex_query (dropWhile (\<lambda>x. x \<noteq> CHR 0x0A) (tl s))"
    | (block) "\<not> isQuote c" "c = CHR ''/''" "starts_with CHR ''*'' s"
        "lex_query (c # s) = Txt (c # CHR ''*'' # fst (block_span (tl s))) # lex_query (snd (block_span (tl s)))"
    | (cast) "\<not> isQuote c" "c = CHR '':''" "starts_with CHR '':'' s" "lex_query (c # s) = Txt ''::'' # lex_query (tl s)"
    | (named) "\<not> isQuote c" "c = CHR '':''" "\<not> starts_with CHR '':'' s" "s \<noteq> []" "isIdentChar (hd s)"
        "lex_query (c # s) = Named (takeWhile isIdentChar s) # lex_query (dropWhile isIdentChar s)"
    | (pos) "\<not> isQuote c" "c = CHR ''?''" "lex_query (c # s) = Pos # lex_query s"
    | (other) "\<not> isQuote c" "\<not> (c = CHR ''-'' \<and> starts_with CHR ''-'' s)"
        "\<not> (c = CHR ''/'' \<and> starts_with CHR ''*'' s)" "\<not> (c = CHR '':'' \<and> starts_with CHR '':'' s)"
        "\<not> (c = CHR '':'' \<and> s \<noteq> [] \<and> isIdentChar (hd s))" "c \<noteq> CHR ''?''"
        "lex_query (c # s) = Txt [c] # lex_query s"
proof -
  note eq = lex_query.simps(2) [of c s]
  consider "isQuote c" | "\<not> isQuote c" "c = CHR ''-''" "starts_with CHR ''-'' s"
    | "\<not> isQuote c" "c = CHR ''/''" "starts_with CHR ''*'' s"
    | "\<not> isQuote c" "c = CHR '':''" "starts_with CHR '':'' s"
    | "\<not> isQuote c" "c = CHR '':''" "\<not> starts_with CHR '':'' s" "s \<noteq> []" "isIdentChar (hd s)"
    | "\<not> isQuote c" "c = CHR ''?''"
    | "\<not> isQuote c" "\<not> (c = CHR ''-'' \<and> starts_with CHR ''-'' s)"
      "\<not> (c = CHR ''/'' \<and> starts_with CHR ''*'' s)" "\<not> (c = CHR '':'' \<and> starts_with CHR '':'' s)"
      "\<not> (c = CHR '':'' \<and> s \<noteq> [] \<and> isIdentChar (hd s))" "c \<noteq> CHR ''?''"
    by blast
  then show thesis
  proof cases
    case 1 with eq quote show thesis by simp
  next
    case 2 with eq line show thesis by simp
  next
    case 3 with eq block show thesis by simp
  next
    case 4 with eq cast show thesis by simp
  next
    case 5 with eq named show thesis by simp
  next
    case 6 with eq pos show thesis by simp
  next
    case 7 show thesis by (rule other [OF 7]) (use eq 7 in auto)
  qed
qed

fun places_at :: "nat \<Rightarrow> token list \<Rightarrow> placeholder list" where
  "places_at n [] = []"
| "places_at n (Txt s # ts) = places_at (n + length s) ts"
| "places_at n (Pos # ts) =
     \<lparr>pl_name = [], pl_pos = n, pl_end = n + 1\<rparr> # places_at (n + 1) ts"
| "places_at n (Named m # ts) =
     \<lparr>pl_name = m, pl_pos = n, pl_end = n + 1 + length m\<rparr> # places_at (n + 1 + length m) ts"

text \<open>The tokens concatenate to the query.\<close>

lemma hd_tl_starts: "starts_with c s \<Longrightarrow> c # tl s = s"
  by (cases s) auto

lemma flat_lex: "flat (lex_query s) = s"
proof (induction s rule: lex_query.induct)
  case (2 c s)
  then show ?case
    by (subst lex_query.simps) (auto simp: quoted_span_append block_span_append hd_tl_starts)
qed simp

section \<open>The loops implement the lexer\<close>

lemma drop_span: "drop i q = a @ b \<Longrightarrow> drop (i + length a) q = b"
  by (metis add.commute append_eq_conv_conj drop_drop)

lemma drop_Cons_nth: "i < length q \<Longrightarrow> drop i q = q ! i # drop (Suc i) q"
  by (rule Cons_nth_drop_Suc [symmetric])

lemma drop_Cons_nth2:
  assumes "i + 1 < length q"
  shows "drop i q = q ! i # q ! Suc i # drop (Suc (Suc i)) q"
    and "drop (Suc i) q = q ! Suc i # drop (Suc (Suc i)) q"
  using assms by (simp_all add: drop_Cons_nth [of i] drop_Cons_nth [of "Suc i"])

lemma skip_quoted_span: "skip_quoted q c i = i + length (fst (quoted_span c (drop i q)))"
proof (induction q c i rule: skip_quoted.induct)
  case (1 q c i)
  consider (out) "length q \<le> i" | (last) "i < length q" "length q \<le> i + 1" | (in2) "i + 1 < length q"
    by linarith
  then show ?case
  proof cases
    case out
    then show ?thesis by (subst skip_quoted.simps) simp
  next
    case last
    then have d: "drop i q = [q ! i]" by (simp add: drop_Cons_nth)
    from last show ?thesis
      by (subst skip_quoted.simps) (simp add: d skip_quoted.simps [of q c "Suc i"])
  next
    case in2
    note d = drop_Cons_nth2 [OF this]
    from in2 1 show ?thesis
      by (subst skip_quoted.simps) (simp add: d)
  qed
qed

lemma skip_line_span: "skip_line q i = i + length (takeWhile (\<lambda>x. x \<noteq> CHR 0x0A) (drop i q))"
proof (induction q i rule: skip_line.induct)
  case (1 q i)
  then show ?case
    by (subst skip_line.simps) (cases "i < length q"; simp add: drop_Cons_nth)
qed

lemma skip_ident_span: "skip_ident q i = i + length (takeWhile isIdentChar (drop i q))"
proof (induction q i rule: skip_ident.induct)
  case (1 q i)
  then show ?case
    by (subst skip_ident.simps) (cases "i < length q"; simp add: drop_Cons_nth)
qed

lemma skip_block_span: "drop (skip_block q i + 2) q = snd (block_span (drop i q))"
  and skip_block_end:
    "snd (block_span (drop i q)) \<noteq> [] \<Longrightarrow> skip_block q i + 2 = i + length (fst (block_span (drop i q)))"
proof (induction q i rule: skip_block.induct)
  case (1 q i)
  consider (short) "length q \<le> i + 1" | (in2) "i + 1 < length q"
    by linarith
  note cases2 = this
  {
    case 1
    from cases2 show ?case
    proof cases
      case short
      then have "length (drop i q) \<le> 1" by simp
      then have "snd (block_span (drop i q)) = []"
        by (cases "drop i q" rule: block_span.cases) auto
      with short show ?thesis by (subst skip_block.simps) simp
    next
      case in2
      note d = drop_Cons_nth2 [OF this]
      from in2 "1.IH"(1) show ?thesis
        by (subst skip_block.simps) (auto simp: d)
    qed
  next
    case 2
    from cases2 show ?case
    proof cases
      case short
      then have "length (drop i q) \<le> 1" by simp
      then have "snd (block_span (drop i q)) = []"
        by (cases "drop i q" rule: block_span.cases) auto
      with 2 show ?thesis by simp
    next
      case in2
      note d = drop_Cons_nth2 [OF this]
      from in2 "1.IH"(2) 2 show ?thesis
        by (subst skip_block.simps) (auto simp: d)
    qed
  }
qed

text \<open>One step of the main loop against one step of the lexer.\<close>

lemma drop_skip_quoted: "drop (skip_quoted q c i) q = snd (quoted_span c (drop i q))"
  unfolding skip_quoted_span by (rule drop_span) (simp add: quoted_span_append)

lemma drop_skip_line: "drop (skip_line q i) q = dropWhile (\<lambda>x. x \<noteq> CHR 0x0A) (drop i q)"
  unfolding skip_line_span by (rule drop_span) simp

lemma drop_skip_ident: "drop (skip_ident q i) q = dropWhile isIdentChar (drop i q)"
  unfolding skip_ident_span by (rule drop_span) simp

lemma substr_skip_ident: "substr q i (skip_ident q i) = takeWhile isIdentChar (drop i q)"
  by (simp add: substr_def skip_ident_span takeWhile_eq_take [symmetric])

lemma starts_with_drop: "starts_with c (drop i q) \<longleftrightarrow> i < length q \<and> q ! i = c"
  by (auto simp: hd_drop_conv_nth)

lemma starts_with_drop_Cons:
  assumes "starts_with c (drop (Suc i) q)"
  shows "Suc i < length q" "q ! Suc i = c" "drop (Suc i) q = c # drop (Suc (Suc i)) q"
proof -
  show *: "Suc i < length q" "q ! Suc i = c" using assms by (auto simp: hd_drop_conv_nth not_le)
  then show "drop (Suc i) q = c # drop (Suc (Suc i)) q" by (simp add: drop_Cons_nth)
qed

text \<open>A byte that starts nothing is skipped.\<close>

lemma parse_loop_other:
  assumes "i < length q" "\<not> isQuote (q ! i)" "\<not> (q ! i = CHR ''-'' \<and> starts_with CHR ''-'' (drop (Suc i) q))"
    "\<not> (q ! i = CHR ''/'' \<and> starts_with CHR ''*'' (drop (Suc i) q))"
    "\<not> (q ! i = CHR '':'' \<and> starts_with CHR '':'' (drop (Suc i) q))"
    "\<not> (q ! i = CHR '':'' \<and> drop (Suc i) q \<noteq> [] \<and> isIdentChar (hd (drop (Suc i) q)))" "q ! i \<noteq> CHR ''?''"
  shows "parse_loop q i acc = parse_loop q (Suc i) acc"
proof -
  have "skip_ident q (Suc i) = Suc i" if "q ! i = CHR '':''"
    using assms(6) that by (cases "drop (Suc i) q") (auto simp: skip_ident_span)
  with assms show ?thesis
    unfolding starts_with_drop by (subst parse_loop.simps) (auto simp: Let_def)
qed

lemma parse_loop_lex: "parse_loop q i acc = acc @ places_at i (lex_query (drop i q))"
proof (induction "length q - i" arbitrary: i acc rule: less_induct)
  case less
  show ?case
  proof (cases "i < length q")
    case False
    then show ?thesis by (subst parse_loop.simps) simp
  next
    case True
    then have d: "drop i q = q ! i # drop (Suc i) q" by (rule drop_Cons_nth)
    have IH: "parse_loop q j a = a @ places_at j (lex_query (drop j q))" if "i < j" for j a
      using less.hyps [of j a] True that by (simp add: diff_less_mono2)
    show ?thesis
    proof (cases "q ! i" "drop (Suc i) q" rule: lex_cases)
      case quote
      have e: "Suc (i + length (fst (quoted_span (q ! i) (drop (Suc i) q)))) = skip_quoted q (q ! i) (Suc i)"
        by (simp add: skip_quoted_span)
      then have "i < skip_quoted q (q ! i) (Suc i)" by simp
      from quote True IH [OF this, of acc] show ?thesis
        by (subst parse_loop.simps) (simp add: d Let_def drop_skip_quoted e)
    next
      case line
      note n = starts_with_drop_Cons [OF line(3)]
      have e: "Suc (Suc (i + length (takeWhile (\<lambda>x. x \<noteq> CHR 0x0A) (drop (Suc (Suc i)) q)))) = skip_line q (Suc (Suc i))"
        by (simp add: skip_line_span)
      then have "i < skip_line q (Suc (Suc i))" by simp
      from line True n IH [OF this, of acc] show ?thesis
        by (subst parse_loop.simps) (simp add: d Let_def drop_skip_line e)
    next
      case block
      note n = starts_with_drop_Cons [OF block(3)]
      have "i < skip_block q (Suc (Suc i)) + 2" using skip_block_ge [of "Suc (Suc i)" q] by simp
      from block True n IH [OF this, of acc] skip_block_span [of q "Suc (Suc i)"] skip_block_end [of "Suc (Suc i)" q]
      show ?thesis
        by (subst parse_loop.simps)
          (cases "snd (block_span (drop (Suc (Suc i)) q)) = []"; simp add: d Let_def)
    next
      case cast
      note n = starts_with_drop_Cons [OF cast(3)]
      from cast True n IH [of "Suc (Suc i)" acc] show ?thesis
        by (subst parse_loop.simps) (simp add: d Let_def)
    next
      case named
      let ?m = "takeWhile isIdentChar (drop (Suc i) q)"
      have e: "skip_ident q (Suc i) = Suc i + length ?m" by (rule skip_ident_span)
      have "?m \<noteq> []" using named(4,5) by (cases "drop (Suc i) q") auto
      with named True e IH [of "Suc i + length ?m"] drop_skip_ident [of q "Suc i"] substr_skip_ident [of q "Suc i"]
      show ?thesis
        unfolding starts_with_drop by (subst parse_loop.simps) (simp add: d Let_def)
    next
      case pos
      with True IH [of "Suc i"] show ?thesis
        by (subst parse_loop.simps) (simp add: d Let_def)
    next
      case other
      with parse_loop_other [OF True other(1-6)] IH [of "Suc i" acc] show ?thesis by (simp add: d)
    qed
  qed
qed

text \<open>The parser's placeholders are those of the lexer's tokens, at their offsets.\<close>

lemma parsePlaceholders_lex: "parsePlaceholders q = places_at 0 (lex_query q)"
  by (simp add: parsePlaceholders_def parse_loop_lex)

section \<open>Replacing placeholders keeps the rest of the query\<close>

text \<open>
  Every rewriting of the code replaces placeholder tokens by blocks made of \<open>?\<close>, commas and
  numbered markers. \<open>repl ts us\<close> says that \<open>us\<close> is \<open>ts\<close> with some placeholders replaced so;
  then the text of \<open>us\<close> lexes to exactly \<open>us\<close>: no literal, comment, cast or other
  placeholder is disturbed, and none appears.
\<close>

definition safe_char :: "char \<Rightarrow> bool" where
  "safe_char c = (\<not> isQuote c \<and> c \<notin> {CHR ''-'', CHR ''/'', CHR '':'', CHR ''?''})"

definition safe_tok :: "token \<Rightarrow> bool" where
  "safe_tok t = (case t of Pos \<Rightarrow> True | Txt s \<Rightarrow> (\<exists>c. s = [c] \<and> safe_char c) | Named _ \<Rightarrow> False)"

definition safe_block :: "token list \<Rightarrow> bool" where
  "safe_block b = (list_all safe_tok b \<and> b \<noteq> [] \<and> hd b \<in> {Pos, Txt ''$'', Txt ''@''})"

fun is_ph :: "token \<Rightarrow> bool" where
  "is_ph (Txt _) = False"
| "is_ph _ = True"

inductive repl :: "token list \<Rightarrow> token list \<Rightarrow> bool" where
  repl_nil: "repl [] []"
| repl_keep: "repl ts us \<Longrightarrow> repl (t # ts) (t # us)"
| repl_subst: "is_ph t \<Longrightarrow> safe_block b \<Longrightarrow> repl ts us \<Longrightarrow> repl (t # ts) (b @ us)"

inductive_cases repl_ConsE: "repl (t # ts) us"
inductive_cases repl_NilE: "repl [] us"

text \<open>What the text after a token looks like once placeholders are replaced.\<close>

definition hdrel :: "string \<Rightarrow> string \<Rightarrow> bool" where
  "hdrel r r' =
     ((r = [] \<longleftrightarrow> r' = []) \<and>
      (r \<noteq> [] \<longrightarrow> hd r' = hd r \<or>
        (hd r \<in> {CHR ''?'', CHR '':''} \<and> hd r' \<in> {CHR ''?'', CHR ''$'', CHR ''@''})))"

definition tok_ok :: "token \<Rightarrow> bool" where
  "tok_ok t = (case t of Txt s \<Rightarrow> s \<noteq> [] | Pos \<Rightarrow> True | Named n \<Rightarrow> n \<noteq> [] \<and> list_all isIdentChar n)"

lemma takeWhile_ident_ok: "s \<noteq> [] \<Longrightarrow> isIdentChar (hd s) \<Longrightarrow> tok_ok (Named (takeWhile isIdentChar s))"
  by (cases s) (auto simp: tok_ok_def list_all_iff dest: set_takeWhileD)

lemma tok_ok_Txt [simp]: "tok_ok (Txt s) = (s \<noteq> [])" and tok_ok_Pos [simp]: "tok_ok Pos"
  by (simp_all add: tok_ok_def)

lemma lex_query_ok: "list_all tok_ok (lex_query s)"
proof (induction s rule: lex_query.induct)
  case (2 c s)
  then show ?case
    by (subst lex_query.simps) (simp add: takeWhile_ident_ok)
qed simp

lemma render_nonempty: "tok_ok t \<Longrightarrow> render t \<noteq> []"
  by (cases t) (auto simp: tok_ok_def)

lemma hd_safe_block: "safe_block b \<Longrightarrow> flat b \<noteq> [] \<and> hd (flat b) \<in> {CHR ''?'', CHR ''$'', CHR ''@''}"
  by (cases b) (auto simp: safe_block_def)

lemma hd_is_ph: "is_ph t \<Longrightarrow> hd (render t) \<in> {CHR ''?'', CHR '':''} \<and> render t \<noteq> []"
  by (cases t) auto

lemma repl_hdrel:
  assumes "repl ts us" "list_all tok_ok ts"
  shows "hdrel (flat ts) (flat us)"
  using assms(1)
proof cases
  case repl_nil
  then show ?thesis by (simp add: hdrel_def)
next
  case (repl_keep ts' us' t)
  with assms(2) show ?thesis by (auto simp: hdrel_def render_nonempty)
next
  case (repl_subst t b ts' us')
  with hd_safe_block [of b] hd_is_ph [of t] show ?thesis by (auto simp: hdrel_def)
qed

lemma lex_safe_append: "list_all safe_tok b \<Longrightarrow> lex_query (flat b @ r) = b @ lex_query r"
proof (induction b)
  case (Cons t b)
  then show ?case
    by (cases t) (auto simp: safe_tok_def safe_char_def lex_query.simps isQuote_def)
qed simp

lemma quoted_span_stable:
  "hdrel (snd (quoted_span q s)) r' \<Longrightarrow> isQuote q \<Longrightarrow>
   quoted_span q (fst (quoted_span q s) @ r') = (fst (quoted_span q s), r')"
proof (induction q s rule: quoted_span.induct)
  case (1 q)
  then show ?case by (simp add: hdrel_def)
next
  case (2 q c)
  then show ?case by (simp add: hdrel_def)
next
  case (3 q c d r)
  consider (esc) "c = q" "d = q" | (closed) "c = q" "d \<noteq> q" | (inside) "c \<noteq> q" by blast
  then show ?case
  proof cases
    case esc
    with 3 show ?thesis by simp
  next
    case closed
    with "3.prems" show ?thesis
      by (cases r') (auto simp: hdrel_def isQuote_def)
  next
    case inside
    then have IH: "quoted_span q (fst (quoted_span q (d # r)) @ r')
      = (fst (quoted_span q (d # r)), r')"
      using 3 by simp
    have "fst (quoted_span q (d # r)) \<noteq> []"
      by (cases r) auto
    then obtain e es where "fst (quoted_span q (d # r)) = e # es"
      by (cases "fst (quoted_span q (d # r))") auto
    with IH inside show ?thesis by simp
  qed
qed

lemma block_span_stable:
  "hdrel (snd (block_span s)) r' \<Longrightarrow>
   block_span (fst (block_span s) @ r') = (fst (block_span s), r')"
proof (induction s rule: block_span.induct)
  case 1
  then show ?case by (simp add: hdrel_def)
next
  case (2 c)
  then show ?case by (simp add: hdrel_def)
next
  case (3 c d r)
  show ?case
  proof (cases "c = CHR ''*'' \<and> d = CHR ''/''")
    case True
    then show ?thesis by simp
  next
    case False
    with 3 have IH: "block_span (fst (block_span (d # r)) @ r') = (fst (block_span (d # r)), r')"
      by auto
    have "fst (block_span (d # r)) \<noteq> [] \<and> hd (fst (block_span (d # r))) = d"
      by (cases r) auto
    then obtain es where "fst (block_span (d # r)) = d # es"
      by (cases "fst (block_span (d # r))") auto
    with IH False show ?thesis by auto
  qed
qed

lemma takeWhile_stable:
  assumes "hdrel (dropWhile P s) r'" "\<not> P CHR ''?'' \<and> \<not> P CHR ''$'' \<and> \<not> P CHR ''@''"
  shows "takeWhile P (takeWhile P s @ r') = takeWhile P s"
    and "dropWhile P (takeWhile P s @ r') = r'"
proof -
  have "r' = [] \<or> \<not> P (hd r')"
    using assms hd_dropWhile [of P s] by (auto simp: hdrel_def)
  then have "takeWhile P r' = [] \<and> dropWhile P r' = r'"
    by (cases r') auto
  moreover have "\<forall>x \<in> set (takeWhile P s). P x"
    by (auto dest: set_takeWhileD)
  ultimately show "takeWhile P (takeWhile P s @ r') = takeWhile P s"
    "dropWhile P (takeWhile P s @ r') = r'"
    by (auto simp: takeWhile_append2 dropWhile_append2)
qed

text \<open>The rest of a line stops where it stopped, whatever replaces the placeholders behind it.\<close>

lemma takeWhile_dropWhile_nl:
  assumes "hdrel (dropWhile (\<lambda>x. x \<noteq> CHR 0x0A) u) r'"
  shows "takeWhile (\<lambda>x. x \<noteq> CHR 0x0A) (takeWhile (\<lambda>x. x \<noteq> CHR 0x0A) u @ r') = takeWhile (\<lambda>x. x \<noteq> CHR 0x0A) u"
    "dropWhile (\<lambda>x. x \<noteq> CHR 0x0A) (takeWhile (\<lambda>x. x \<noteq> CHR 0x0A) u @ r') = r'"
proof -
  let ?P = "\<lambda>x. x \<noteq> CHR 0x0A"
  have "r' = [] \<or> hd r' = CHR 0x0A"
    using assms hd_dropWhile [of ?P u] by (auto simp: hdrel_def)
  then have "takeWhile ?P r' = [] \<and> dropWhile ?P r' = r'" by (cases r') auto
  moreover have "\<forall>x \<in> set (takeWhile ?P u). ?P x" by (auto dest: set_takeWhileD)
  ultimately show "takeWhile ?P (takeWhile ?P u @ r') = takeWhile ?P u" "dropWhile ?P (takeWhile ?P u @ r') = r'"
    by (simp_all add: takeWhile_append2 dropWhile_append2)
qed

text \<open>The stability lemma: one lexer step survives the replacements after it.\<close>

lemma starts_with_hdrel:
  "hdrel r r' \<Longrightarrow> c \<notin> {CHR ''?'', CHR ''$'', CHR ''@'', CHR '':''} \<Longrightarrow>
   starts_with c r' \<longleftrightarrow> starts_with c r"
  by (auto simp: hdrel_def)

lemma ident_hdrel:
  "hdrel r r' \<Longrightarrow> r' \<noteq> [] \<and> isIdentChar (hd r') \<longleftrightarrow> r \<noteq> [] \<and> isIdentChar (hd r)"
  by (auto simp: hdrel_def isIdentChar_def)

lemma lex_step_hdrel:
  assumes "lex_query (c # s) = t # ts" and h: "hdrel (flat ts) r'"
  shows "lex_query (render t @ r') = t # lex_query r'"
proof (cases c s rule: lex_cases)
  case quote
  with assms have "hdrel (snd (quoted_span c s)) r'" by (auto simp: flat_lex)
  then have "quoted_span c (fst (quoted_span c s) @ r') = (fst (quoted_span c s), r')"
    using quote(1) by (rule quoted_span_stable)
  with quote assms(1) show ?thesis by (auto simp: lex_query.simps)
next
  case line
  with assms have "hdrel (dropWhile (\<lambda>x. x \<noteq> CHR 0x0A) (tl s)) r'" by (auto simp: flat_lex)
  from takeWhile_dropWhile_nl [OF this] line assms(1) show ?thesis by (auto simp: lex_query.simps)
next
  case block
  with assms have "hdrel (snd (block_span (tl s))) r'" by (auto simp: flat_lex)
  then have "block_span (fst (block_span (tl s)) @ r') = (fst (block_span (tl s)), r')"
    by (rule block_span_stable)
  with block assms(1) show ?thesis by (auto simp: lex_query.simps)
next
  case named
  with assms have h': "hdrel (dropWhile isIdentChar s) r'" by (auto simp: flat_lex)
  have np: "\<not> isIdentChar CHR ''?'' \<and> \<not> isIdentChar CHR ''$'' \<and> \<not> isIdentChar CHR ''@''"
    by (simp add: isIdentChar_def)
  obtain x xs where x: "takeWhile isIdentChar s = x # xs" "isIdentChar x"
    using named(4,5) by (cases s) auto
  then have "x \<noteq> CHR '':''" by (auto simp: isIdentChar_def)
  with x named assms(1) takeWhile_stable [OF h' np] show ?thesis by (auto simp: lex_query.simps)
next
  case other
  with assms have h': "hdrel s r'" by (auto simp: flat_lex)
  have "\<not> starts_with CHR '':'' r'" if "c = CHR '':''"
    using h' other(4) that by (auto simp: hdrel_def)
  moreover have "t = Txt [c]" using other(7) assms(1) by simp
  ultimately show ?thesis
    using other(1-6) starts_with_hdrel [OF h', of "CHR ''-''"] starts_with_hdrel [OF h', of "CHR ''*''"]
      ident_hdrel [OF h']
    by (auto simp: lex_query.simps)
qed (use assms(1) in \<open>auto simp: lex_query.simps isQuote_def\<close>)

lemma lex_step_stable:
  assumes "lex_query (c # s) = t # ts" "repl ts us"
  shows "lex_query (render t @ flat us) = t # lex_query (flat us)"
proof (rule lex_step_hdrel [OF assms(1)], rule repl_hdrel [OF assms(2)])
  show "list_all tok_ok ts" using assms(1) lex_query_ok [of "c # s"] by simp
qed

definition lex_step_ok :: "string \<Rightarrow> token list \<Rightarrow> bool" where
  "lex_step_ok s ts = (\<exists>t r. ts = t # lex_query r \<and> length r \<le> length s)"

lemma lex_step_okI: "length r \<le> length s \<Longrightarrow> lex_step_ok s (t # lex_query r)"
  by (auto simp: lex_step_ok_def)

lemma tl_le: "length r \<le> length (tl s) \<Longrightarrow> length r \<le> length s"
  by simp

lemmas tl_spans_le = tl_le [OF block_span_le] tl_le [OF dropWhile_le]

lemma lex_query_step: "lex_step_ok s (lex_query (c # s))"
  by (subst lex_query.simps) (auto intro!: lex_step_okI tl_spans_le)

text \<open>Replacing placeholders by safe blocks re-lexes to the replaced token sequence.\<close>

lemma lex_repl: "repl (lex_query s) us \<Longrightarrow> lex_query (flat us) = us"
proof (induction s arbitrary: us rule: length_induct)
  case (1 s)
  show ?case
  proof (cases s)
    case Nil
    with "1.prems" show ?thesis by (auto elim: repl_NilE)
  next
    case (Cons c s')
    obtain t r where tr: "lex_query (c # s') = t # lex_query r" "length r \<le> length s'"
      using lex_query_step [of s' c] by (auto simp: lex_step_ok_def)
    then have IH: "lex_query (flat us') = us'" if "repl (lex_query r) us'" for us'
      using "1.IH" that Cons le_imp_less_Suc [OF tr(2)] by simp
    from "1.prems" Cons tr(1) have "repl (t # lex_query r) us" by simp
    then show ?thesis
    proof cases
      case (repl_keep us')
      with IH lex_step_stable [OF tr(1)] show ?thesis by simp
    next
      case (repl_subst b us')
      with IH lex_safe_append [of b "flat us'"] show ?thesis
        by (simp add: safe_block_def)
    qed
  qed
qed

text \<open>A query whose last token is a closing parenthesis can be followed by any text without
  changing its tokens.\<close>

lemma lex_append_closed:
  "lex_query s = ts @ [Txt '')''] \<Longrightarrow> lex_query (s @ r) = ts @ Txt '')'' # lex_query r"
proof (induction s arbitrary: ts rule: length_induct)
  case (1 s)
  show ?case
  proof (cases s)
    case Nil
    with "1.prems" show ?thesis by simp
  next
    case (Cons c s')
    obtain t r0 where tr: "lex_query (c # s') = t # lex_query r0" "length r0 \<le> length s'"
      using lex_query_step [of s' c] by (auto simp: lex_step_ok_def)
    show ?thesis
    proof (cases ts)
      case Nil
      with "1.prems" Cons have "s = '')''" by (metis append_Nil flat_lex flat_simps(1,2) render.simps(1) append_Nil2)
      with Nil show ?thesis by (simp add: lex_query.simps isQuote_def)
    next
      case (Cons t' ts')
      with tr \<open>s = c # s'\<close> "1.prems" have ts: "t' = t" "lex_query r0 = ts' @ [Txt '')'']" by auto
      then have "r0 \<noteq> []" by auto
      then have "hdrel (flat (lex_query r0)) (r0 @ r)" by (auto simp: hdrel_def flat_lex)
      then have "lex_query (render t @ r0 @ r) = t # lex_query (r0 @ r)"
        using lex_step_hdrel tr(1) by blast
      moreover have "s = render t @ r0" using tr(1) \<open>s = c # s'\<close> by (metis flat_lex flat_simps(2))
      moreover have "lex_query (r0 @ r) = ts' @ Txt '')'' # lex_query r"
        using "1.IH" ts(2) tr(2) \<open>s = c # s'\<close> by simp
      ultimately show ?thesis using Cons ts(1) by simp
    qed
  qed
qed

section \<open>Facts about the placeholders found\<close>

lemma places_at_bounds:
  "p \<in> set (places_at n ts) \<Longrightarrow> n \<le> pl_pos p \<and> pl_pos p < pl_end p \<and> pl_end p \<le> n + length (flat ts)"
  by (induction n ts rule: places_at.induct) force+

lemma places_at_ordered: "sorted_wrt (\<lambda>p p'. pl_end p \<le> pl_pos p') (places_at n ts)"
proof (induction n ts rule: places_at.induct)
  case (3 n ts)
  then show ?case using places_at_bounds [of _ "n + 1" ts] by auto
next
  case (4 n m ts)
  then show ?case using places_at_bounds [of _ "n + 1 + length m" ts] by auto
qed auto

lemma substr_append_left: "n = length pre \<Longrightarrow> substr (pre @ a @ b) n (n + length a) = a"
  by (simp add: substr_def)

lemma places_at_text:
  "list_all tok_ok ts \<Longrightarrow> n = length pre \<Longrightarrow> p \<in> set (places_at n ts) \<Longrightarrow>
   substr (pre @ flat ts) (pl_pos p) (pl_end p) = (if pl_name p = [] then ''?'' else CHR '':'' # pl_name p)
   \<and> list_all isIdentChar (pl_name p)"
proof (induction n ts arbitrary: pre rule: places_at.induct)
  case (2 n s ts)
  from 2(1) [of "pre @ s"] 2(2-) show ?case by simp
next
  case (3 n ts)
  show ?case
  proof (cases "p = \<lparr>pl_name = [], pl_pos = n, pl_end = n + 1\<rparr>")
    case True
    with 3(3) substr_append_left [of n pre "''?''" "flat ts"] show ?thesis by simp
  next
    case False
    with 3(1) [of "pre @ ''?''"] 3(2-) show ?thesis by simp
  qed
next
  case (4 n m ts)
  show ?case
  proof (cases "p = \<lparr>pl_name = m, pl_pos = n, pl_end = n + 1 + length m\<rparr>")
    case True
    with 4(2,3) substr_append_left [of n pre "CHR '':'' # m" "flat ts"] show ?thesis
      by (auto simp: tok_ok_def)
  next
    case False
    with 4(1) [of "pre @ CHR '':'' # m"] 4(2-) show ?thesis by simp
  qed
qed simp

fun is_named :: "token \<Rightarrow> bool" where
  "is_named (Named _) = True"
| "is_named _ = False"

fun is_pos :: "token \<Rightarrow> bool" where
  "is_pos Pos = True"
| "is_pos _ = False"

fun tok_name :: "token \<Rightarrow> string" where
  "tok_name (Named n) = n"
| "tok_name _ = []"

definition tok_names :: "token list \<Rightarrow> string list" where
  "tok_names ts = map tok_name (filter is_named ts)"

lemma namedPlaces_names:
  "list_all tok_ok ts \<Longrightarrow> map pl_name (namedPlaces (places_at n ts)) = tok_names ts"
  by (induction n ts rule: places_at.induct) (auto simp: namedPlaces_def tok_names_def tok_ok_def)

section \<open>Splicing blocks over placeholders\<close>

text \<open>
  The rewriting loops all have one shape: for each chosen placeholder write the text since
  the previous one, write a block, and move past the placeholder. \<open>splice\<close> is that shape;
  \<open>subst_toks\<close> is its effect on the tokens.
\<close>

fun splice :: "string \<Rightarrow> nat \<Rightarrow> (placeholder \<times> string) list \<Rightarrow> string" where
  "splice q lo [] = drop lo q"
| "splice q lo ((p, b) # rest) = substr q lo (pl_pos p) @ b @ splice q (pl_end p) rest"

fun subst_toks :: "(token \<Rightarrow> bool) \<Rightarrow> token list list \<Rightarrow> token list \<Rightarrow> token list" where
  "subst_toks P bs [] = []"
| "subst_toks P bs (t # ts) =
     (if P t then (case bs of [] \<Rightarrow> t # subst_toks P [] ts | b # bs' \<Rightarrow> b @ subst_toks P bs' ts)
      else t # subst_toks P bs ts)"

lemma repl_subst_toks:
  "(\<And>t. P t \<Longrightarrow> is_ph t) \<Longrightarrow> list_all safe_block bs \<Longrightarrow> repl ts (subst_toks P bs ts)"
  by (induction P bs ts rule: subst_toks.induct) (auto intro: repl.intros split: list.splits)

text \<open>The placeholders of the tokens that satisfy \<open>P\<close>.\<close>

definition sel_places :: "(token \<Rightarrow> bool) \<Rightarrow> nat \<Rightarrow> token list \<Rightarrow> placeholder list" where
  "sel_places P n ts = filter (\<lambda>p. P (if pl_name p = [] then Pos else Named (pl_name p))) (places_at n ts)"

lemma splice_subst_aux:
  "list_all tok_ok ts \<Longrightarrow> (\<And>t. P t \<Longrightarrow> is_ph t) \<Longrightarrow> length bs = length (filter P ts) \<Longrightarrow>
   drop i q = flat ts \<Longrightarrow> lo \<le> i \<Longrightarrow> i \<le> length q \<Longrightarrow>
   splice q lo (zip (sel_places P i ts) (map flat bs)) = substr q lo i @ flat (subst_toks P bs ts)"
proof (induction ts arbitrary: bs i lo)
  case Nil
  then show ?case by (simp add: sel_places_def substr_def)
next
  case (Cons t ts)
  let ?j = "i + length (render t)"
  have d: "drop ?j q = flat ts" using Cons.prems(4) by (metis drop_span flat_simps(2))
  have r: "substr q i ?j = render t" using Cons.prems(4) by (simp add: substr_def)
  have le: "?j \<le> length q"
  proof -
    have "length (drop i q) = length (render t) + length (flat ts)" using Cons.prems(4) by simp
    with Cons.prems(6) show ?thesis by simp
  qed
  have ok: "list_all tok_ok ts" "tok_ok t" using Cons.prems(1) by simp_all
  note IH = Cons.IH [OF ok(1) Cons.prems(2) _ d _ le]
  show ?case
  proof (cases "P t")
    case False
    with ok(2) have sel: "sel_places P i (t # ts) = sel_places P ?j ts"
      by (cases t) (auto simp: sel_places_def tok_ok_def)
    have "substr q lo i @ render t = substr q lo ?j"
      using substr_append [of lo i ?j q] Cons.prems(5) r by simp
    with IH [of bs lo] False Cons.prems sel show ?thesis by simp
  next
    case True
    with Cons.prems(3) obtain b bs' where bs: "bs = b # bs'" by (cases bs) auto
    from True Cons.prems(2) have ph: "is_ph t" by blast
    define p where "p = \<lparr>pl_name = tok_name t, pl_pos = i, pl_end = ?j\<rparr>"
    from True ph ok(2) have sel: "sel_places P i (t # ts) = p # sel_places P ?j ts"
      by (cases t) (auto simp: sel_places_def tok_ok_def p_def)
    from IH [of bs' ?j] Cons.prems(3) True bs
    have "splice q ?j (zip (sel_places P ?j ts) (map flat bs')) = flat (subst_toks P bs' ts)"
      by simp
    with sel bs True show ?thesis by (simp add: p_def)
  qed
qed

lemma splice_subst:
  assumes "\<And>t. P t \<Longrightarrow> is_ph t" "length bs = length (filter P (lex_query q))"
  shows "splice q 0 (zip (sel_places P 0 (lex_query q)) (map flat bs)) = flat (subst_toks P bs (lex_query q))"
  using splice_subst_aux [OF lex_query_ok assms, of 0 q 0] by (simp add: flat_lex)

lemma sel_named: "list_all tok_ok ts \<Longrightarrow> sel_places is_named n ts = namedPlaces (places_at n ts)"
  by (induction n ts rule: places_at.induct) (auto simp: sel_places_def namedPlaces_def tok_ok_def)

lemma named_is_ph: "is_named t \<Longrightarrow> is_ph t" and pos_is_ph: "is_pos t \<Longrightarrow> is_ph t"
  by (cases t; simp)+

lemma sel_named_lex: "sel_places is_named 0 (lex_query q) = namedPlaces (parsePlaceholders q)"
  by (simp add: sel_named lex_query_ok parsePlaceholders_lex)

lemma length_namedPlaces: "length (namedPlaces (parsePlaceholders q)) = length (filter is_named (lex_query q))"
  using namedPlaces_names [OF lex_query_ok, of 0 q] length_map
  by (metis parsePlaceholders_lex tok_names_def)

section \<open>Rebind\<close>

text \<open>\<^verbatim>\<open>config.go\<close> declares the style as an \<open>int\<close> with three named values; any other
  integer is \<open>PlaceholderStyleOther\<close>.\<close>

datatype placeholder_style =
  PlaceholderQuestion | PlaceholderDollar | PlaceholderAt | PlaceholderStyleOther int

definition rebind_marker :: "placeholder_style \<Rightarrow> nat \<Rightarrow> string" where
  "rebind_marker style n =
     (case style of
        PlaceholderDollar \<Rightarrow> CHR ''$'' # itoa n
      | PlaceholderAt \<Rightarrow> CHR ''@'' # itoa n
      | _ \<Rightarrow> [])"

fun rebind_loop :: "string \<Rightarrow> placeholder_style \<Rightarrow> nat \<Rightarrow> nat \<Rightarrow> placeholder list \<Rightarrow> string" where
  "rebind_loop query style lo n [] = drop lo query"
| "rebind_loop query style lo n (p # ps) =
     (if pl_name p \<noteq> [] then rebind_loop query style lo n ps
      else substr query lo (pl_pos p) @ rebind_marker style (n + 1)
             @ rebind_loop query style (pl_end p) (n + 1) ps)"

definition Rebind :: "string \<Rightarrow> placeholder_style \<Rightarrow> string" where
  "Rebind query style =
     (if style = PlaceholderQuestion then query
      else rebind_loop query style 0 0 (parsePlaceholders query))"

definition marker_toks :: "placeholder_style \<Rightarrow> nat \<Rightarrow> token list" where
  "marker_toks style n = map (\<lambda>c. Txt [c]) (rebind_marker style n)"

lemma flat_chars [simp]: "flat (map (\<lambda>c. Txt [c]) s) = s"
  by (induction s) auto

lemma flat_marker_toks [simp]: "flat (marker_toks style n) = rebind_marker style n"
  by (simp add: marker_toks_def)

lemma is_digit_safe: "is_digit c \<Longrightarrow> safe_char c"
  by (auto simp: is_digit_def safe_char_def isQuote_def)

lemma safe_chars: "list_all safe_char s \<Longrightarrow> list_all safe_tok (map (\<lambda>c. Txt [c]) s)"
  by (induction s) (auto simp: safe_tok_def)

lemma safe_itoa: "list_all safe_char (itoa n)"
  using itoa_digits [of n] by (auto simp: list_all_iff is_digit_safe)

lemma safe_char_marks: "safe_char CHR ''$''" "safe_char CHR ''@''" "safe_char CHR '',''"
  by (simp_all add: safe_char_def isQuote_def)

lemma safe_marker: "style \<in> {PlaceholderDollar, PlaceholderAt} \<Longrightarrow> safe_block (marker_toks style n)"
  using safe_chars [OF safe_itoa, of n] safe_char_marks
  by (auto simp: safe_block_def marker_toks_def rebind_marker_def safe_tok_def)

lemma rebind_loop_splice:
  "rebind_loop q st lo n ps =
     splice q lo (zip (filter (\<lambda>p. pl_name p = []) ps)
       (map (rebind_marker st) [Suc n..<Suc (n + length (filter (\<lambda>p. pl_name p = []) ps))]))"
proof (induction q st lo n ps rule: rebind_loop.induct)
  case (2 q st lo n p ps)
  then show ?case by (simp add: upt_conv_Cons del: upt_Suc)
qed simp

lemma sel_pos: "list_all tok_ok ts \<Longrightarrow> sel_places is_pos n ts = filter (\<lambda>p. pl_name p = []) (places_at n ts)"
  by (induction n ts rule: places_at.induct) (auto simp: sel_places_def tok_ok_def)

lemma length_sel_pos:
  "list_all tok_ok ts \<Longrightarrow> length (filter (\<lambda>p. pl_name p = []) (places_at n ts)) = length (filter is_pos ts)"
  by (induction n ts rule: places_at.induct) (auto simp: tok_ok_def)

text \<open>Rebind on the tokens: the n-th positional placeholder becomes the n-th marker.\<close>

lemma Rebind_toks:
  assumes "style \<in> {PlaceholderDollar, PlaceholderAt}"
  shows "lex_query (Rebind q style) =
    subst_toks is_pos (map (marker_toks style) [1..<Suc (length (filter is_pos (lex_query q)))]) (lex_query q)"
    (is "_ = ?us")
proof -
  let ?k = "length (filter is_pos (lex_query q))"
  have "Rebind q style = splice q 0 (zip (sel_places is_pos 0 (lex_query q))
      (map (rebind_marker style) [1..<Suc ?k]))"
    using assms
    by (auto simp: Rebind_def rebind_loop_splice sel_pos lex_query_ok parsePlaceholders_lex length_sel_pos
        simp del: upt_Suc)
  also have "map (rebind_marker style) [1..<Suc ?k] = map flat (map (marker_toks style) [1..<Suc ?k])"
    by (simp del: upt_Suc)
  also have "splice q 0 (zip (sel_places is_pos 0 (lex_query q)) \<dots>) = flat ?us"
    by (rule splice_subst) (auto intro: pos_is_ph simp del: upt_Suc)
  finally have "Rebind q style = flat ?us" .
  moreover have "repl (lex_query q) ?us"
    by (rule repl_subst_toks) (auto intro: pos_is_ph safe_marker [OF assms] simp: list_all_iff)
  ultimately show ?thesis by (simp add: lex_repl)
qed

lemma subst_toks_filter:
  "length bs = length (filter P ts) \<Longrightarrow> (\<And>b. b \<in> set bs \<Longrightarrow> filter Q b = []) \<Longrightarrow>
   (\<And>t. P t \<Longrightarrow> \<not> Q t) \<Longrightarrow> filter Q (subst_toks P bs ts) = filter Q ts"
  by (induction P bs ts rule: subst_toks.induct) (auto split: list.splits)

lemma subst_toks_removes:
  "length bs = length (filter P ts) \<Longrightarrow> (\<And>b. b \<in> set bs \<Longrightarrow> filter P b = []) \<Longrightarrow>
   filter P (subst_toks P bs ts) = []"
  by (induction P bs ts rule: subst_toks.induct) (auto split: list.splits)

lemma filter_marker_toks [simp]: "filter is_named (marker_toks st n) = []" "filter is_pos (marker_toks st n) = []"
  by (auto simp: marker_toks_def filter_empty_conv)

lemma positional_places:
  "(\<forall>p \<in> set (parsePlaceholders q). pl_name p \<noteq> []) \<longleftrightarrow> filter is_pos (lex_query q) = []"
proof -
  have "filter (\<lambda>p. pl_name p = []) (parsePlaceholders q) = [] \<longleftrightarrow> filter is_pos (lex_query q) = []"
    using length_sel_pos [OF lex_query_ok, of 0 q]
    by (metis length_0_conv parsePlaceholders_lex)
  then show ?thesis by (auto simp: filter_empty_conv)
qed

lemma named_names: "map pl_name (namedPlaces (parsePlaceholders q)) = tok_names (lex_query q)"
  by (simp add: parsePlaceholders_lex namedPlaces_names lex_query_ok)

section \<open>Groups of named placeholders and fragments\<close>

definition onlySeparators :: "string \<Rightarrow> bool" where
  "onlySeparators s = list_all (\<lambda>r. is_space r \<or> r = 44) (runes s)"

fun group_loop ::
  "string \<Rightarrow> placeholder \<Rightarrow> placeholder list \<Rightarrow> placeholder list list \<Rightarrow> placeholder list
   \<Rightarrow> placeholder list list" where
  "group_loop query prev cur groups [] = groups @ [cur]"
| "group_loop query prev cur groups (p # ps) =
     (if onlySeparators (substr query (pl_end prev) (pl_pos p))
      then group_loop query p (cur @ [p]) groups ps
      else group_loop query p [p] (groups @ [cur]) ps)"

text \<open>\<open>named[0]\<close> of an empty slice panics.\<close>

definition groupNamedPlaces :: "placeholder list \<Rightarrow> string \<Rightarrow> placeholder list list outcome" where
  "groupNamedPlaces named query =
     (case named of
        [] \<Rightarrow> Panic ''index out of range''
      | p # ps \<Rightarrow> Ok (group_loop query p [p] [] ps))"

lemma group_loop_concat: "concat (group_loop q prev cur groups ps) = concat groups @ cur @ ps"
  by (induction q prev cur groups ps rule: group_loop.induct) auto

lemma group_loop_nonempty:
  "cur \<noteq> [] \<Longrightarrow> [] \<notin> set groups \<Longrightarrow> [] \<notin> set (group_loop q prev cur groups ps)"
  by (induction q prev cur groups ps rule: group_loop.induct) auto

lemma group_loop_not_nil: "group_loop q prev cur groups ps \<noteq> []"
  by (induction q prev cur groups ps rule: group_loop.induct) auto

lemma groupNamedPlaces_Ok:
  "named \<noteq> [] \<Longrightarrow> \<exists>gs. groupNamedPlaces named q = Ok gs \<and> concat gs = named \<and> [] \<notin> set gs \<and> gs \<noteq> []"
  by (cases named)
    (auto simp: groupNamedPlaces_def group_loop_concat group_loop_nonempty group_loop_not_nil)

fun replace_loop :: "string \<Rightarrow> nat \<Rightarrow> placeholder list \<Rightarrow> string" where
  "replace_loop fragment lo [] = drop lo fragment"
| "replace_loop fragment lo (p # ps) =
     substr fragment lo (pl_pos p) @ ''?'' @ replace_loop fragment (pl_end p) ps"

definition replaceNamedInFragment :: "string \<Rightarrow> string" where
  "replaceNamedInFragment fragment =
     (let places = namedPlaces (parsePlaceholders fragment) in
      if length places = 0 then fragment else replace_loop fragment 0 places)"

lemma replace_loop_splice: "replace_loop f lo ps = splice f lo (zip ps (replicate (length ps) ''?''))"
  by (induction f lo ps rule: replace_loop.induct) auto

lemma safe_pos: "safe_block [Pos]"
  by (simp add: safe_block_def safe_tok_def)

lemma subst_toks_none: "filter P ts = [] \<Longrightarrow> subst_toks P bs ts = ts"
  by (induction ts) (auto split: if_splits)

lemma replaceNamed_toks:
  "lex_query (replaceNamedInFragment f) =
     subst_toks is_named (replicate (length (filter is_named (lex_query f))) [Pos]) (lex_query f)"
proof -
  let ?k = "length (filter is_named (lex_query f))"
  have "replace_loop f 0 (namedPlaces (parsePlaceholders f))
    = splice f 0 (zip (sel_places is_named 0 (lex_query f)) (map flat (replicate ?k [Pos])))"
    by (simp add: replace_loop_splice sel_named_lex length_namedPlaces map_replicate_const)
  also have "\<dots> = flat (subst_toks is_named (replicate ?k [Pos]) (lex_query f))"
    by (rule splice_subst) (auto intro: named_is_ph)
  finally have "replaceNamedInFragment f = flat (subst_toks is_named (replicate ?k [Pos]) (lex_query f))"
    by (auto simp: replaceNamedInFragment_def Let_def length_namedPlaces subst_toks_none flat_lex)
  moreover have "repl (lex_query f) (subst_toks is_named (replicate ?k [Pos]) (lex_query f))"
    by (rule repl_subst_toks) (auto intro: named_is_ph safe_pos simp: list_all_iff)
  ultimately show ?thesis by (simp add: lex_repl)
qed

section \<open>Properties\<close>

definition place_text :: "placeholder \<Rightarrow> string" where
  "place_text p = (if pl_name p = [] then ''?'' else CHR '':'' # pl_name p)"

definition place_ok :: "string \<Rightarrow> placeholder \<Rightarrow> bool" where
  "place_ok q p =
     (pl_pos p < pl_end p \<and> pl_end p \<le> length q
      \<and> substr q (pl_pos p) (pl_end p) = place_text p \<and> list_all isIdentChar (pl_name p))"

lemma places_ok: "list_all (place_ok q) (parsePlaceholders q)"
proof (unfold list_all_iff, rule ballI)
  fix p assume "p \<in> set (parsePlaceholders q)"
  then have p: "p \<in> set (places_at 0 (lex_query q))" by (simp add: parsePlaceholders_lex)
  from places_at_bounds [OF p] places_at_text [OF lex_query_ok _ p, of "[]"]
  show "place_ok q p" by (auto simp: place_ok_def place_text_def flat_lex)
qed

text \<open>C1: the index-driven parser computes exactly the placeholder tokens of the lexer, whose
  tokens concatenate to the query; the placeholders are in order, disjoint, inside the query,
  and each covers the text \<open>?\<close> or \<open>:name\<close> with an identifier name.\<close>

theorem parsePlaceholders_correct:
  "parsePlaceholders q = places_at 0 (lex_query q) \<and> flat (lex_query q) = q
   \<and> sorted_wrt (\<lambda>p p'. pl_end p \<le> pl_pos p') (parsePlaceholders q)
   \<and> list_all (place_ok q) (parsePlaceholders q)"
  by (simp add: parsePlaceholders_lex flat_lex places_at_ordered places_ok [unfolded parsePlaceholders_lex])

text \<open>C18: for the numbered styles, \<open>Rebind\<close> replaces the n-th positional placeholder by the
  n-th marker and leaves every other token, hence every literal, comment, cast and named
  placeholder, as it is: the result lexes to that token sequence, has no positional
  placeholder and the same named ones.\<close>

theorem Rebind_correct:
  assumes "style = PlaceholderDollar \<or> style = PlaceholderAt"
  shows "lex_query (Rebind q style) =
      subst_toks is_pos (map (marker_toks style) [1..<Suc (length (filter is_pos (lex_query q)))]) (lex_query q)
    \<and> list_all (\<lambda>p. pl_name p \<noteq> []) (parsePlaceholders (Rebind q style))
    \<and> map pl_name (namedPlaces (parsePlaceholders (Rebind q style)))
      = map pl_name (namedPlaces (parsePlaceholders q))"
proof (intro conjI)
  let ?bs = "map (marker_toks style) [1..<Suc (length (filter is_pos (lex_query q)))]"
  show toks: "lex_query (Rebind q style) = subst_toks is_pos ?bs (lex_query q)"
    using assms by (intro Rebind_toks) auto
  have len: "length ?bs = length (filter is_pos (lex_query q))" by (simp del: upt_Suc)
  have "filter is_pos (lex_query (Rebind q style)) = []"
    unfolding toks by (rule subst_toks_removes [OF len]) auto
  then show "list_all (\<lambda>p. pl_name p \<noteq> []) (parsePlaceholders (Rebind q style))"
    by (simp add: list_all_iff positional_places)
  have "filter is_named (lex_query (Rebind q style)) = filter is_named (lex_query q)"
    unfolding toks by (rule subst_toks_filter [OF len]) (auto elim: is_pos.elims)
  then show "map pl_name (namedPlaces (parsePlaceholders (Rebind q style)))
      = map pl_name (namedPlaces (parsePlaceholders q))"
    by (simp add: named_names tok_names_def)
qed

theorem Rebind_correct_witness:
  "Rebind ''a=? AND b=:n AND c='?' OR d=?'' PlaceholderDollar = ''a=$1 AND b=:n AND c='?' OR d=$2''
   \<and> map pl_name (namedPlaces (parsePlaceholders (Rebind ''a=? AND b=:n AND c='?' OR d=?'' PlaceholderDollar)))
     = map pl_name (namedPlaces (parsePlaceholders ''a=? AND b=:n AND c='?' OR d=?''))"
proof (rule conjI)
  show "Rebind ''a=? AND b=:n AND c='?' OR d=?'' PlaceholderDollar = ''a=$1 AND b=:n AND c='?' OR d=$2''"
    by code_simp
qed (use Rebind_correct [of PlaceholderDollar "''a=? AND b=:n AND c='?' OR d=?''"] in simp)

text \<open>\<open>replaceNamedInFragment\<close> turns exactly the named placeholders of the fragment into
  positional ones: no named placeholder is left, as many placeholders are found as before,
  and every other token is unchanged.\<close>

lemma replaceNamedInFragment_correct:
  "namedPlaces (parsePlaceholders (replaceNamedInFragment f)) = []
   \<and> length (parsePlaceholders (replaceNamedInFragment f)) = length (parsePlaceholders f)
   \<and> lex_query (replaceNamedInFragment f) = map (\<lambda>t. if is_named t then Pos else t) (lex_query f)"
proof -
  have gen: "subst_toks is_named (replicate (length (filter is_named ts)) [Pos]) ts
      = map (\<lambda>t. if is_named t then Pos else t) ts" for ts
    by (induction ts) auto
  have toks: "lex_query (replaceNamedInFragment f) = map (\<lambda>t. if is_named t then Pos else t) (lex_query f)"
    by (simp add: replaceNamed_toks gen)
  have "filter is_named (map (\<lambda>t. if is_named t then Pos else t) ts) = []" for ts
    by (induction ts) auto
  then have "namedPlaces (parsePlaceholders (replaceNamedInFragment f)) = []"
    using length_namedPlaces [of "replaceNamedInFragment f"] by (simp add: toks)
  moreover have "length (places_at n (map (\<lambda>t. if is_named t then Pos else t) ts)) = length (places_at m ts)"
    for n m ts
    by (induction m ts arbitrary: n rule: places_at.induct) auto
  ultimately show ?thesis using toks by (simp add: parsePlaceholders_lex)
qed

text \<open>\<open>groupNamedPlaces\<close> splits a non-empty list of placeholders into consecutive,
  non-empty groups that concatenate to the list, so no named placeholder is ever outside
  every group.\<close>

lemma groupNamedPlaces_partition:
  assumes "named \<noteq> []"
  shows "\<exists>gs. groupNamedPlaces named q = Ok gs \<and> concat gs = named \<and> [] \<notin> set gs \<and> gs \<noteq> []"
  using assms by (rule groupNamedPlaces_Ok)

lemma groupNamedPlaces_partition_witness:
  "namedPlaces (parsePlaceholders ''(:a, :b) WHERE c=:c'') \<noteq> []
   \<and> (\<exists>gs. groupNamedPlaces (namedPlaces (parsePlaceholders ''(:a, :b) WHERE c=:c''))
              ''(:a, :b) WHERE c=:c'' = Ok gs
            \<and> concat gs = namedPlaces (parsePlaceholders ''(:a, :b) WHERE c=:c'') \<and> [] \<notin> set gs \<and> gs \<noteq> [])"
proof -
  have "namedPlaces (parsePlaceholders ''(:a, :b) WHERE c=:c'') \<noteq> []" by code_simp
  then show ?thesis using groupNamedPlaces_partition by blast
qed

end
