(* ===== verification/GoValues.thy ===== *)
theory GoValues
  imports GoStrings "HOL-Library.Word"
begin

text \<open>
  The values the code handles through \<^verbatim>\<open>reflect\<close>: Go types, data of those types and
  \<open>reflect.Value\<close> (a typed datum, or the invalid value, which is also the nil \<open>any\<close>).
  Struct types are named; their fields, and which types implement \<open>driver.Valuer\<close> and
  \<open>sql.Scanner\<close>, belong to the program that uses the library and are parameters
  (\<open>genv\<close>), as are the Unicode tables and \<open>json.Marshal\<close>.
\<close>

section \<open>Types and kinds\<close>

datatype ikind = IInt | I8 | I16 | I32 | I64

text \<open>\<open>TNamed\<close> is a defined type over a non-struct type; \<open>TIface ''''\<close> is \<open>any\<close>; \<open>TOther\<close>
  stands for the kinds the code does not name (arrays, channels, functions, complex
  numbers, \<open>uintptr\<close>).\<close>

datatype gtype =
    TBool
  | TInt ikind
  | TUint ikind
  | TFloat32
  | TFloat64
  | TString
  | TSlice gtype
  | TPtr gtype
  | TMap gtype gtype
  | TStruct string
  | TTime
  | TIface string
  | TNamed string gtype
  | TOther string

abbreviation TAny :: gtype where
  "TAny \<equiv> TIface []"

abbreviation TBytes :: gtype where
  "TBytes \<equiv> TSlice (TUint I8)"

datatype gkind =
  KBool | KInt | KUint | KFloat | KString | KSlice | KPtr | KMap | KStruct | KInterface | KOther

fun kind :: "gtype \<Rightarrow> gkind" where
  "kind TBool = KBool"
| "kind (TInt _) = KInt"
| "kind (TUint _) = KUint"
| "kind TFloat32 = KFloat"
| "kind TFloat64 = KFloat"
| "kind TString = KString"
| "kind (TSlice _) = KSlice"
| "kind (TPtr _) = KPtr"
| "kind (TMap _ _) = KMap"
| "kind (TStruct _) = KStruct"
| "kind TTime = KStruct"
| "kind (TIface _) = KInterface"
| "kind (TNamed _ t) = kind t"
| "kind (TOther _) = KOther"

fun underlying :: "gtype \<Rightarrow> gtype" where
  "underlying (TNamed _ t) = underlying t"
| "underlying t = t"

text \<open>\<open>Type.Elem\<close> of a slice, pointer or map and \<open>Type.Key\<close> of a map; they panic on other
  kinds, where the code never calls them.\<close>

fun elem_type :: "gtype \<Rightarrow> gtype" where
  "elem_type (TSlice t) = t"
| "elem_type (TPtr t) = t"
| "elem_type (TMap k t) = t"
| "elem_type (TNamed _ t) = elem_type t"
| "elem_type t = t"

fun key_type :: "gtype \<Rightarrow> gtype" where
  "key_type (TMap k t) = k"
| "key_type (TNamed _ t) = key_type t"
| "key_type t = t"

definition basic_kind :: "gkind \<Rightarrow> bool" where
  "basic_kind k = (k \<in> {KBool, KInt, KUint, KFloat, KString})"

section \<open>Times\<close>

text \<open>A \<open>time.Time\<close>: seconds and nanoseconds since the Unix epoch and the zone, resolved at
  that instant (\<open>LocUTC\<close> is a nil location). \<open>location\<close> is a \<open>*time.Location\<close>.\<close>

datatype gloc = LocUTC | LocZone string int

record gtime =
  t_sec :: int
  t_nsec :: nat
  t_loc :: gloc

datatype location = UTCLocation | ZoneLocation string "int \<Rightarrow> int"

definition zero_time :: gtime where
  "zero_time = \<lparr>t_sec = - 62135596800, t_nsec = 0, t_loc = LocUTC\<rparr>"

definition time_in :: "gtime \<Rightarrow> location \<Rightarrow> gtime" where
  "time_in t l =
     (case l of
        UTCLocation \<Rightarrow> t\<lparr>t_loc := LocUTC\<rparr>
      | ZoneLocation n off \<Rightarrow> t\<lparr>t_loc := LocZone n (off (t_sec t))\<rparr>)"

section \<open>Data\<close>

text \<open>
  Integers are kept as their mathematical value, in the range of their type; floats as
  their bit pattern. \<open>DNil\<close> is the nil pointer, slice, map or interface. A slice of bytes
  is \<open>DBytes\<close>. \<open>DOther\<close> is an opaque datum of a kind the code does not inspect, with a
  flag that says whether it is the zero value.
\<close>

datatype gdata =
    DBool bool
  | DInt int
  | DFloat64 "64 word"
  | DFloat32 "32 word"
  | DStr string
  | DNil
  | DBytes string
  | DSlice "gdata list"
  | DPtr gdata
  | DMap "(gdata \<times> gdata) list"
  | DStruct "gdata list"
  | DTime gtime
  | DIface gtype gdata
  | DOther bool string

datatype rvalue = Invalid | RV gtype gdata

text \<open>The zero value of the type a datum has.\<close>

fun zero_of :: "gdata \<Rightarrow> gdata" where
  "zero_of (DBool _) = DBool False"
| "zero_of (DInt _) = DInt 0"
| "zero_of (DFloat64 _) = DFloat64 0"
| "zero_of (DFloat32 _) = DFloat32 0"
| "zero_of (DStr _) = DStr []"
| "zero_of DNil = DNil"
| "zero_of (DBytes _) = DNil"
| "zero_of (DSlice _) = DNil"
| "zero_of (DPtr _) = DNil"
| "zero_of (DMap _) = DNil"
| "zero_of (DStruct ds) = DStruct (map zero_of ds)"
| "zero_of (DTime _) = DTime zero_time"
| "zero_of (DIface _ _) = DNil"
| "zero_of (DOther _ n) = DOther True n"

text \<open>\<open>reflect.Value.IsZero\<close>: a negative zero is zero, and a struct is zero when its fields are.\<close>

fun is_zero :: "gdata \<Rightarrow> bool" where
  "is_zero (DFloat64 w) = (w = 0 \<or> w = 0x8000000000000000)"
| "is_zero (DFloat32 w) = (w = 0 \<or> w = 0x80000000)"
| "is_zero (DStruct ds) = list_all is_zero ds"
| "is_zero d = (d = zero_of d)"

lemma zero_of_idem [simp]: "zero_of (zero_of d) = zero_of d"
  by (induction d rule: zero_of.induct) auto

lemma is_zero_zero_of [simp]: "is_zero (zero_of d)"
  by (induction d rule: zero_of.induct) (auto simp: list_all_iff)

text \<open>\<open>Value.Interface\<close>: a value of interface kind yields what it holds.\<close>

definition as_any :: "rvalue \<Rightarrow> rvalue" where
  "as_any v =
     (case v of
        Invalid \<Rightarrow> Invalid
      | RV t d \<Rightarrow>
          (if kind t = KInterface then (case d of DIface t' d' \<Rightarrow> RV t' d' | _ \<Rightarrow> Invalid)
           else RV t d))"

lemma as_any_not_iface [simp]: "kind t \<noteq> KInterface \<Longrightarrow> as_any (RV t d) = RV t d"
  by (simp add: as_any_def)

text \<open>The elements \<open>Index(0..Len-1)\<close> of a slice, as \<open>reflect.Value\<close>s.\<close>

definition slice_elems :: "gtype \<Rightarrow> gdata \<Rightarrow> rvalue list" where
  "slice_elems t d =
     (case d of
        DSlice ds \<Rightarrow> map (RV (elem_type t)) ds
      | DBytes s \<Rightarrow> map (\<lambda>c. RV (elem_type t) (DInt (int (of_char c)))) s
      | _ \<Rightarrow> [])"

text \<open>Follow pointers while the kind is \<open>Ptr\<close>; \<open>None\<close> at a nil pointer.\<close>

fun deref :: "gtype \<Rightarrow> gdata \<Rightarrow> (gtype \<times> gdata) option" where
  "deref t (DPtr d) = (if kind t = KPtr then deref (elem_type t) d else Some (t, DPtr d))"
| "deref t d = (if kind t = KPtr then None else Some (t, d))"

lemma deref_kind: "deref t d = Some (t', d') \<Longrightarrow> kind t' \<noteq> KPtr"
  by (induction t d rule: deref.induct) (auto split: if_splits)

lemma deref_not_ptr: "kind t \<noteq> KPtr \<Longrightarrow> deref t d = Some (t, d)"
  by (cases d) auto

section \<open>The environment\<close>

record sfield =
  sf_name :: string
  sf_exported :: bool
  sf_anon :: bool
  sf_type :: gtype
  sf_tags :: "(string \<times> string) list"
  sf_offset :: nat

record genv =
  ge_fields :: "string \<Rightarrow> sfield list"
  ge_depth :: nat
  ge_valuer :: "gtype \<Rightarrow> bool"
  ge_scanner :: "gtype \<Rightarrow> bool"
  ge_unicode :: unicode_tables
  ge_json_marshal :: "rvalue \<Rightarrow> string outcome"

text \<open>The fields of a struct type; \<open>time.Time\<close> has unexported fields only.\<close>

fun struct_fields :: "'e genv_scheme \<Rightarrow> gtype \<Rightarrow> sfield list" where
  "struct_fields E (TStruct n) = ge_fields E n"
| "struct_fields E (TNamed _ t) = struct_fields E t"
| "struct_fields E _ = []"

text \<open>\<open>StructTag.Get\<close>: empty when the key is absent.\<close>

definition tag_get :: "sfield \<Rightarrow> string \<Rightarrow> string" where
  "tag_get sf key = (case map_of (sf_tags sf) key of None \<Rightarrow> [] | Some v \<Rightarrow> v)"

text \<open>\<open>Value.Field\<close>: panics unless the value is a struct with that field.\<close>

definition rv_field :: "'e genv_scheme \<Rightarrow> rvalue \<Rightarrow> nat \<Rightarrow> rvalue outcome" where
  "rv_field E v i =
     (case v of
        RV t (DStruct ds) \<Rightarrow>
          (if kind t = KStruct \<and> i < length (struct_fields E t) \<and> i < length ds
           then Ok (RV (sf_type (struct_fields E t ! i)) (ds ! i))
           else Panic ''reflect: Field index out of range'')
      | _ \<Rightarrow> Panic ''reflect: call of reflect.Value.Field'')"

text \<open>\<open>Value.MapIndex(reflect.ValueOf(name))\<close> on a map whose key kind is string: the key must
  be assignable to the key type, which a \<open>string\<close> is only if that type is \<open>string\<close> itself.\<close>

definition map_index :: "gtype \<Rightarrow> gdata \<Rightarrow> string \<Rightarrow> rvalue outcome" where
  "map_index t d name =
     (if key_type t \<noteq> TString
      then Panic ''reflect.Value.MapIndex: value of type string is not assignable''
      else (case d of
              DMap kvs \<Rightarrow>
                (case map_of kvs (DStr name) of
                   None \<Rightarrow> Ok Invalid
                 | Some x \<Rightarrow> Ok (RV (elem_type t) x))
            | _ \<Rightarrow> Ok Invalid))"

end
