(* ===== verification/Config.thy ===== *)
theory Config
  imports Placeholders GoValues
begin

text \<open>
  \<^verbatim>\<open>config.go\<close>: the configuration shared by \<open>*DB\<close> and \<open>*Tx\<close>, its defaults and options, the
  registration of plugins up to the first execution, the call-level options, and the
  default name mapper \<open>snakeCase\<close>. The configuration is polymorphic in the plugins it
  holds. A function value is a code pointer (what \<open>reflect.Value.Pointer\<close> returns, shared by
  all closures of one function literal) and its behaviour.
\<close>

section \<open>snakeCase\<close>

text \<open>The loop of \<open>snakeCase\<close> at a rune \<open>r\<close> whose predecessor (if any) is \<open>prev\<close> and whose
  successors are \<open>rest\<close>.\<close>

definition snake_rune :: "unicode_tables \<Rightarrow> nat option \<Rightarrow> nat \<Rightarrow> nat list \<Rightarrow> string" where
  "snake_rune u prev r rest =
     (if is_upper u r then
        (let nextLower = (case rest of [] \<Rightarrow> False | n # _ \<Rightarrow> is_lower u n);
             sep = (case prev of
                      None \<Rightarrow> False
                    | Some p \<Rightarrow> is_lower u p \<or> is_digit_rune u p \<or> (is_upper u p \<and> nextLower))
         in (if sep then ''_'' else []) @ encode_rune (to_lower_rune u r))
      else encode_rune r)"

fun snake_loop :: "unicode_tables \<Rightarrow> nat option \<Rightarrow> nat list \<Rightarrow> string" where
  "snake_loop u prev [] = []"
| "snake_loop u prev (r # rest) = snake_rune u prev r rest @ snake_loop u (Some r) rest"

definition snakeCase :: "unicode_tables \<Rightarrow> string \<Rightarrow> string" where
  "snakeCase u s = snake_loop u None (runes s)"

section \<open>The configuration\<close>

record name_mapper =
  nm_code :: nat
  nm_fn :: "string \<Rightarrow> string"

text \<open>\<open>snakeCase\<close> as a function value; code pointer 0 is its own.\<close>

definition snake_mapper :: "unicode_tables \<Rightarrow> name_mapper" where
  "snake_mapper u = \<lparr>nm_code = 0, nm_fn = snakeCase u\<rparr>"

record 'p config =
  tagName :: string
  nameMapper :: "name_mapper option"
  placeholder_of :: placeholder_style
  strictMode :: bool
  sliceExpansion :: bool
  nullToZero :: bool
  timeLocation :: "location option"
  timeLayout :: string
  mapKeyFunc :: "string \<Rightarrow> string"
  pluginErrHandler :: bool
  plugins :: "'p list"
  executed :: bool

text \<open>\<open>time.RFC3339Nano\<close>.\<close>

definition RFC3339Nano :: string where
  "RFC3339Nano = ''2006-01-02T15:04:05.999999999Z07:00''"

definition defaultConfig :: "unicode_tables \<Rightarrow> 'p config" where
  "defaultConfig u =
     \<lparr>tagName = ''db'', nameMapper = Some (snake_mapper u), placeholder_of = PlaceholderQuestion,
      strictMode = False, sliceExpansion = False, nullToZero = True, timeLocation = None,
      timeLayout = RFC3339Nano, mapKeyFunc = (\<lambda>s. s), pluginErrHandler = False,
      plugins = [], executed = False\<rparr>"

text \<open>\<open>addPlugins\<close> and \<open>begin\<close> run under the lock, so each is one step.\<close>

definition addPlugins :: "'p config \<Rightarrow> 'p list \<Rightarrow> 'p config \<times> goerr option" where
  "addPlugins c ps =
     (if executed c then (c, Some ErrPluginRegisteredTooLate)
      else (c\<lparr>plugins := plugins c @ ps\<rparr>, None))"

definition begin_exec :: "'p config \<Rightarrow> 'p config \<times> 'p list" where
  "begin_exec c = (c\<lparr>executed := True\<rparr>, plugins c)"

section \<open>Options\<close>

datatype 'p option_item =
    WithTagName string
  | WithNameMapper "name_mapper option"
  | WithPlaceholder placeholder_style
  | WithStrictMode bool
  | WithSliceExpansion bool
  | WithNullToZeroValue bool
  | WithTimeLocation "location option"
  | WithTimeLayout string
  | WithMapKeyFunc "string \<Rightarrow> string"
  | WithPlugin "'p list"
  | WithPluginErrorHandler bool

fun apply_option :: "'p config \<Rightarrow> 'p option_item \<Rightarrow> 'p config" where
  "apply_option c (WithTagName name) = c\<lparr>tagName := name\<rparr>"
| "apply_option c (WithNameMapper m) = c\<lparr>nameMapper := m\<rparr>"
| "apply_option c (WithPlaceholder p) = c\<lparr>placeholder_of := p\<rparr>"
| "apply_option c (WithStrictMode b) = c\<lparr>strictMode := b\<rparr>"
| "apply_option c (WithSliceExpansion b) = c\<lparr>sliceExpansion := b\<rparr>"
| "apply_option c (WithNullToZeroValue b) = c\<lparr>nullToZero := b\<rparr>"
| "apply_option c (WithTimeLocation l) = c\<lparr>timeLocation := l\<rparr>"
| "apply_option c (WithTimeLayout l) = c\<lparr>timeLayout := l\<rparr>"
| "apply_option c (WithMapKeyFunc f) = c\<lparr>mapKeyFunc := f\<rparr>"
| "apply_option c (WithPlugin ps) = fst (addPlugins c ps)"
| "apply_option c (WithPluginErrorHandler h) = c\<lparr>pluginErrHandler := h\<rparr>"

text \<open>\<open>isPostgresDriver\<close> looks at the package path of the driver's concrete type (of the type
  a pointer driver points to); \<open>None\<close> is a nil driver.\<close>

fun contains :: "string \<Rightarrow> string \<Rightarrow> bool" where
  "contains [] p = (p = [])"
| "contains (c # s) p = (has_prefix (c # s) p \<or> contains s p)"

definition has_suffix :: "string \<Rightarrow> string \<Rightarrow> bool" where
  "has_suffix s p = has_prefix (rev s) (rev p)"

definition isPostgresDriver :: "string option \<Rightarrow> bool" where
  "isPostgresDriver d =
     (case d of
        None \<Rightarrow> False
      | Some pkg \<Rightarrow> contains pkg ''jackc/pgx'' \<or> has_suffix pkg ''/pq'')"

text \<open>\<open>New\<close>, up to the handle of the underlying \<open>*sql.DB\<close>.\<close>

definition New_config :: "unicode_tables \<Rightarrow> string option \<Rightarrow> 'p option_item list \<Rightarrow> 'p config" where
  "New_config u driver opts =
     (let cfg = defaultConfig u;
          cfg = (if isPostgresDriver driver then cfg\<lparr>placeholder_of := PlaceholderDollar\<rparr> else cfg)
      in foldl apply_option cfg opts)"

section \<open>Call options\<close>

text \<open>
  A call option is a key and a value. Keys are compared by their Go type: \<open>StrictModeKey\<close> is
  the core's own, sub-packages have theirs.
\<close>

datatype option_key =
  StrictModeKey | TTLKey | NamespaceKey | CacheEnableKey | NoCacheKey | InvalidateNSKey | UserKey string | NilKey

datatype option_value = VBool bool | VStr string | VDuration int | VOtherValue string | NilValue

text \<open>\<open>ForeignOption\<close> is a value of the interface that is not a \<open>callOption\<close>: nil, or a struct that embeds the
  interface.\<close>

datatype call_option = CallOption option_key option_value | ForeignOption

fun CallOptionKeyValue :: "call_option \<Rightarrow> option_key \<times> option_value" where
  "CallOptionKeyValue (CallOption k v) = (k, v)"
| "CallOptionKeyValue ForeignOption = (NilKey, NilValue)"

definition WithStrictModeCall :: "bool \<Rightarrow> call_option" where
  "WithStrictModeCall strict = CallOption StrictModeKey (VBool strict)"

record call_config =
  cc_strictMode :: "bool option"

definition apply_call_option :: "call_config \<Rightarrow> call_option \<Rightarrow> call_config" where
  "apply_call_option cc co =
     (case co of
        CallOption StrictModeKey (VBool v) \<Rightarrow> cc\<lparr>cc_strictMode := Some v\<rparr>
      | _ \<Rightarrow> cc)"

definition applyCallOptions :: "call_option list \<Rightarrow> call_config" where
  "applyCallOptions opts = foldl apply_call_option \<lparr>cc_strictMode = None\<rparr> opts"

definition effectiveStrict :: "'p config \<Rightarrow> call_config \<Rightarrow> bool" where
  "effectiveStrict cfg cc = (case cc_strictMode cc of Some b \<Rightarrow> b | None \<Rightarrow> strictMode cfg)"

section \<open>Lemmas\<close>

lemma has_suffix_iff: "has_suffix s p \<longleftrightarrow> (\<exists>r. s = r @ p)"
proof -
  have "rev s = rev p @ r \<longleftrightarrow> s = rev r @ p" for r
    by (metis rev_append rev_rev_ident)
  then show ?thesis
    by (auto simp: has_suffix_def has_prefix_iff) (metis rev_rev_ident)
qed

lemma contains_iff: "contains s p \<longleftrightarrow> (\<exists>l r. s = l @ p @ r)"
proof (induction s)
  case (Cons c s)
  have "(\<exists>l r. c # s = l @ p @ r) \<longleftrightarrow> (\<exists>r. c # s = p @ r) \<or> (\<exists>l r. s = l @ p @ r)"
    by (metis append_Cons append_Nil neq_Nil_conv list.inject)
  with Cons show ?case by (simp add: has_prefix_iff)
qed simp

text \<open>Options never mark the configuration executed, so every \<open>WithPlugin\<close> of \<open>New\<close> registers.\<close>

fun option_plugins :: "'p option_item \<Rightarrow> 'p list" where
  "option_plugins (WithPlugin ps) = ps"
| "option_plugins _ = []"

fun option_placeholder :: "'p option_item \<Rightarrow> placeholder_style option" where
  "option_placeholder (WithPlaceholder p) = Some p"
| "option_placeholder _ = None"

lemma foldl_apply_option:
  "\<not> executed c \<Longrightarrow>
   \<not> executed (foldl apply_option c opts)
   \<and> plugins (foldl apply_option c opts) = plugins c @ concat (map option_plugins opts)"
proof (induction opts arbitrary: c)
  case (Cons x opts)
  have "\<not> executed (apply_option c x) \<and> plugins (apply_option c x) = plugins c @ option_plugins x"
    using Cons.prems by (cases x) (auto simp: addPlugins_def)
  with Cons.IH [of "apply_option c x"] show ?case by simp
qed simp

lemma foldl_apply_option_placeholder:
  "placeholder_of (foldl apply_option c opts) =
     (case filter (\<lambda>x. option_placeholder x \<noteq> None) opts of
        [] \<Rightarrow> placeholder_of c
      | _ \<Rightarrow> the (option_placeholder (last (filter (\<lambda>x. option_placeholder x \<noteq> None) opts))))"
proof (induction opts arbitrary: c)
  case (Cons x opts)
  have "placeholder_of (apply_option c x) =
      (case option_placeholder x of None \<Rightarrow> placeholder_of c | Some p \<Rightarrow> p)"
    by (cases x) (auto simp: addPlugins_def)
  with Cons.IH [of "apply_option c x"] show ?case
    by (auto split: list.splits option.splits)
qed simp

end
