(* ===== verification/Meta.thy ===== *)
theory Meta
  imports Config
begin

text \<open>
  \<^verbatim>\<open>meta.go\<close>: the flattened field metadata of a struct type, how it is built (tags, name
  mapper, embedded structs), the process-wide type cache, name lookup in the two
  directions, and following an index path through a value.

  Embedding is followed by recursion on the declared types. A struct that embeds a pointer
  to itself is legal Go; there the code recurses until the stack is exhausted. The model
  recurses to the depth \<open>ge_depth\<close> of the environment and panics beyond it.
\<close>

section \<open>Field metadata\<close>

record field_info =
  fi_index :: "nat list"
  fi_name :: string
  fi_fieldName :: string
  fi_typ :: gtype
  fi_json :: bool
  fi_omitEmpty :: bool
  fi_fast :: bool
  fi_offset :: nat
  fi_addr :: bool

record type_info =
  ti_fields :: "field_info list"
  byColumn :: "string \<Rightarrow> nat option"
  byMapped :: "string \<Rightarrow> nat option"
  byFieldName :: "string \<Rightarrow> nat option"
  byName :: "string \<Rightarrow> nat option"

text \<open>\<open>parseTag\<close>: the name is required; options are trimmed and empty ones dropped.\<close>

definition parseTag :: "string \<Rightarrow> (string \<times> (string \<Rightarrow> bool)) outcome" where
  "parseTag tag =
     (let parts = split_on CHR '','' tag;
          name = trim_space (hd parts)
      in if name = [] then Err ErrTagInvalid
         else Ok (name,
                foldl (\<lambda>opts o'. let o'' = trim_space o' in if o'' \<noteq> [] then opts(o'' := True) else opts)
                  (\<lambda>_. False) (tl parts)))"

fun strip_ptrs :: "gtype \<Rightarrow> gtype" where
  "strip_ptrs (TPtr t) = strip_ptrs t"
| "strip_ptrs (TNamed n t) = (if kind t = KPtr then strip_ptrs t else TNamed n t)"
| "strip_ptrs t = t"

definition canFastScan :: "'e genv_scheme \<Rightarrow> gtype \<Rightarrow> bool" where
  "canFastScan E ft0 =
     (let ft = strip_ptrs ft0 in
      if ft = TTime then False
      else if ge_scanner E (TPtr ft) then True
      else basic_kind (kind ft)
           \<or> (kind ft = KSlice \<and> underlying (elem_type ft) = TUint I8))"

text \<open>The end of \<open>addField\<close>: append the field and point the maps at it.\<close>

definition append_field :: "'e genv_scheme \<Rightarrow> field_info \<Rightarrow> bool \<Rightarrow> type_info \<Rightarrow> type_info" where
  "append_field E f tagged ti =
     (let idx = length (ti_fields ti) in
      ti\<lparr>ti_fields := ti_fields ti @ [f],
         byColumn := (if tagged then (byColumn ti)(fi_name f \<mapsto> idx) else byColumn ti),
         byMapped := (if tagged then byMapped ti else (byMapped ti)(fi_name f \<mapsto> idx)),
         byFieldName := (byFieldName ti)(fi_fieldName f \<mapsto> idx),
         byName := (byName ti)(to_lower (ge_unicode E) (fi_fieldName f) \<mapsto> idx)\<rparr>)"

definition addField ::
  "'e genv_scheme \<Rightarrow> sfield \<Rightarrow> nat list \<Rightarrow> string \<Rightarrow> (string \<Rightarrow> string) \<Rightarrow> type_info \<Rightarrow> type_info outcome" where
  "addField E sf index tag mapper ti =
     (if tag = ''-'' then Ok ti
      else and_then
        (if tag \<noteq> [] then and_then (parseTag tag) (\<lambda>(name, opts). Ok (name, opts ''json'', opts ''omitempty''))
         else Ok (mapper (sf_name sf), False, False))
        (\<lambda>(name, js, oe).
           if name = [] then Err ErrTagInvalid
           else Ok (append_field E
                  \<lparr>fi_index = index, fi_name = name, fi_fieldName = sf_name sf, fi_typ = sf_type sf,
                   fi_json = js, fi_omitEmpty = oe, fi_fast = canFastScan E (sf_type sf),
                   fi_offset = 0, fi_addr = False\<rparr> (tag \<noteq> []) ti)))"

text \<open>Whether an anonymous field of type \<open>ft\<close> is flattened, and through which struct type.\<close>

definition flattens :: "'e genv_scheme \<Rightarrow> gtype \<Rightarrow> bool" where
  "flattens E ft =
     (kind ft = KStruct \<and> ft \<noteq> TTime \<and> \<not> ge_scanner E (TPtr ft) \<and> \<not> ge_valuer E (TPtr ft))"

definition flatten_target :: "'e genv_scheme \<Rightarrow> gtype \<Rightarrow> gtype option" where
  "flatten_target E ft =
     (if flattens E ft then Some ft
      else if kind ft = KPtr \<and> flattens E (elem_type ft) then Some (elem_type ft)
      else None)"

fun collectFields ::
  "'e genv_scheme \<Rightarrow> nat \<Rightarrow> nat list \<Rightarrow> nat \<Rightarrow> sfield list \<Rightarrow> string \<Rightarrow> (string \<Rightarrow> string) \<Rightarrow> type_info
   \<Rightarrow> type_info outcome" where
  "collectFields E 0 prefix i fs tname mapper ti = Panic ''stack overflow''"
| "collectFields E (Suc d) prefix i [] tname mapper ti = Ok ti"
| "collectFields E (Suc d) prefix i (sf # fs) tname mapper ti =
     (if \<not> sf_exported sf then collectFields E (Suc d) prefix (i + 1) fs tname mapper ti
      else
        and_then
          (let index = prefix @ [i]; tag = tag_get sf tname in
           case (if sf_anon sf \<and> tag = [] then flatten_target E (sf_type sf) else None) of
             Some ft \<Rightarrow> collectFields E d index 0 (struct_fields E ft) tname mapper ti
           | None \<Rightarrow> addField E sf index tag mapper ti)
          (\<lambda>ti'. collectFields E (Suc d) prefix (i + 1) fs tname mapper ti'))"

text \<open>\<open>resolveFieldOffset\<close>: the sum of the layer offsets, unless the path crosses (or ends in)
  a pointer field.\<close>

fun resolveFieldOffset :: "'e genv_scheme \<Rightarrow> gtype \<Rightarrow> nat list \<Rightarrow> nat \<Rightarrow> nat option outcome" where
  "resolveFieldOffset E t [] off = Ok (Some off)"
| "resolveFieldOffset E t (idx # rest) off =
     (if kind t = KStruct \<and> idx < length (struct_fields E t) then
        (let sf = struct_fields E t ! idx in
         if kind (sf_type sf) = KPtr then Ok None
         else resolveFieldOffset E (sf_type sf) rest (off + sf_offset sf))
      else Panic ''reflect: Field index out of bounds'')"

definition set_offset :: "'e genv_scheme \<Rightarrow> gtype \<Rightarrow> field_info \<Rightarrow> field_info outcome" where
  "set_offset E t f =
     and_then (resolveFieldOffset E t (fi_index f) 0)
       (\<lambda>r. case r of None \<Rightarrow> Ok f | Some off \<Rightarrow> Ok (f\<lparr>fi_offset := off, fi_addr := True\<rparr>))"

definition empty_ti :: type_info where
  "empty_ti = \<lparr>ti_fields = [], byColumn = (\<lambda>_. None), byMapped = (\<lambda>_. None),
               byFieldName = (\<lambda>_. None), byName = (\<lambda>_. None)\<rparr>"

definition buildTypeInfo ::
  "'e genv_scheme \<Rightarrow> gtype \<Rightarrow> string \<Rightarrow> (string \<Rightarrow> string) \<Rightarrow> type_info outcome" where
  "buildTypeInfo E t tname mapper =
     and_then (collectFields E (ge_depth E) [] 0 (struct_fields E t) tname mapper empty_ti)
       (\<lambda>ti. and_then (map_outcome (set_offset E t) (ti_fields ti))
         (\<lambda>fs. Ok (ti\<lparr>ti_fields := fs\<rparr>)))"

section \<open>The type cache\<close>

text \<open>The key identifies the name mapper by its code pointer only.\<close>

record meta_key =
  mk_typ :: gtype
  mk_tagName :: string
  mk_mapper :: nat

type_synonym type_cache = "meta_key \<Rightarrow> type_info option"

definition cfg_tagName :: "'p config option \<Rightarrow> string" where
  "cfg_tagName cfg = (case cfg of None \<Rightarrow> ''db'' | Some c \<Rightarrow> tagName c)"

definition cfg_mapper :: "'e genv_scheme \<Rightarrow> 'p config option \<Rightarrow> name_mapper" where
  "cfg_mapper E cfg =
     (case cfg of
        None \<Rightarrow> snake_mapper (ge_unicode E)
      | Some c \<Rightarrow> (case nameMapper c of None \<Rightarrow> snake_mapper (ge_unicode E) | Some m \<Rightarrow> m))"

definition getTypeInfo ::
  "'e genv_scheme \<Rightarrow> type_cache \<Rightarrow> gtype \<Rightarrow> 'p config option \<Rightarrow> type_info outcome \<times> type_cache" where
  "getTypeInfo E tc t cfg =
     (let tag = cfg_tagName cfg; mapper = cfg_mapper E cfg;
          key = \<lparr>mk_typ = t, mk_tagName = tag, mk_mapper = nm_code mapper\<rparr>
      in case tc key of
           Some ti \<Rightarrow> (Ok ti, tc)
         | None \<Rightarrow>
             (case buildTypeInfo E t tag (nm_fn mapper) of
                Ok ti \<Rightarrow> (Ok ti, tc(key \<mapsto> ti))
              | Err e \<Rightarrow> (Err e, tc)
              | Panic m \<Rightarrow> (Panic m, tc)))"

section \<open>Lookup\<close>

definition lookupBind :: "type_info \<Rightarrow> string \<Rightarrow> nat option" where
  "lookupBind ti name =
     (case byColumn ti name of Some i \<Rightarrow> Some i
      | None \<Rightarrow> (case byMapped ti name of Some i \<Rightarrow> Some i
                 | None \<Rightarrow> byFieldName ti name))"

definition lookupScan :: "'e genv_scheme \<Rightarrow> type_info \<Rightarrow> string \<Rightarrow> nat option" where
  "lookupScan E ti col =
     (case byColumn ti col of Some i \<Rightarrow> Some i
      | None \<Rightarrow> (case byMapped ti col of Some i \<Rightarrow> Some i
                 | None \<Rightarrow> byName ti (to_lower (ge_unicode E) col)))"

section \<open>Following an index path\<close>

fun fieldByIndex :: "'e genv_scheme \<Rightarrow> rvalue \<Rightarrow> nat list \<Rightarrow> rvalue outcome" where
  "fieldByIndex E v [] = Ok v"
| "fieldByIndex E v (idx # rest) =
     (case v of
        Invalid \<Rightarrow> Panic ''reflect: call of reflect.Value.Field on zero Value''
      | RV t d \<Rightarrow>
          (if kind t = KPtr \<and> d = DNil then Ok Invalid
           else
             and_then
               (rv_field E (if kind t = KPtr then (case d of DPtr d' \<Rightarrow> RV (elem_type t) d' | _ \<Rightarrow> Invalid)
                            else RV t d) idx)
               (\<lambda>f. if rest \<noteq> [] then
                      (case f of
                         RV ft DNil \<Rightarrow> if kind ft = KPtr then Ok Invalid else fieldByIndex E f rest
                       | RV ft (DPtr fd) \<Rightarrow>
                           (if kind ft = KPtr then fieldByIndex E (RV (elem_type ft) fd) rest
                            else fieldByIndex E f rest)
                       | _ \<Rightarrow> fieldByIndex E f rest)
                    else Ok f)))"

text \<open>\<open>isZeroAny\<close>.\<close>

definition isZeroAny :: "rvalue \<Rightarrow> bool" where
  "isZeroAny v = (case v of Invalid \<Rightarrow> True | RV t d \<Rightarrow> is_zero d)"

section \<open>Invariant of the metadata\<close>

text \<open>Every map entry is an index of a collected field with that name, and every collected
  field is found under its column name, its Go name and its lower-cased Go name.\<close>

definition ti_wf :: "'e genv_scheme \<Rightarrow> type_info \<Rightarrow> bool" where
  "ti_wf E ti =
     ((\<forall>n i. byColumn ti n = Some i \<longrightarrow> i < length (ti_fields ti) \<and> fi_name (ti_fields ti ! i) = n)
      \<and> (\<forall>n i. byMapped ti n = Some i \<longrightarrow> i < length (ti_fields ti) \<and> fi_name (ti_fields ti ! i) = n)
      \<and> (\<forall>n i. byFieldName ti n = Some i \<longrightarrow> i < length (ti_fields ti) \<and> fi_fieldName (ti_fields ti ! i) = n)
      \<and> (\<forall>n i. byName ti n = Some i \<longrightarrow>
            i < length (ti_fields ti) \<and> to_lower (ge_unicode E) (fi_fieldName (ti_fields ti ! i)) = n)
      \<and> (\<forall>f \<in> set (ti_fields ti).
            (byColumn ti (fi_name f) \<noteq> None \<or> byMapped ti (fi_name f) \<noteq> None)
            \<and> byFieldName ti (fi_fieldName f) \<noteq> None
            \<and> byName ti (to_lower (ge_unicode E) (fi_fieldName f)) \<noteq> None))"

lemma ti_wf_empty: "ti_wf E empty_ti"
  by (simp add: ti_wf_def empty_ti_def)

lemma ti_wf_append: "ti_wf E ti \<Longrightarrow> ti_wf E (append_field E f b ti)"
  by (auto simp: ti_wf_def append_field_def Let_def nth_append less_Suc_eq split: if_splits)

text \<open>What \<open>addField\<close> returns.\<close>

lemma addField_cases:
  assumes "addField E sf index tag mapper ti = Ok ti'"
  obtains "ti' = ti"
  | f where "fi_index f = index" "fi_typ f = sf_type sf" "fi_fieldName f = sf_name sf" "fi_name f \<noteq> []"
      "ti' = append_field E f (tag \<noteq> []) ti"
proof (cases "tag = ''-''")
  case True
  with assms that(1) show thesis by (simp add: addField_def)
next
  case False
  with assms obtain name js oe where "name \<noteq> []" and
    "ti' = append_field E
       \<lparr>fi_index = index, fi_name = name, fi_fieldName = sf_name sf, fi_typ = sf_type sf,
        fi_json = js, fi_omitEmpty = oe, fi_fast = canFastScan E (sf_type sf),
        fi_offset = 0, fi_addr = False\<rparr> (tag \<noteq> []) ti"
    by (auto simp: addField_def outcome_iff split: if_splits)
  then show thesis by (intro that(2)) simp_all
qed

lemma addField_wf: "addField E sf index tag mapper ti = Ok ti' \<Longrightarrow> ti_wf E ti \<Longrightarrow> ti_wf E ti'"
  by (erule addField_cases) (use ti_wf_append in blast)+

lemma collectFields_wf:
  "collectFields E d prefix i fs tname mapper ti = Ok ti' \<Longrightarrow> ti_wf E ti \<Longrightarrow> ti_wf E ti'"
proof (induction E d prefix i fs tname mapper ti arbitrary: ti' rule: collectFields.induct)
  case (3 E d prefix i sf fs tname mapper ti)
  show ?case
  proof (cases "sf_exported sf")
    case False
    with 3 show ?thesis by simp
  next
    case True
    let ?m = "let index = prefix @ [i]; tag = tag_get sf tname in
           case (if sf_anon sf \<and> tag = [] then flatten_target E (sf_type sf) else None) of
             Some ft \<Rightarrow> collectFields E d index 0 (struct_fields E ft) tname mapper ti
           | None \<Rightarrow> addField E sf index tag mapper ti"
    from True "3.prems"(1) obtain t1 where t1: "?m = Ok t1"
      and rest: "collectFields E (Suc d) prefix (i + 1) fs tname mapper t1 = Ok ti'"
      by (auto simp: outcome_iff)
    have "ti_wf E t1"
    proof (cases "if sf_anon sf \<and> tag_get sf tname = [] then flatten_target E (sf_type sf) else None")
      case None
      with t1 "3.prems"(2) show ?thesis by (auto simp: Let_def intro: addField_wf)
    next
      case (Some ft)
      with t1 have "collectFields E d (prefix @ [i]) 0 (struct_fields E ft) tname mapper ti = Ok t1"
        by (simp add: Let_def)
      then show ?thesis
        using "3.IH"(2) [OF _ refl refl Some] True "3.prems"(2) by blast
    qed
    with "3.IH"(3) [OF _ t1 rest] True show ?thesis by simp
  qed
qed simp_all

section \<open>Index paths are valid\<close>

definition strip1 :: "gtype \<Rightarrow> gtype" where
  "strip1 t = (if kind t = KPtr then elem_type t else t)"

fun path_ok :: "'e genv_scheme \<Rightarrow> gtype \<Rightarrow> nat list \<Rightarrow> bool" where
  "path_ok E t [] = True"
| "path_ok E t (i # p) =
     (kind (strip1 t) = KStruct \<and> i < length (struct_fields E (strip1 t))
      \<and> path_ok E (sf_type (struct_fields E (strip1 t) ! i)) p)"

fun path_type :: "'e genv_scheme \<Rightarrow> gtype \<Rightarrow> nat list \<Rightarrow> gtype" where
  "path_type E t [] = t"
| "path_type E t (i # p) = path_type E (sf_type (struct_fields E (strip1 t) ! i)) p"

lemma path_ok_append: "path_ok E t (p @ r) \<longleftrightarrow> path_ok E t p \<and> path_ok E (path_type E t p) r"
  by (induction E t p rule: path_ok.induct) auto

lemma path_type_append: "path_type E t (p @ r) = path_type E (path_type E t p) r"
  by (induction E t p rule: path_type.induct) auto

text \<open>\<open>P\<close> holds of the collected fields if it holds of what every visited declaration adds.\<close>

definition field_path_ok :: "'e genv_scheme \<Rightarrow> gtype \<Rightarrow> field_info \<Rightarrow> bool" where
  "field_path_ok E t f =
     (fi_index f \<noteq> [] \<and> path_ok E t (fi_index f) \<and> path_type E t (fi_index f) = fi_typ f)"

lemma ti_fields_append_field [simp]: "ti_fields (append_field E f b ti) = ti_fields ti @ [f]"
  by (simp add: append_field_def Let_def)

lemma flatten_target_strip1:
  "flatten_target E ft = Some t \<Longrightarrow> strip1 ft = t \<and> kind t = KStruct"
  by (auto simp: flatten_target_def flattens_def strip1_def split: if_splits)

lemma collectFields_paths:
  "collectFields E d prefix i fs tname mapper ti = Ok ti' \<Longrightarrow>
   path_ok E t0 prefix \<Longrightarrow> strip1 (path_type E t0 prefix) = t \<Longrightarrow> kind t = KStruct \<Longrightarrow>
   fs = drop i (struct_fields E t) \<Longrightarrow> list_all (field_path_ok E t0) (ti_fields ti) \<Longrightarrow>
   list_all (field_path_ok E t0) (ti_fields ti')"
proof (induction E d prefix i fs tname mapper ti arbitrary: ti' t rule: collectFields.induct)
  case (3 E d prefix i sf fs tname mapper ti)
  have i: "i < length (struct_fields E t)" and sf: "struct_fields E t ! i = sf"
    and fs: "fs = drop (Suc i) (struct_fields E t)"
    using "3.prems"(5) by (metis Cons_nth_drop_Suc drop_eq_Nil linorder_not_le list.distinct(1) list.inject)+
  show ?case
  proof (cases "sf_exported sf")
    case False
    with "3.IH"(1) [of ti' t] "3.prems" fs show ?thesis by simp
  next
    case True
    let ?tag = "tag_get sf tname"
    let ?tgt = "if sf_anon sf \<and> ?tag = [] then flatten_target E (sf_type sf) else None"
    let ?m = "let index = prefix @ [i]; tag = ?tag in
           case (if sf_anon sf \<and> tag = [] then flatten_target E (sf_type sf) else None) of
             Some ft \<Rightarrow> collectFields E d index 0 (struct_fields E ft) tname mapper ti
           | None \<Rightarrow> addField E sf index tag mapper ti"
    from True "3.prems"(1) obtain t1 where t1: "?m = Ok t1"
      and rest: "collectFields E (Suc d) prefix (i + 1) fs tname mapper t1 = Ok ti'"
      by (auto simp: outcome_iff)
    have pok: "path_ok E t0 (prefix @ [i])"
      using "3.prems"(2,3,4) i by (simp add: path_ok_append)
    have ptyp: "path_type E t0 (prefix @ [i]) = sf_type sf"
      using "3.prems"(3) sf by (simp add: path_type_append)
    have "list_all (field_path_ok E t0) (ti_fields t1)"
    proof (cases ?tgt)
      case None
      with t1 have "addField E sf (prefix @ [i]) ?tag mapper ti = Ok t1" by (simp add: Let_def)
      then show ?thesis
        by (rule addField_cases) (use "3.prems"(6) pok ptyp in \<open>auto simp: field_path_ok_def list_all_iff\<close>)
    next
      case (Some ft)
      with t1 have c: "collectFields E d (prefix @ [i]) 0 (struct_fields E ft) tname mapper ti = Ok t1"
        by (simp add: Let_def)
      from Some have "strip1 (sf_type sf) = ft \<and> kind ft = KStruct"
        by (auto dest: flatten_target_strip1 split: if_splits)
      with "3.IH"(2) [OF _ refl refl Some c pok] True ptyp "3.prems"(6) show ?thesis by simp
    qed
    with "3.IH"(3) [OF _ t1 rest] True "3.prems"(2-4) fs show ?thesis by simp
  qed
qed simp_all

section \<open>Typed data\<close>

function (sequential) wt :: "'e genv_scheme \<Rightarrow> gtype \<Rightarrow> gdata \<Rightarrow> bool"
  and wt_fields :: "'e genv_scheme \<Rightarrow> gtype list \<Rightarrow> gdata list \<Rightarrow> bool"
  and wt_pairs :: "'e genv_scheme \<Rightarrow> gtype \<Rightarrow> gtype \<Rightarrow> (gdata \<times> gdata) list \<Rightarrow> bool" where
  "wt E t (DBool _) = (kind t = KBool)"
| "wt E t (DInt _) = (kind t = KInt \<or> kind t = KUint)"
| "wt E t (DFloat64 _) = (underlying t = TFloat64)"
| "wt E t (DFloat32 _) = (underlying t = TFloat32)"
| "wt E t (DStr _) = (kind t = KString)"
| "wt E t DNil = (kind t = KPtr \<or> kind t = KSlice \<or> kind t = KMap \<or> kind t = KInterface)"
| "wt E t (DBytes _) = (kind t = KSlice \<and> underlying (elem_type t) = TUint I8)"
| "wt E t (DSlice ds) = (kind t = KSlice \<and> underlying (elem_type t) \<noteq> TUint I8
     \<and> wt_fields E (replicate (length ds) (elem_type t)) ds)"
| "wt E t (DPtr d) = (kind t = KPtr \<and> wt E (elem_type t) d)"
| "wt E t (DMap kvs) = (kind t = KMap \<and> wt_pairs E (key_type t) (elem_type t) kvs)"
| "wt E t (DStruct ds) = (kind t = KStruct \<and> underlying t \<noteq> TTime
     \<and> wt_fields E (map sf_type (struct_fields E t)) ds)"
| "wt E t (DTime _) = (underlying t = TTime)"
| "wt E t (DIface t' d) = (kind t = KInterface \<and> kind t' \<noteq> KInterface \<and> wt E t' d)"
| "wt E t (DOther _ _) = (kind t = KOther)"
| "wt_fields E [] [] = True"
| "wt_fields E (t # ts) (d # ds) = (wt E t d \<and> wt_fields E ts ds)"
| "wt_fields E _ _ = False"
| "wt_pairs E kt et [] = True"
| "wt_pairs E kt et ((k, v) # kvs) = (wt E kt k \<and> wt E et v \<and> wt_pairs E kt et kvs)"
  by pat_completeness auto
termination
  by (relation "measure (\<lambda>x. case x of
        Inl (E, t, d) \<Rightarrow> size d
      | Inr (Inl (E, ts, ds)) \<Rightarrow> size_list size ds
      | Inr (Inr (E, kt, et, kvs)) \<Rightarrow> size_list (size_prod size size) kvs)") auto

fun wt_rv :: "'e genv_scheme \<Rightarrow> rvalue \<Rightarrow> bool" where
  "wt_rv E Invalid = True"
| "wt_rv E (RV t d) = wt E t d"

lemma wt_fields_length: "wt_fields E ts ds \<Longrightarrow> length ts = length ds"
  by (induction ts ds rule: list_induct2') auto

lemma wt_fields_nth: "wt_fields E ts ds \<Longrightarrow> i < length ds \<Longrightarrow> wt E (ts ! i) (ds ! i)"
proof (induction ts ds arbitrary: i rule: list_induct2')
  case (4 t ts d ds)
  then show ?case by (cases i) auto
qed auto

lemma kind_struct_time: "underlying t = TTime \<Longrightarrow> kind t = KStruct \<and> struct_fields E t = []"
  by (induction t) auto

lemma kind_float: "underlying t = TFloat64 \<or> underlying t = TFloat32 \<Longrightarrow> kind t = KFloat"
  by (induction t) auto

lemma wt_struct:
  "wt E t d \<Longrightarrow> kind t = KStruct \<Longrightarrow> underlying t \<noteq> TTime \<Longrightarrow>
   \<exists>ds. d = DStruct ds \<and> wt_fields E (map sf_type (struct_fields E t)) ds"
  using kind_float [of t] by (cases d) auto

lemma wt_ptr: "wt E t d \<Longrightarrow> kind t = KPtr \<Longrightarrow> d = DNil \<or> (\<exists>d'. d = DPtr d' \<and> wt E (elem_type t) d')"
  using kind_float [of t] kind_struct_time [of t] by (cases d) auto

lemma wt_rv_field:
  assumes "wt E t d" "kind t = KStruct" "i < length (struct_fields E t)"
  shows "\<exists>d'. rv_field E (RV t d) i = Ok (RV (sf_type (struct_fields E t ! i)) d')
    \<and> wt E (sf_type (struct_fields E t ! i)) d'"
proof -
  have "underlying t \<noteq> TTime"
    using assms(3) kind_struct_time [of t E] by auto
  with assms(1,2) obtain ds where ds: "d = DStruct ds"
    "wt_fields E (map sf_type (struct_fields E t)) ds"
    using wt_struct by blast
  with assms(2,3) wt_fields_length [OF ds(2)] wt_fields_nth [OF ds(2), of i] show ?thesis
    by (simp add: rv_field_def)
qed

text \<open>Following a valid path through a typed value never panics: it ends at a typed value or
  meets a nil embedded pointer.\<close>

lemma strip_value:
  assumes "wt E t d" "\<not> (kind t = KPtr \<and> d = DNil)"
  obtains d0 where "wt E (strip1 t) d0"
    "(if kind t = KPtr then (case d of DPtr d' \<Rightarrow> RV (elem_type t) d' | _ \<Rightarrow> Invalid) else RV t d) = RV (strip1 t) d0"
proof (cases "kind t = KPtr")
  case True
  with assms wt_ptr [OF assms(1)] obtain d' where "d = DPtr d'" "wt E (elem_type t) d'" by auto
  with True that [of d'] show thesis by (simp add: strip1_def)
next
  case False
  with assms(1) that [of d] show thesis by (simp add: strip1_def)
qed

lemma fieldByIndex_typed:
  "wt E t d \<Longrightarrow> path_ok E t p \<Longrightarrow>
   fieldByIndex E (RV t d) p = Ok Invalid
   \<or> (\<exists>d'. fieldByIndex E (RV t d) p = Ok (RV (path_type E t p) d') \<and> wt E (path_type E t p) d')"
proof (induction p arbitrary: t d)
  case (Cons i p)
  show ?case
  proof (cases "kind t = KPtr \<and> d = DNil")
    case True
    then show ?thesis by simp
  next
    case False
    obtain d0 where d0: "wt E (strip1 t) d0"
      "(if kind t = KPtr then (case d of DPtr d' \<Rightarrow> RV (elem_type t) d' | _ \<Rightarrow> Invalid) else RV t d) = RV (strip1 t) d0"
      by (rule strip_value [OF Cons.prems(1) False])
    let ?ft = "sf_type (struct_fields E (strip1 t) ! i)"
    from wt_rv_field [OF d0(1)] Cons.prems(2) obtain fd where
      fd: "rv_field E (RV (strip1 t) d0) i = Ok (RV ?ft fd)" "wt E ?ft fd" by auto
    consider (last) "p = []" | (nil) "p \<noteq> []" "kind ?ft = KPtr" "fd = DNil"
      | (ptr) d' where "p \<noteq> []" "kind ?ft = KPtr" "fd = DPtr d'" "wt E (elem_type ?ft) d'"
      | (plain) "p \<noteq> []" "kind ?ft \<noteq> KPtr"
      using wt_ptr [OF fd(2)] by blast
    then show ?thesis
    proof cases
      case ptr
      obtain j p' where "p = j # p'" using ptr(1) by (cases p) auto
      with Cons.prems(2) ptr(2) have "path_ok E (elem_type ?ft) p \<and> path_type E (elem_type ?ft) p = path_type E ?ft p"
        by (auto simp: strip1_def split: if_splits)
      with Cons.IH [OF ptr(4)] ptr(1-3) False d0(2) fd show ?thesis by simp
    next
      case plain
      then have "fieldByIndex E (RV t d) (i # p) = fieldByIndex E (RV ?ft fd) p"
        using False d0(2) fd by (cases p; cases fd) auto
      with Cons.IH [OF fd(2)] Cons.prems(2) show ?thesis by simp
    qed (use False d0(2) fd in auto)
  qed
qed auto

section \<open>Termination of the flattening\<close>

text \<open>Which struct types a struct type embeds; \<open>rank\<close> decreases along embedding exactly when
  no type embeds itself, directly or through others.\<close>

definition embeds :: "'e genv_scheme \<Rightarrow> gtype \<Rightarrow> gtype \<Rightarrow> bool" where
  "embeds E t ft =
     (\<exists>sf \<in> set (struct_fields E t). sf_exported sf \<and> sf_anon sf \<and> flatten_target E (sf_type sf) = Some ft)"

definition ranked :: "'e genv_scheme \<Rightarrow> (gtype \<Rightarrow> nat) \<Rightarrow> bool" where
  "ranked E rank = (\<forall>t ft. embeds E t ft \<longrightarrow> rank ft < rank t)"

lemma ranked_less: "ranked E rank \<Longrightarrow> embeds E t ft \<Longrightarrow> rank t < Suc d \<Longrightarrow> rank ft < d"
  unfolding ranked_def by (meson less_Suc_eq_le less_le_trans)

lemma parseTag_no_panic: "parseTag tag \<noteq> Panic m" "parseTag tag = Err e \<Longrightarrow> e = ErrTagInvalid"
  by (auto simp: parseTag_def Let_def split: if_splits)

lemma addField_no_panic: "addField E sf index tag mapper ti \<noteq> Panic m"
  by (auto simp: addField_def outcome_iff parseTag_no_panic split: if_splits)

lemma addField_Err: "addField E sf index tag mapper ti = Err e \<Longrightarrow> e = ErrTagInvalid"
  by (auto simp: addField_def outcome_iff parseTag_no_panic split: if_splits)

lemma collectFields_Err:
  "collectFields E d prefix i fs tname mapper ti = Err e \<Longrightarrow> e = ErrTagInvalid"
proof (induction E d prefix i fs tname mapper ti rule: collectFields.induct)
  case (3 E d prefix i sf fs tname mapper ti)
  then show ?case
    by (auto simp: outcome_iff Let_def split: if_splits option.splits dest: addField_Err)
qed simp_all

lemma collectFields_no_panic:
  "ranked E rank \<Longrightarrow> rank t < d \<Longrightarrow> set fs \<subseteq> set (struct_fields E t) \<Longrightarrow>
   collectFields E d prefix i fs tname mapper ti \<noteq> Panic m"
proof (induction E d prefix i fs tname mapper ti arbitrary: t rule: collectFields.induct)
  case (3 E d prefix i sf fs tname mapper ti)
  have fs: "set fs \<subseteq> set (struct_fields E t)" using "3.prems"(3) by simp
  show ?case
  proof (cases "sf_exported sf")
    case False
    with "3.IH"(1) [OF _ "3.prems"(1,2) fs] show ?thesis by simp
  next
    case True
    let ?tag = "tag_get sf tname"
    let ?tgt = "if sf_anon sf \<and> ?tag = [] then flatten_target E (sf_type sf) else None"
    have "(case ?tgt of Some ft \<Rightarrow> collectFields E d (prefix @ [i]) 0 (struct_fields E ft) tname mapper ti
           | None \<Rightarrow> addField E sf (prefix @ [i]) ?tag mapper ti) \<noteq> Panic m"
    proof (cases ?tgt)
      case None
      then show ?thesis by (simp add: addField_no_panic)
    next
      case (Some ft)
      then have "sf_anon sf \<and> flatten_target E (sf_type sf) = Some ft" by (simp split: if_splits)
      with True "3.prems"(3) have "embeds E t ft" by (auto simp: embeds_def)
      with "3.prems"(1,2) have "rank ft < d" by (blast intro: ranked_less)
      with "3.IH"(2) [OF _ refl refl Some "3.prems"(1)] True Some show ?thesis by simp
    qed
    with "3.IH"(3) [OF _ _ "3.prems"(1,2) fs] True show ?thesis
      by (auto simp: outcome_iff Let_def)
  qed
qed simp_all

lemma collectFields_depth:
  "ranked E rank \<Longrightarrow> rank t < d \<Longrightarrow> rank t < d' \<Longrightarrow> set fs \<subseteq> set (struct_fields E t) \<Longrightarrow>
   collectFields E d' prefix i fs tname mapper ti = collectFields E d prefix i fs tname mapper ti"
proof (induction E d prefix i fs tname mapper ti arbitrary: t d' rule: collectFields.induct)
  case (2 E d prefix i tname mapper ti)
  then show ?case by (cases d') simp_all
next
  case (3 E d prefix i sf fs tname mapper ti)
  obtain e' where d': "d' = Suc e'" using "3.prems"(3) by (cases d') auto
  have fs: "set fs \<subseteq> set (struct_fields E t)" using "3.prems"(4) by simp
  show ?case
  proof (cases "sf_exported sf")
    case False
    with "3.IH"(1) [OF _ "3.prems"(1,2,3) fs] d' show ?thesis by simp
  next
    case True
    let ?tag = "tag_get sf tname"
    let ?tgt = "if sf_anon sf \<and> ?tag = [] then flatten_target E (sf_type sf) else None"
    have eq: "(case ?tgt of Some ft \<Rightarrow> collectFields E e' (prefix @ [i]) 0 (struct_fields E ft) tname mapper ti
           | None \<Rightarrow> addField E sf (prefix @ [i]) ?tag mapper ti)
      = (case ?tgt of Some ft \<Rightarrow> collectFields E d (prefix @ [i]) 0 (struct_fields E ft) tname mapper ti
           | None \<Rightarrow> addField E sf (prefix @ [i]) ?tag mapper ti)"
    proof (cases ?tgt)
      case (Some ft)
      then have "sf_anon sf \<and> flatten_target E (sf_type sf) = Some ft" by (simp split: if_splits)
      with True "3.prems"(4) have "embeds E t ft" by (auto simp: embeds_def)
      moreover have "rank t < Suc e'" using "3.prems"(3) d' by simp
      ultimately have "rank ft < d" "rank ft < e'"
        using ranked_less [OF "3.prems"(1)] "3.prems"(2) by blast+
      with "3.IH"(2) [OF _ refl refl Some "3.prems"(1) _ _ order_refl] True
      have "collectFields E e' (prefix @ [i]) 0 (struct_fields E ft) tname mapper ti
        = collectFields E d (prefix @ [i]) 0 (struct_fields E ft) tname mapper ti"
        by blast
      with Some show ?thesis by simp
    qed simp
    have rest: "collectFields E d' prefix (i + 1) fs tname mapper t1
        = collectFields E (Suc d) prefix (i + 1) fs tname mapper t1"
      if "(case ?tgt of Some ft \<Rightarrow> collectFields E d (prefix @ [i]) 0 (struct_fields E ft) tname mapper ti
           | None \<Rightarrow> addField E sf (prefix @ [i]) ?tag mapper ti) = Ok t1" for t1
      by (rule "3.IH"(3) [OF _ _ "3.prems"(1,2,3) fs]) (use True that in \<open>simp_all add: Let_def\<close>)
    show ?thesis
      unfolding d' collectFields.simps Let_def eq using True rest [unfolded d']
      by (simp only: not_True_eq_False if_False) (rule and_then_cong, rule refl, simp)
  qed
qed simp_all

lemma resolveFieldOffset_total:
  "path_ok E t p \<Longrightarrow> kind t \<noteq> KPtr \<Longrightarrow> \<exists>r. resolveFieldOffset E t p off = Ok r"
  by (induction E t p off rule: resolveFieldOffset.induct) (auto simp: strip1_def Let_def)

definition same_field :: "field_info \<Rightarrow> field_info \<Rightarrow> bool" where
  "same_field f g =
     (fi_index g = fi_index f \<and> fi_name g = fi_name f \<and> fi_fieldName g = fi_fieldName f
      \<and> fi_typ g = fi_typ f \<and> fi_json g = fi_json f \<and> fi_omitEmpty g = fi_omitEmpty f
      \<and> fi_fast g = fi_fast f)"

lemma set_offset_Ok:
  "field_path_ok E t f \<Longrightarrow> kind t \<noteq> KPtr \<Longrightarrow> \<exists>g. set_offset E t f = Ok g \<and> same_field f g"
  using resolveFieldOffset_total [of E t "fi_index f" 0]
  by (auto simp: set_offset_def field_path_ok_def same_field_def split: option.splits)

lemma set_offsets_Ok:
  "list_all (field_path_ok E t) fs \<Longrightarrow> kind t \<noteq> KPtr \<Longrightarrow>
   \<exists>gs. map_outcome (set_offset E t) fs = Ok gs \<and> list_all2 same_field fs gs"
proof (induction fs)
  case (Cons f fs)
  then obtain gs where "map_outcome (set_offset E t) fs = Ok gs" "list_all2 same_field fs gs"
    by auto
  with set_offset_Ok [of E t f] Cons.prems show ?case by auto
qed simp

lemma ti_wf_same_fields:
  assumes "ti_wf E ti" "list_all2 same_field (ti_fields ti) gs"
  shows "ti_wf E (ti\<lparr>ti_fields := gs\<rparr>)"
proof -
  have len: "length gs = length (ti_fields ti)" using assms(2) by (simp add: list_all2_lengthD)
  have nth: "fi_name (gs ! i) = fi_name (ti_fields ti ! i)"
    "fi_fieldName (gs ! i) = fi_fieldName (ti_fields ti ! i)" if "i < length (ti_fields ti)" for i
    using assms(2) that by (auto simp: list_all2_conv_all_nth same_field_def)
  have "\<forall>f \<in> set gs. (byColumn ti (fi_name f) \<noteq> None \<or> byMapped ti (fi_name f) \<noteq> None)
      \<and> byFieldName ti (fi_fieldName f) \<noteq> None
      \<and> byName ti (to_lower (ge_unicode E) (fi_fieldName f)) \<noteq> None"
  proof
    fix g assume "g \<in> set gs"
    then obtain i where i: "i < length (ti_fields ti)" "g = gs ! i" by (metis in_set_conv_nth len)
    then have "ti_fields ti ! i \<in> set (ti_fields ti)" by simp
    with assms(1) i nth [OF i(1)] show "(byColumn ti (fi_name g) \<noteq> None \<or> byMapped ti (fi_name g) \<noteq> None)
      \<and> byFieldName ti (fi_fieldName g) \<noteq> None
      \<and> byName ti (to_lower (ge_unicode E) (fi_fieldName g)) \<noteq> None"
      unfolding ti_wf_def by simp
  qed
  with assms(1) nth len show ?thesis unfolding ti_wf_def by simp
qed

lemma field_path_same: "same_field f g \<Longrightarrow> field_path_ok E t f \<Longrightarrow> field_path_ok E t g"
  by (simp add: same_field_def field_path_ok_def)

text \<open>\<open>buildTypeInfo\<close> on a struct type of bounded embedding depth: it never panics, fails only
  on a bad tag, and otherwise returns well-formed metadata whose paths are valid.\<close>

lemma buildTypeInfo_result:
  assumes "ranked E rank" "rank t < ge_depth E" "kind t = KStruct"
  shows "buildTypeInfo E t tname mapper = Err ErrTagInvalid
    \<or> (\<exists>ti. buildTypeInfo E t tname mapper = Ok ti \<and> ti_wf E ti \<and> list_all (field_path_ok E t) (ti_fields ti))"
proof (cases "collectFields E (ge_depth E) [] 0 (struct_fields E t) tname mapper empty_ti")
  case (Ok ti)
  have wf: "ti_wf E ti" using collectFields_wf [OF Ok] ti_wf_empty by blast
  have "list_all (field_path_ok E t) (ti_fields ti)"
    using collectFields_paths [OF Ok, of t t] assms(3) by (simp add: strip1_def empty_ti_def)
  with set_offsets_Ok assms(3) obtain gs where
    gs: "map_outcome (set_offset E t) (ti_fields ti) = Ok gs" "list_all2 same_field (ti_fields ti) gs"
    by (metis gkind.distinct)
  have "list_all (field_path_ok E t) gs"
    using \<open>list_all (field_path_ok E t) (ti_fields ti)\<close> gs(2)
    unfolding list_all_length list_all2_conv_all_nth using field_path_same by metis
  with Ok gs ti_wf_same_fields [OF wf gs(2)] show ?thesis
    by (simp add: buildTypeInfo_def)
next
  case (Err e)
  with collectFields_Err show ?thesis by (auto simp: buildTypeInfo_def)
next
  case (Panic m)
  with collectFields_no_panic [OF assms(1,2) order_refl] show ?thesis by blast
qed

lemma set_offset_same: "set_offset E t f = Ok g \<Longrightarrow> same_field f g"
  by (auto simp: set_offset_def outcome_iff same_field_def split: option.splits)

lemma map_set_offset_same:
  "map_outcome (set_offset E t) fs = Ok gs \<Longrightarrow> list_all2 same_field fs gs"
  by (induction fs arbitrary: gs) (auto simp: outcome_iff set_offset_same)

lemma buildTypeInfo_wf: "buildTypeInfo E t tname mapper = Ok ti \<Longrightarrow> ti_wf E ti"
  by (auto simp: buildTypeInfo_def outcome_iff
      intro: ti_wf_same_fields collectFields_wf ti_wf_empty map_set_offset_same)

section \<open>The cache is transparent when code pointers identify mappers\<close>

text \<open>\<open>fn_of\<close> says which function a code pointer stands for. The cache is sound for \<open>fn_of\<close>
  when every entry is what \<open>buildTypeInfo\<close> gives for its key.\<close>

definition cache_sound :: "'e genv_scheme \<Rightarrow> (nat \<Rightarrow> string \<Rightarrow> string) \<Rightarrow> type_cache \<Rightarrow> bool" where
  "cache_sound E fn_of tc =
     (\<forall>k ti. tc k = Some ti \<longrightarrow> buildTypeInfo E (mk_typ k) (mk_tagName k) (fn_of (mk_mapper k)) = Ok ti)"

definition build_for :: "'e genv_scheme \<Rightarrow> gtype \<Rightarrow> 'p config option \<Rightarrow> type_info outcome" where
  "build_for E t cfg = buildTypeInfo E t (cfg_tagName cfg) (nm_fn (cfg_mapper E cfg))"

lemma getTypeInfo_sound:
  assumes "cache_sound E fn_of tc" "fn_of (nm_code (cfg_mapper E cfg)) = nm_fn (cfg_mapper E cfg)"
  shows "fst (getTypeInfo E tc t cfg) = build_for E t cfg"
    and "cache_sound E fn_of (snd (getTypeInfo E tc t cfg))"
proof -
  let ?k = "\<lparr>mk_typ = t, mk_tagName = cfg_tagName cfg, mk_mapper = nm_code (cfg_mapper E cfg)\<rparr>"
  have hit: "build_for E t cfg = Ok ti" if "tc ?k = Some ti" for ti
    using assms(1) [unfolded cache_sound_def, rule_format, OF that] assms(2)
    by (simp add: build_for_def)
  show "fst (getTypeInfo E tc t cfg) = build_for E t cfg"
    using hit
    by (auto simp: getTypeInfo_def Let_def build_for_def split: option.splits outcome.splits)
  have "cache_sound E fn_of (tc(?k \<mapsto> ti))" if "build_for E t cfg = Ok ti" for ti
    using assms that by (auto simp: cache_sound_def build_for_def)
  then show "cache_sound E fn_of (snd (getTypeInfo E tc t cfg))"
    using assms(1)
    by (auto simp: getTypeInfo_def Let_def build_for_def split: option.splits outcome.splits)
qed

section \<open>Demonstration types\<close>

text \<open>Types for the witnesses: a user with a tagged id, an untagged name and an embedded pointer
  to a base struct; and a node that embeds a pointer to itself.\<close>

definition demo_tables :: unicode_tables where
  "demo_tables = \<lparr>u_upper = (\<lambda>_. False), u_lower = (\<lambda>_. False), u_digit = (\<lambda>_. False), u_to_lower = (\<lambda>r. r)\<rparr>"

definition demo_field :: "string \<Rightarrow> bool \<Rightarrow> gtype \<Rightarrow> string \<Rightarrow> sfield" where
  "demo_field name anon t tag =
     \<lparr>sf_name = name, sf_exported = True, sf_anon = anon, sf_type = t,
      sf_tags = (if tag = [] then [] else [(''db'', tag)]), sf_offset = 0\<rparr>"

definition demo_fields :: "string \<Rightarrow> sfield list" where
  "demo_fields n =
     (if n = ''User'' then
        [demo_field ''ID'' False (TInt I64) ''id'', demo_field ''Name'' False TString [],
         demo_field ''Base'' True (TPtr (TStruct ''Base'')) []]
      else if n = ''Base'' then [demo_field ''Tags'' False (TSlice TString) ''tags,json,omitempty'']
      else if n = ''Node'' then [demo_field ''Node'' True (TPtr (TStruct ''Node'')) []]
      else [])"

definition demo_env :: genv where
  "demo_env =
     \<lparr>ge_fields = demo_fields, ge_depth = 5, ge_valuer = (\<lambda>_. False), ge_scanner = (\<lambda>_. False),
      ge_unicode = demo_tables, ge_json_marshal = (\<lambda>_. Ok ''{}'')\<rparr>"

section \<open>Properties\<close>

text \<open>C25: when no struct type embeds itself and the stack holds the embedding depth of \<open>t\<close>,
  building the metadata of \<open>t\<close> does not panic, can only fail with \<open>ErrTagInvalid\<close>, and gives
  fields whose index paths are valid and lead to the recorded types; and the result does not
  depend on how much deeper the stack is.\<close>

theorem buildTypeInfo_correct:
  assumes "ranked E rank" "rank t < ge_depth E" "kind t = KStruct"
  shows "(buildTypeInfo E t tname mapper = Err ErrTagInvalid
      \<or> (\<exists>ti. buildTypeInfo E t tname mapper = Ok ti \<and> ti_wf E ti
            \<and> list_all (field_path_ok E t) (ti_fields ti)))
    \<and> collectFields E (ge_depth E + n) [] 0 (struct_fields E t) tname mapper empty_ti
      = collectFields E (ge_depth E) [] 0 (struct_fields E t) tname mapper empty_ti"
  using buildTypeInfo_result [OF assms] collectFields_depth [OF assms(1,2) _ order_refl] assms(2)
  by (meson trans_less_add1)

lemma demo_ranked:
  "ranked (demo_env\<lparr>ge_fields := demo_fields(''Node'' := [])\<rparr>)
     (\<lambda>t. if underlying t = TStruct ''User'' then 1 else 0)"
proof -
  let ?E = "demo_env\<lparr>ge_fields := demo_fields(''Node'' := [])\<rparr>"
  have "underlying t = TStruct ''User'' \<and> ft = TStruct ''Base''" if "embeds ?E t ft" for t ft
    using that
    by (induction t)
      (auto simp: embeds_def demo_env_def demo_fields_def demo_field_def flatten_target_def flattens_def
        split: if_splits)
  then have "underlying t = TStruct ''User'' \<and> underlying ft \<noteq> TStruct ''User''" if "embeds ?E t ft" for t ft
    using that by fastforce
  then show ?thesis by (auto simp: ranked_def)
qed


theorem buildTypeInfo_correct_witness:
  "\<exists>ti. buildTypeInfo (demo_env\<lparr>ge_fields := demo_fields(''Node'' := [])\<rparr>) (TStruct ''User'') ''db''
      (snakeCase demo_tables) = Ok ti
    \<and> ti_wf (demo_env\<lparr>ge_fields := demo_fields(''Node'' := [])\<rparr>) ti
    \<and> list_all (field_path_ok (demo_env\<lparr>ge_fields := demo_fields(''Node'' := [])\<rparr>) (TStruct ''User'')) (ti_fields ti)"
proof -
  let ?E = "demo_env\<lparr>ge_fields := demo_fields(''Node'' := [])\<rparr>"
  have ok: "is_ok (buildTypeInfo ?E (TStruct ''User'') ''db'' (snakeCase demo_tables))"
    by code_simp
  have "1 < ge_depth ?E" by (simp add: demo_env_def)
  then show ?thesis
    using buildTypeInfo_correct [OF demo_ranked, of "TStruct ''User''" "''db''" "snakeCase demo_tables" 0] ok
    by (auto simp del: is_ok.simps split: if_splits) simp
qed

text \<open>C26: lookup by placeholder name and by column. In both directions a hit is the index of an
  existing field with that column name or that Go name (case-insensitively when scanning), and
  a miss means that no field has it.\<close>

theorem lookup_correct:
  assumes "buildTypeInfo E t tname mapper = Ok ti"
  shows "(case lookupBind ti name of
        Some i \<Rightarrow> i < length (ti_fields ti)
          \<and> (fi_name (ti_fields ti ! i) = name \<or> fi_fieldName (ti_fields ti ! i) = name)
      | None \<Rightarrow> list_all (\<lambda>f. fi_name f \<noteq> name \<and> fi_fieldName f \<noteq> name) (ti_fields ti))
    \<and> (case lookupScan E ti name of
        Some i \<Rightarrow> i < length (ti_fields ti)
          \<and> (fi_name (ti_fields ti ! i) = name
             \<or> to_lower (ge_unicode E) (fi_fieldName (ti_fields ti ! i)) = to_lower (ge_unicode E) name)
      | None \<Rightarrow> list_all (\<lambda>f. fi_name f \<noteq> name
             \<and> to_lower (ge_unicode E) (fi_fieldName f) \<noteq> to_lower (ge_unicode E) name) (ti_fields ti))"
  using buildTypeInfo_wf [OF assms]
  by (auto simp: lookupBind_def lookupScan_def ti_wf_def list_all_iff split: option.splits)

theorem lookup_correct_witness:
  "\<exists>ti. buildTypeInfo demo_env (TStruct ''Base'') ''db'' (snakeCase demo_tables) = Ok ti
    \<and> (case lookupBind ti ''tags'' of
         Some i \<Rightarrow> i < length (ti_fields ti)
           \<and> (fi_name (ti_fields ti ! i) = ''tags'' \<or> fi_fieldName (ti_fields ti ! i) = ''tags'')
       | None \<Rightarrow> list_all (\<lambda>f. fi_name f \<noteq> ''tags'' \<and> fi_fieldName f \<noteq> ''tags'') (ti_fields ti))"
proof -
  have "is_ok (buildTypeInfo demo_env (TStruct ''Base'') ''db'' (snakeCase demo_tables))"
    by code_simp
  then obtain ti where "buildTypeInfo demo_env (TStruct ''Base'') ''db'' (snakeCase demo_tables) = Ok ti"
    by (cases "buildTypeInfo demo_env (TStruct ''Base'') ''db'' (snakeCase demo_tables)") auto
  with lookup_correct [OF this, of "''tags''"] show ?thesis by blast
qed

lemma collectFields_self:
  "struct_fields E t = sf # rest \<Longrightarrow> sf_exported sf \<Longrightarrow> sf_anon sf \<Longrightarrow> tag_get sf tname = [] \<Longrightarrow>
   flatten_target E (sf_type sf) = Some t \<Longrightarrow>
   collectFields E d prefix 0 (struct_fields E t) tname mapper ti = Panic ''stack overflow''"
  by (induction d arbitrary: prefix ti) (simp_all add: Let_def)

text \<open>C40: a struct type whose first field is an embedded pointer to itself (legal Go) makes the
  flattening recurse until the stack is exhausted, however large the stack is.\<close>

theorem buildTypeInfo_self_embedding:
  assumes "ge_fields E n = sf # rest" "sf_exported sf" "sf_anon sf" "tag_get sf tname = []"
    "sf_type sf = TPtr (TStruct n)" "\<not> ge_scanner E (TPtr (TStruct n))" "\<not> ge_valuer E (TPtr (TStruct n))"
  shows "buildTypeInfo (E\<lparr>ge_depth := d\<rparr>) (TStruct n) tname mapper = Panic ''stack overflow''"
proof -
  let ?E = "E\<lparr>ge_depth := d\<rparr>"
  have "collectFields ?E d [] 0 (struct_fields ?E (TStruct n)) tname mapper empty_ti = Panic ''stack overflow''"
    by (rule collectFields_self [of _ _ sf rest])
      (use assms in \<open>simp_all add: flatten_target_def flattens_def\<close>)
  then show ?thesis by (simp add: buildTypeInfo_def)
qed

theorem buildTypeInfo_self_embedding_witness:
  "buildTypeInfo (demo_env\<lparr>ge_depth := 1000\<rparr>) (TStruct ''Node'') ''db'' (snakeCase demo_tables)
     = Panic ''stack overflow''"
  by (rule buildTypeInfo_self_embedding [where sf = "demo_field ''Node'' True (TPtr (TStruct ''Node'')) []" and rest = "[]"])
    (simp_all add: demo_env_def demo_fields_def demo_field_def tag_get_def)

text \<open>C36: when a code pointer identifies the mapper (no two closures of one literal are used as
  mappers), the type cache is transparent: a lookup returns what building afresh returns, and
  the cache stays sound.\<close>

theorem getTypeInfo_transparent:
  assumes "cache_sound E fn_of tc" "fn_of (nm_code (cfg_mapper E cfg)) = nm_fn (cfg_mapper E cfg)"
  shows "fst (getTypeInfo E tc t cfg) = build_for E t cfg
    \<and> cache_sound E fn_of (snd (getTypeInfo E tc t cfg))"
  using getTypeInfo_sound [OF assms] by blast

theorem getTypeInfo_transparent_witness:
  "fst (getTypeInfo demo_env (\<lambda>_. None) (TStruct ''Base'') (None :: unit config option))
     = build_for demo_env (TStruct ''Base'') (None :: unit config option)"
proof -
  have "cache_sound demo_env (\<lambda>_. snakeCase demo_tables) (\<lambda>_. None)"
    by (simp add: cache_sound_def)
  moreover have "snakeCase demo_tables = nm_fn (cfg_mapper demo_env (None :: unit config option))"
    by (simp add: cfg_mapper_def snake_mapper_def demo_env_def)
  ultimately show ?thesis
    by (rule conjunct1 [OF getTypeInfo_transparent])
qed

definition prefix_mapper :: "string \<Rightarrow> name_mapper" where
  "prefix_mapper p = \<lparr>nm_code = 1, nm_fn = (\<lambda>s. p @ s)\<rparr>"

definition mapper_cfg :: "string \<Rightarrow> unit config" where
  "mapper_cfg p = (defaultConfig demo_tables)\<lparr>nameMapper := Some (prefix_mapper p)\<rparr>"

lemma mapper_cfg_simps:
  "cfg_tagName (Some (mapper_cfg p)) = ''db''" "cfg_mapper E (Some (mapper_cfg p)) = prefix_mapper p"
  "nm_code (prefix_mapper p) = 1"
  by (simp_all add: cfg_tagName_def cfg_mapper_def mapper_cfg_def prefix_mapper_def defaultConfig_def)

text \<open>two mappers that are closures of one function literal share their code pointer, so the
  second one gets the metadata built with the first.\<close>

lemma getTypeInfo_shares_closures:
  "fst (getTypeInfo E (snd (getTypeInfo E (\<lambda>_. None) t (Some (mapper_cfg p)))) t (Some (mapper_cfg r)))
    = (case build_for E t (Some (mapper_cfg p)) of
         Ok ti \<Rightarrow> Ok ti
       | _ \<Rightarrow> build_for E t (Some (mapper_cfg r)))"
proof (cases "build_for E t (Some (mapper_cfg p))")
  case (Ok ti)
  then show ?thesis by (simp add: getTypeInfo_def build_for_def Let_def mapper_cfg_simps)
next
  case (Err e)
  then show ?thesis
    by (cases "build_for E t (Some (mapper_cfg r))")
      (simp_all add: getTypeInfo_def build_for_def Let_def mapper_cfg_simps)
next
  case (Panic m)
  then show ?thesis
    by (cases "build_for E t (Some (mapper_cfg r))")
      (simp_all add: getTypeInfo_def build_for_def Let_def mapper_cfg_simps)
qed

end
