(* ===== verification/Bind.thy ===== *)
theory Bind
  imports Meta
begin

text \<open>
  The argument side of \<^verbatim>\<open>bind.go\<close>: dereferencing, normalisation of values, the lookup of a
  named value in a struct or map, slice expansion, \<open>bindNamed\<close>, \<open>bindNamedMany\<close> and the
  dispatch \<open>bindForExec\<close>. The type cache is passed through explicitly.
\<close>

section \<open>Scalars, pointers and slices\<close>

text \<open>\<open>derefValue\<close>: a nil argument or a nil pointer is an error.\<close>

definition derefValue :: "rvalue \<Rightarrow> rvalue outcome" where
  "derefValue rv =
     (case rv of
        Invalid \<Rightarrow> Err (Wrap ''bind: invalid nil argument'' ErrUnsupportedType)
      | RV t d \<Rightarrow>
          (case deref t d of
             None \<Rightarrow> Err (Wrap ''bind: nil pointer argument'' ErrUnsupportedType)
           | Some (t', d') \<Rightarrow> Ok (RV t' d')))"

definition is_valuer :: "'e genv_scheme \<Rightarrow> rvalue \<Rightarrow> bool" where
  "is_valuer E v = (case v of Invalid \<Rightarrow> False | RV t _ \<Rightarrow> ge_valuer E t)"

definition isScalarValue :: "'e genv_scheme \<Rightarrow> rvalue \<Rightarrow> bool" where
  "isScalarValue E rv =
     (case rv of
        Invalid \<Rightarrow> False
      | RV t d \<Rightarrow>
          (if t = TTime \<or> t = TBytes then True
           else if is_valuer E (as_any rv) then True
           else basic_kind (kind t)))"

definition isDirectExpandSlice :: "rvalue \<Rightarrow> bool" where
  "isDirectExpandSlice rv =
     (case rv of
        Invalid \<Rightarrow> False
      | RV t d \<Rightarrow>
          (if kind t \<noteq> KSlice \<or> t = TBytes then False
           else kind (elem_type t) \<noteq> KStruct \<and> kind (elem_type t) \<noteq> KMap))"

definition isExpandableSlice :: "'e genv_scheme \<Rightarrow> rvalue \<Rightarrow> bool" where
  "isExpandableSlice E v =
     (case v of
        Invalid \<Rightarrow> False
      | RV t d \<Rightarrow>
          (if ge_valuer E t then False
           else (case deref t d of
                   None \<Rightarrow> False
                 | Some (t', _) \<Rightarrow> kind t' = KSlice \<and> t' \<noteq> TBytes)))"

section \<open>Times inside JSON values\<close>

text \<open>
  \<open>convertTimes\<close> copies the value with every \<open>time.Time\<close> moved to the location. The copy of a
  struct starts from its zero value and only settable (exported) fields are filled in.
\<close>

function (sequential) convertTimes :: "'e genv_scheme \<Rightarrow> location \<Rightarrow> gtype \<Rightarrow> gdata \<Rightarrow> gdata"
  and convertTimes_fields :: "'e genv_scheme \<Rightarrow> location \<Rightarrow> sfield list \<Rightarrow> gdata list \<Rightarrow> gdata list"
  and convertTimes_elems :: "'e genv_scheme \<Rightarrow> location \<Rightarrow> gtype \<Rightarrow> gdata list \<Rightarrow> gdata list"
  and convertTimes_pairs :: "'e genv_scheme \<Rightarrow> location \<Rightarrow> gtype \<Rightarrow> (gdata \<times> gdata) list \<Rightarrow> (gdata \<times> gdata) list"
  where
  "convertTimes E loc t (DPtr d) = DPtr (convertTimes E loc (elem_type t) d)"
| "convertTimes E loc t (DIface t' d) = DIface t' (convertTimes E loc t' d)"
| "convertTimes E loc t (DTime g) =
     (if t = TTime then DTime (time_in g loc) else DTime zero_time)"
| "convertTimes E loc t (DStruct ds) = DStruct (convertTimes_fields E loc (struct_fields E t) ds)"
| "convertTimes E loc t (DSlice ds) = DSlice (convertTimes_elems E loc (elem_type t) ds)"
| "convertTimes E loc t (DMap kvs) = DMap (convertTimes_pairs E loc (elem_type t) kvs)"
| "convertTimes E loc t d = d"
| "convertTimes_fields E loc (sf # sfs) (d # ds) =
     (if sf_exported sf then convertTimes E loc (sf_type sf) d else zero_of d)
       # convertTimes_fields E loc sfs ds"
| "convertTimes_fields E loc _ ds = ds"
| "convertTimes_elems E loc t [] = []"
| "convertTimes_elems E loc t (d # ds) = convertTimes E loc t d # convertTimes_elems E loc t ds"
| "convertTimes_pairs E loc t [] = []"
| "convertTimes_pairs E loc t ((k, v) # kvs) = (k, convertTimes E loc t v) # convertTimes_pairs E loc t kvs"
  by pat_completeness auto
termination
  by (relation "measure (\<lambda>x. case x of
        Inl (Inl (E, l, t, d)) \<Rightarrow> size d
      | Inl (Inr (E, l, sfs, ds)) \<Rightarrow> size_list size ds
      | Inr (Inl (E, l, t, ds)) \<Rightarrow> size_list size ds
      | Inr (Inr (E, l, t, kvs)) \<Rightarrow> size_list (size_prod size size) kvs)") auto

definition withLocation :: "'e genv_scheme \<Rightarrow> rvalue \<Rightarrow> location option \<Rightarrow> rvalue" where
  "withLocation E v loc =
     (case loc of
        None \<Rightarrow> v
      | Some l \<Rightarrow> (case v of Invalid \<Rightarrow> Invalid | RV t d \<Rightarrow> as_any (RV t (convertTimes E l t d))))"

definition marshalJSON :: "'e genv_scheme \<Rightarrow> rvalue \<Rightarrow> location option \<Rightarrow> rvalue outcome" where
  "marshalJSON E v loc =
     (case ge_json_marshal E (if loc \<noteq> None then withLocation E v loc else v) of
        Ok b \<Rightarrow> Ok (RV TBytes (DBytes b))
      | Err e \<Rightarrow> Err (Wrap ''bind: json marshal'' e)
      | Panic m \<Rightarrow> Panic m)"

section \<open>Normalising a value\<close>

definition normalizeBindValue ::
  "'e genv_scheme \<Rightarrow> rvalue \<Rightarrow> bool \<Rightarrow> location option \<Rightarrow> rvalue outcome" where
  "normalizeBindValue E v jsonEncode loc =
     (case v of
        Invalid \<Rightarrow> Ok Invalid
      | RV t0 d0 \<Rightarrow>
          (if ge_valuer E t0 then Ok v
           else (case deref t0 d0 of
                   None \<Rightarrow> Ok Invalid
                 | Some (t, d) \<Rightarrow>
                     (if basic_kind (kind t) then Ok (RV t d)
                      else if kind t = KSlice then
                        (if t = TBytes then Ok (RV t d)
                         else if jsonEncode then marshalJSON E (RV t d) loc
                         else Err (Wrap ''bind: slice value without json tag or slice expansion'' ErrUnsupportedType))
                      else if kind t = KStruct then
                        (if t = TTime then Ok (RV t d)
                         else if jsonEncode then marshalJSON E (RV t d) loc
                         else Err (Wrap ''bind: struct value without json tag'' ErrUnsupportedType))
                      else if kind t = KMap then
                        (if jsonEncode then marshalJSON E (RV t d) loc
                         else Err (Wrap ''bind: map value without json tag'' ErrUnsupportedType))
                      else Err (Wrap ''bind: unsupported value kind'' ErrUnsupportedType)))))"

text \<open>\<open>expandSlice\<close>: \<open>Len\<close> of a value that is not a slice panics.\<close>

definition expandSlice :: "'e genv_scheme \<Rightarrow> rvalue \<Rightarrow> string \<Rightarrow> location option \<Rightarrow> rvalue list outcome" where
  "expandSlice E v name loc =
     (case v of
        Invalid \<Rightarrow> Panic ''reflect: call of reflect.Value.Len on zero Value''
      | RV t0 d0 \<Rightarrow>
          (case deref t0 d0 of
             None \<Rightarrow> Err (Wrap (''bind: placeholder '' @ name) ErrSliceExpansion)
           | Some (t, d) \<Rightarrow>
               (if kind t \<noteq> KSlice then Panic ''reflect: call of reflect.Value.Len''
                else if length (slice_elems t d) = 0
                then Err (Wrap (''bind: placeholder '' @ name) ErrSliceExpansion)
                else map_outcome (\<lambda>x. normalizeBindValue E (as_any x) False loc) (slice_elems t d))))"

section \<open>Looking a named value up\<close>

text \<open>The value and the json and omitempty flags of its field.\<close>

definition lookupNamedValue ::
  "'e genv_scheme \<Rightarrow> rvalue \<Rightarrow> type_info option \<Rightarrow> string \<Rightarrow> (rvalue \<times> bool \<times> bool) outcome" where
  "lookupNamedValue E rv ti name =
     (case rv of
        Invalid \<Rightarrow> Panic ''reflect: call of reflect.Value.Type on zero Value''
      | RV t d \<Rightarrow>
          (if kind t = KMap then
             (if kind (key_type t) \<noteq> KString
              then Err (Wrap ''bind: map key must be string'' ErrUnsupportedType)
              else and_then (map_index t d name)
                (\<lambda>mv. case mv of
                        Invalid \<Rightarrow> Err (Wrap (''bind: placeholder '' @ name) ErrPlaceholderNotFound)
                      | RV _ _ \<Rightarrow> Ok (as_any mv, False, False)))
           else
             (case ti of
                None \<Rightarrow> Err (Wrap ''bind: missing type info'' ErrUnsupportedType)
              | Some info \<Rightarrow>
                  (case lookupBind info name of
                     None \<Rightarrow> Err (Wrap (''bind: placeholder '' @ name) ErrPlaceholderNotFound)
                   | Some idx \<Rightarrow>
                       (let f = ti_fields info ! idx in
                        and_then (fieldByIndex E rv (fi_index f))
                          (\<lambda>fv. case fv of
                                  Invalid \<Rightarrow> Err (Wrap (''bind: placeholder '' @ name) ErrPlaceholderNotFound)
                                | RV _ _ \<Rightarrow> Ok (as_any fv, fi_json f, fi_omitEmpty f)))))))"

definition locOf :: "'p config option \<Rightarrow> location option" where
  "locOf cfg = (case cfg of None \<Rightarrow> None | Some c \<Rightarrow> timeLocation c)"

definition slice_expansion_on :: "'p config option \<Rightarrow> bool" where
  "slice_expansion_on cfg = (case cfg of None \<Rightarrow> False | Some c \<Rightarrow> sliceExpansion c)"

definition bindValue ::
  "'e genv_scheme \<Rightarrow> rvalue \<Rightarrow> type_info option \<Rightarrow> string \<Rightarrow> 'p config option \<Rightarrow> rvalue outcome" where
  "bindValue E rv ti name cfg =
     and_then (lookupNamedValue E rv ti name)
       (\<lambda>(v, jsonTag, omitEmpty).
          if omitEmpty \<and> isZeroAny v then Ok Invalid
          else normalizeBindValue E v jsonTag (locOf cfg))"

text \<open>\<open>positionalArgs\<close>: nil gives no arguments, an \<open>[]any\<close> is taken as it is.\<close>

definition positionalArgs :: "rvalue \<Rightarrow> rvalue list" where
  "positionalArgs arg =
     (case arg of
        Invalid \<Rightarrow> []
      | RV t d \<Rightarrow> (if t = TSlice TAny then map as_any (slice_elems t d) else [arg]))"

section \<open>bindNamed\<close>

text \<open>The text written for \<open>n\<close> expanded items: question marks separated by commas.\<close>

fun write_marks :: "nat \<Rightarrow> nat \<Rightarrow> string" where
  "write_marks i 0 = []"
| "write_marks i (Suc n) = (if i > 0 then '','' else []) @ ''?'' @ write_marks (i + 1) n"

text \<open>One iteration of the loop over the named placeholders: the text that replaces the
  placeholder, the arguments it adds and what it adds to the cache-key arguments.\<close>

definition bind_one ::
  "'e genv_scheme \<Rightarrow> rvalue \<Rightarrow> type_info option \<Rightarrow> string \<Rightarrow> 'p config option
   \<Rightarrow> (string \<times> rvalue list \<times> rvalue list) outcome" where
  "bind_one E rv ti name cfg =
     and_then (lookupNamedValue E rv ti name)
       (\<lambda>(v, jsonTag, omitEmpty).
          if omitEmpty \<and> isZeroAny v then Ok (''?'', [Invalid], [Invalid])
          else if slice_expansion_on cfg \<and> isExpandableSlice E v then
            and_then (expandSlice E v name (locOf cfg))
              (\<lambda>items. Ok (write_marks 0 (length items), items, [v]))
          else
            and_then (normalizeBindValue E v jsonTag (locOf cfg))
              (\<lambda>nv. Ok (''?'', [nv], [nv])))"

fun bind_loop ::
  "'e genv_scheme \<Rightarrow> rvalue \<Rightarrow> type_info option \<Rightarrow> 'p config option \<Rightarrow> string \<Rightarrow> nat \<Rightarrow> placeholder list
   \<Rightarrow> (string \<times> rvalue list \<times> rvalue list) outcome" where
  "bind_loop E rv ti cfg query lo [] = Ok (drop lo query, [], [])"
| "bind_loop E rv ti cfg query lo (p # ps) =
     and_then (bind_one E rv ti (pl_name p) cfg)
       (\<lambda>(blk, as, bs).
          and_then (bind_loop E rv ti cfg query (pl_end p) ps)
            (\<lambda>(rest, as', bs'). Ok (substr query lo (pl_pos p) @ blk @ rest, as @ as', bs @ bs')))"

definition err_struct_or_map :: goerr where
  "err_struct_or_map = Wrap ''bindNamed: named placeholders require struct or map'' ErrUnsupportedType"

text \<open>\<open>bindNamed\<close> returns the bound text, the final arguments and the cache-key arguments.\<close>

definition bindNamed ::
  "'e genv_scheme \<Rightarrow> type_cache \<Rightarrow> string \<Rightarrow> rvalue \<Rightarrow> 'p config option
   \<Rightarrow> (string \<times> rvalue list \<times> rvalue list) outcome \<times> type_cache" where
  "bindNamed E tc query arg cfg =
     (let named = namedPlaces (parsePlaceholders query) in
      if length named = 0 then (Ok (query, positionalArgs arg, positionalArgs arg), tc)
      else
        (case derefValue arg of
           Err e \<Rightarrow> (Err e, tc)
         | Panic m \<Rightarrow> (Panic m, tc)
         | Ok rv \<Rightarrow>
             (if isScalarValue E rv then
                (if length named \<noteq> 1 then (Err err_struct_or_map, tc)
                 else
                   (and_then (normalizeBindValue E (as_any rv) False (locOf cfg))
                      (\<lambda>nv. let p = hd named in
                         Ok (take (pl_pos p) query @ ''?'' @ drop (pl_end p) query, [nv], [nv])), tc))
              else if isDirectExpandSlice rv \<and> slice_expansion_on cfg then
                (if length named \<noteq> 1 then (Err err_struct_or_map, tc)
                 else
                   (and_then (expandSlice E (as_any rv) (pl_name (hd named)) (locOf cfg))
                      (\<lambda>items. let p = hd named in
                         Ok (take (pl_pos p) query @ write_marks 0 (length items) @ drop (pl_end p) query,
                             items, [as_any rv])), tc))
              else
                (case rv of
                   Invalid \<Rightarrow> (Panic ''reflect: invalid value'', tc)
                 | RV t d \<Rightarrow>
                     (if kind t \<noteq> KStruct \<and> kind t \<noteq> KMap then (Err err_struct_or_map, tc)
                      else if kind t = KStruct then
                        (case getTypeInfo E tc t cfg of
                           (Ok ti, tc') \<Rightarrow> (bind_loop E rv (Some ti) cfg query 0 named, tc')
                         | (Err e, tc') \<Rightarrow> (Err e, tc')
                         | (Panic m, tc') \<Rightarrow> (Panic m, tc'))
                      else (bind_loop E rv None cfg query 0 named, tc))))))"

text \<open>The public \<open>BindNamed\<close>: no configuration, and no cache-key arguments.\<close>

definition BindNamed ::
  "'e genv_scheme \<Rightarrow> type_cache \<Rightarrow> string \<Rightarrow> rvalue \<Rightarrow> (string \<times> rvalue list) outcome \<times> type_cache" where
  "BindNamed E tc query arg =
     (case bindNamed E tc query arg (None :: unit config option) of
        (r, tc') \<Rightarrow> (and_then r (\<lambda>(q, args, _). Ok (q, args)), tc'))"

section \<open>bindNamedMany\<close>

text \<open>The argument objects, dereferenced; every one must be a struct or a map. The metadata is
  that of the first struct among them.\<close>

fun resolve_objs ::
  "'e genv_scheme \<Rightarrow> type_cache \<Rightarrow> 'p config option \<Rightarrow> type_info option \<Rightarrow> rvalue list
   \<Rightarrow> (rvalue list \<times> type_info option) outcome \<times> type_cache" where
  "resolve_objs E tc cfg ti [] = (Ok ([], ti), tc)"
| "resolve_objs E tc cfg ti (a # args) =
     (case derefValue a of
        Err e \<Rightarrow> (Err e, tc)
      | Panic m \<Rightarrow> (Panic m, tc)
      | Ok Invalid \<Rightarrow> (Panic ''reflect: invalid value'', tc)
      | Ok (RV t d) \<Rightarrow>
          (if kind t \<noteq> KStruct \<and> kind t \<noteq> KMap
           then (Err (Wrap ''bindNamedMany: arg must be struct or map'' ErrUnsupportedType), tc)
           else if kind t = KStruct \<and> ti = None then
             (case getTypeInfo E tc t cfg of
                (Ok info, tc') \<Rightarrow>
                  (case resolve_objs E tc' cfg (Some info) args of
                     (r, tc'') \<Rightarrow> (and_then r (\<lambda>(objs, ti'). Ok (RV t d # objs, ti')), tc''))
              | (Err e, tc') \<Rightarrow> (Err e, tc')
              | (Panic m, tc') \<Rightarrow> (Panic m, tc'))
           else
             (case resolve_objs E tc cfg ti args of
                (r, tc') \<Rightarrow> (and_then r (\<lambda>(objs, ti'). Ok (RV t d # objs, ti')), tc'))))"

text \<open>The group fragment is widened to the nearest enclosing parentheses, if any.\<close>

fun back_to_paren :: "string \<Rightarrow> nat \<Rightarrow> nat" where
  "back_to_paren query 0 = 0"
| "back_to_paren query (Suc s) = (if query ! s = CHR ''('' then Suc s else back_to_paren query s)"

function fwd_to_paren :: "string \<Rightarrow> nat \<Rightarrow> nat" where
  "fwd_to_paren query e =
     (if e < length query \<and> query ! e \<noteq> CHR '')'' then fwd_to_paren query (e + 1) else e)"
  by pat_completeness auto
termination
  by (relation "measure (\<lambda>(q, e). length q - e)") auto

declare fwd_to_paren.simps [simp del]

definition group_start :: "string \<Rightarrow> placeholder list \<Rightarrow> nat" where
  "group_start query grp =
     (let s = back_to_paren query (pl_pos (hd grp)) in
      if s > 0 \<and> query ! (s - 1) = CHR ''('' then s - 1 else s)"

definition group_end :: "string \<Rightarrow> placeholder list \<Rightarrow> nat" where
  "group_end query grp =
     (let e = fwd_to_paren query (pl_end (last grp)) in
      if e < length query \<and> query ! e = CHR '')'' then e + 1 else e)"

text \<open>The two loops over placeholders outside the group: \<open>skip\<close> is the loop's \<open>continue\<close>
  condition. They return the text written, the arguments and the new \<open>last\<close>.\<close>

fun outside_loop ::
  "'e genv_scheme \<Rightarrow> rvalue \<Rightarrow> type_info option \<Rightarrow> 'p config option \<Rightarrow> string
   \<Rightarrow> (nat \<Rightarrow> placeholder \<Rightarrow> bool) \<Rightarrow> nat \<Rightarrow> placeholder list \<Rightarrow> (string \<times> rvalue list \<times> nat) outcome" where
  "outside_loop E obj ti cfg query skip lo [] = Ok ([], [], lo)"
| "outside_loop E obj ti cfg query skip lo (p # ps) =
     (if skip lo p then outside_loop E obj ti cfg query skip lo ps
      else and_then (bindValue E obj ti (pl_name p) cfg)
        (\<lambda>v. and_then (outside_loop E obj ti cfg query skip (pl_end p) ps)
          (\<lambda>(b, out, lo'). Ok (substr query lo (pl_pos p) @ ''?'' @ b, v # out, lo'))))"

definition bind_group ::
  "'e genv_scheme \<Rightarrow> type_info option \<Rightarrow> 'p config option \<Rightarrow> placeholder list \<Rightarrow> rvalue \<Rightarrow> rvalue list outcome" where
  "bind_group E ti cfg grp obj = map_outcome (\<lambda>p. bindValue E obj ti (pl_name p) cfg) grp"

definition bindNamedMany ::
  "'e genv_scheme \<Rightarrow> type_cache \<Rightarrow> string \<Rightarrow> rvalue list \<Rightarrow> 'p config option
   \<Rightarrow> (string \<times> rvalue list) outcome \<times> type_cache" where
  "bindNamedMany E tc query args cfg =
     (if length args = 0 then (Err (Wrap ''bindNamedMany: empty args'' ErrUnsupportedType), tc)
      else
        (let named = namedPlaces (parsePlaceholders query) in
         if length named = 0
         then (Err (Wrap ''bindNamedMany: no named placeholder group'' ErrUnsupportedType), tc)
         else
           (case groupNamedPlaces named query of
              Err e \<Rightarrow> (Err e, tc)
            | Panic m \<Rightarrow> (Panic m, tc)
            | Ok groups \<Rightarrow>
                (if length groups > 1
                 then (Err (Wrap ''bindNamedMany: expected exactly one contiguous placeholder group''
                         ErrUnsupportedType), tc)
                 else
                   (case resolve_objs E tc cfg None args of
                      (Err e, tc') \<Rightarrow> (Err e, tc')
                    | (Panic m, tc') \<Rightarrow> (Panic m, tc')
                    | (Ok (objs, ti), tc') \<Rightarrow>
                        (let grp = hd groups;
                             inGroup = (\<lambda>p. pl_pos p \<in> set (map pl_pos grp));
                             gs = group_start query grp;
                             ge = group_end query grp;
                             groupSQL = substr query gs ge;
                             replacement = join '','' (map (\<lambda>_. replaceNamedInFragment groupSQL) args)
                         in
                         (and_then (outside_loop E (hd objs) ti cfg query (\<lambda>lo p. inGroup p) 0 named)
                            (\<lambda>(b1, out1, lo1).
                               and_then (map_outcome (bind_group E ti cfg grp) objs)
                                 (\<lambda>outs.
                                    and_then (outside_loop E (hd objs) ti cfg query
                                                (\<lambda>lo p. pl_pos p < lo \<or> inGroup p) ge named)
                                      (\<lambda>(b2, out2, lo2).
                                         Ok (b1 @ substr query lo1 gs @ replacement @ b2 @ drop lo2 query,
                                             out1 @ concat outs @ out2)))), tc')))))))"

definition BindNamedMany ::
  "'e genv_scheme \<Rightarrow> type_cache \<Rightarrow> string \<Rightarrow> rvalue list \<Rightarrow> (string \<times> rvalue list) outcome \<times> type_cache" where
  "BindNamedMany E tc query args = bindNamedMany E tc query args (None :: unit config option)"

section \<open>bindForExec\<close>

record bound_query =
  bq_boundSQL :: string
  bq_bindSQL :: string
  bq_bindArgs :: "rvalue list"
  bq_args :: "rvalue list"

definition finish_bind ::
  "'p config \<Rightarrow> (string \<times> rvalue list \<times> rvalue list) outcome \<times> type_cache \<Rightarrow> bound_query outcome \<times> type_cache" where
  "finish_bind cfg r =
     (and_then (fst r)
        (\<lambda>(bindSQL, args, bindArgs).
           Ok \<lparr>bq_boundSQL = Rebind bindSQL (placeholder_of cfg), bq_bindSQL = bindSQL,
               bq_bindArgs = bindArgs, bq_args = args\<rparr>), snd r)"

definition bindForExec ::
  "'e genv_scheme \<Rightarrow> type_cache \<Rightarrow> string \<Rightarrow> rvalue \<Rightarrow> 'p config \<Rightarrow> bound_query outcome \<times> type_cache" where
  "bindForExec E tc query arg cfg =
     (if list_ex (\<lambda>p. pl_name p \<noteq> []) (parsePlaceholders query) then
        (case derefValue arg of
           Err e \<Rightarrow> (Err e, tc)
         | Panic m \<Rightarrow> (Panic m, tc)
         | Ok Invalid \<Rightarrow> (Panic ''reflect: invalid value'', tc)
         | Ok (RV t d) \<Rightarrow>
             (if kind t = KStruct \<or> kind t = KMap then finish_bind cfg (bindNamed E tc query arg (Some cfg))
              else if kind t = KSlice then
                (if t = TBytes then finish_bind cfg (bindNamed E tc query arg (Some cfg))
                 else if kind (elem_type t) = KStruct \<or> kind (elem_type t) = KMap then
                   (case bindNamedMany E tc query (map as_any (slice_elems t d)) (Some cfg) of
                      (r, tc') \<Rightarrow> finish_bind cfg (and_then r (\<lambda>(q, args). Ok (q, args, args)), tc'))
                 else if sliceExpansion cfg then finish_bind cfg (bindNamed E tc query arg (Some cfg))
                 else (Err (Wrap ''bind: named placeholders require struct/map/slice of struct/map''
                         ErrUnsupportedType), tc))
              else finish_bind cfg (bindNamed E tc query arg (Some cfg))))
      else
        finish_bind cfg (Ok (query, positionalArgs arg, positionalArgs arg), tc))"

end
