(* ===== verification/BindProps.thy ===== *)
theory BindProps
  imports Bind
begin

text \<open>
  What binding guarantees: the rewritten text is the query with its named placeholders replaced
  by question marks and nothing else changed, there is one argument per question mark, the text
  does not depend on the values bound, and binding a well-typed argument does not panic.
\<close>

section \<open>Blocks of question marks\<close>

fun mark_toks :: "nat \<Rightarrow> token list" where
  "mark_toks 0 = []"
| "mark_toks (Suc 0) = [Pos]"
| "mark_toks (Suc n) = Pos # Txt '','' # mark_toks n"

lemma flat_mark_toks_Suc: "n > 0 \<Longrightarrow> flat (mark_toks (Suc n)) = ''?,'' @ flat (mark_toks n)"
  by (cases n) simp_all

lemma write_marks_shift: "i > 0 \<Longrightarrow> write_marks i (Suc n) = '','' @ write_marks 0 (Suc n)"
proof (induction n arbitrary: i)
  case (Suc n)
  show ?case
    using Suc.IH [of "i + 1"] Suc.IH [of 1] Suc.prems by simp
qed simp

lemma flat_mark_toks [simp]: "flat (mark_toks n) = write_marks 0 n"
proof (induction n rule: mark_toks.induct)
  case (3 n)
  have "write_marks 0 (Suc (Suc n)) = ''?'' @ write_marks 1 (Suc n)" by simp
  also have "\<dots> = ''?,'' @ write_marks 0 (Suc n)"
    using write_marks_shift [of 1 n] by simp
  finally show ?case using 3 flat_mark_toks_Suc [of "Suc n"] by simp
qed simp_all

lemma safe_mark_toks: "n > 0 \<Longrightarrow> safe_block (mark_toks n)"
proof -
  have "list_all safe_tok (mark_toks n)"
    by (induction n rule: mark_toks.induct) (auto simp: safe_tok_def safe_char_marks)
  moreover have "n > 0 \<Longrightarrow> mark_toks n \<noteq> [] \<and> hd (mark_toks n) = Pos"
    by (cases n rule: mark_toks.cases) auto
  ultimately show "n > 0 \<Longrightarrow> safe_block (mark_toks n)" by (simp add: safe_block_def)
qed

lemma filter_mark_toks [simp]:
  "filter is_named (mark_toks n) = []" "length (filter is_pos (mark_toks n)) = n"
  by (induction n rule: mark_toks.induct) simp_all

lemma subst_toks_count:
  "length ns = length (filter is_named ts) \<Longrightarrow>
   length (filter is_pos (subst_toks is_named (map mark_toks ns) ts)) = sum_list ns + length (filter is_pos ts)"
proof (induction ts arbitrary: ns)
  case (Cons t ts)
  show ?case
  proof (cases t)
    case (Named m)
    with Cons.prems obtain n ns' where ns: "ns = n # ns'" by (cases ns) auto
    with Cons.IH [of ns'] Cons.prems Named show ?thesis by simp
  qed (use Cons in simp_all)
qed simp

lemma length_parsePlaceholders:
  "length (parsePlaceholders q) = length (filter is_named (lex_query q)) + length (filter is_pos (lex_query q))"
proof -
  have "length (places_at n ts) = length (filter is_named ts) + length (filter is_pos ts)" for n ts
    by (induction n ts rule: places_at.induct) auto
  then show ?thesis by (simp add: parsePlaceholders_lex)
qed

text \<open>The text obtained by writing \<open>ns ! i\<close> marks over the i-th named placeholder.\<close>

definition marks_for :: "string \<Rightarrow> nat list \<Rightarrow> token list" where
  "marks_for q ns = subst_toks is_named (map mark_toks ns) (lex_query q)"

lemma splice_marks:
  assumes "length ns = length (namedPlaces (parsePlaceholders q))"
  shows "splice q 0 (zip (namedPlaces (parsePlaceholders q)) (map (write_marks 0) ns)) = flat (marks_for q ns)"
  using splice_subst [of is_named "map mark_toks ns" q] named_is_ph assms
  by (simp add: sel_named_lex length_namedPlaces marks_for_def comp_def)

lemma lex_marks:
  assumes "list_all (\<lambda>n. 0 < n) ns"
  shows "lex_query (flat (marks_for q ns)) = marks_for q ns"
  unfolding marks_for_def
  by (rule lex_repl, rule repl_subst_toks)
    (use assms in \<open>auto intro: named_is_ph safe_mark_toks simp: list_all_iff\<close>)

lemma marks_for_named:
  assumes "length ns = length (namedPlaces (parsePlaceholders q))"
  shows "filter is_named (marks_for q ns) = []"
  unfolding marks_for_def
  by (rule subst_toks_removes) (use assms in \<open>auto simp: length_namedPlaces\<close>)

lemma marks_for_pos:
  assumes "length ns = length (namedPlaces (parsePlaceholders q))"
  shows "length (filter is_pos (marks_for q ns)) = sum_list ns + length (filter is_pos (lex_query q))"
  unfolding marks_for_def by (rule subst_toks_count) (use assms in \<open>simp add: length_namedPlaces\<close>)

section \<open>The shape of what bindNamed returns\<close>

lemma expandSlice_nonempty: "expandSlice E v name loc = Ok items \<Longrightarrow> items \<noteq> []"
  by (auto simp: expandSlice_def split: rvalue.splits option.splits if_splits dest!: map_outcome_length)

lemma bind_one_shape:
  assumes "bind_one E rv ti name cfg = Ok (blk, as, bs)"
  shows "as \<noteq> [] \<and> blk = write_marks 0 (length as) \<and> length bs = 1
    \<and> (\<not> slice_expansion_on cfg \<longrightarrow> length as = 1)"
proof -
  from assms obtain v js oe where v: "lookupNamedValue E rv ti name = Ok (v, js, oe)"
    and r: "(if oe \<and> isZeroAny v then Ok (''?'', [Invalid], [Invalid])
          else if slice_expansion_on cfg \<and> isExpandableSlice E v then
            and_then (expandSlice E v name (locOf cfg))
              (\<lambda>items. Ok (write_marks 0 (length items), items, [v]))
          else
            and_then (normalizeBindValue E v js (locOf cfg))
              (\<lambda>nv. Ok (''?'', [nv], [nv]))) = Ok (blk, as, bs)"
    by (auto simp: bind_one_def outcome_iff)
  then show ?thesis by (auto simp: outcome_iff split: if_splits dest: expandSlice_nonempty)
qed

lemma bind_loop_shape:
  "bind_loop E rv ti cfg q lo ps = Ok (s, as, bs) \<Longrightarrow>
   \<exists>ns. length ns = length ps \<and> list_all (\<lambda>n. 0 < n) ns
     \<and> s = splice q lo (zip ps (map (write_marks 0) ns)) \<and> length as = sum_list ns \<and> length bs = length ps
     \<and> (\<not> slice_expansion_on cfg \<longrightarrow> ns = replicate (length ps) 1)"
proof (induction ps arbitrary: lo s as bs)
  case (Cons p ps)
  from Cons.prems obtain blk as1 bs1 rest as2 bs2 where
    one: "bind_one E rv ti (pl_name p) cfg = Ok (blk, as1, bs1)" and
    rec: "bind_loop E rv ti cfg q (pl_end p) ps = Ok (rest, as2, bs2)" and
    eq: "s = substr q lo (pl_pos p) @ blk @ rest" "as = as1 @ as2" "bs = bs1 @ bs2"
    by (auto simp: outcome_iff)
  from Cons.IH [OF rec] obtain ns where
    ns: "length ns = length ps" "list_all (\<lambda>n. 0 < n) ns"
      "rest = splice q (pl_end p) (zip ps (map (write_marks 0) ns))" "length as2 = sum_list ns"
      "length bs2 = length ps" "\<not> slice_expansion_on cfg \<longrightarrow> ns = replicate (length ps) 1"
    by blast
  from bind_one_shape [OF one] ns eq show ?case
    by (intro exI [of _ "length as1 # ns"]) auto
qed simp

lemma single_splice: "splice q 0 (zip [p] [b]) = take (pl_pos p) q @ b @ drop (pl_end p) q"
  by (simp add: substr_def)

lemma one_named: "length (namedPlaces ps) = Suc 0 \<Longrightarrow> namedPlaces ps = [hd (namedPlaces ps)]"
  by (cases "namedPlaces ps") auto

lemma bindNamed_shape:
  assumes "fst (bindNamed E tc q arg cfg) = Ok (s, as, bs)" "namedPlaces (parsePlaceholders q) \<noteq> []"
  obtains ns where "length ns = length (namedPlaces (parsePlaceholders q))" "list_all (\<lambda>n. 0 < n) ns"
    "s = flat (marks_for q ns)" "length as = sum_list ns"
    "length bs = length (namedPlaces (parsePlaceholders q))"
    "\<not> slice_expansion_on cfg \<longrightarrow> ns = replicate (length (namedPlaces (parsePlaceholders q))) 1"
proof -
  let ?ps = "namedPlaces (parsePlaceholders q)"
  note done_by = that
  have fin: thesis if "length ns = length ?ps" "list_all (\<lambda>n. 0 < n) ns"
    "s = splice q 0 (zip ?ps (map (write_marks 0) ns))" "length as = sum_list ns" "length bs = length ?ps"
    "\<not> slice_expansion_on cfg \<longrightarrow> ns = replicate (length ?ps) 1" for ns
    using that splice_marks [OF that(1)] by (intro done_by [of ns]) simp_all
  from assms obtain rv where rv: "derefValue arg = Ok rv"
    by (auto simp: bindNamed_def Let_def split: outcome.splits)
  note unf = bindNamed_def Let_def
  consider (scalar) "isScalarValue E rv" | (slice) "\<not> isScalarValue E rv" "isDirectExpandSlice rv \<and> slice_expansion_on cfg"
    | (obj) "\<not> isScalarValue E rv" "\<not> (isDirectExpandSlice rv \<and> slice_expansion_on cfg)" by blast
  then show thesis
  proof cases
    case scalar
    with assms rv have one: "length ?ps = Suc 0" by (auto simp: unf split: if_splits)
    with scalar assms rv have "s = take (pl_pos (hd ?ps)) q @ ''?'' @ drop (pl_end (hd ?ps)) q"
      "length as = 1" "length bs = 1"
      by (auto simp: unf outcome_iff split: if_splits)
    with one single_splice [of q "hd ?ps" "''?''"] one_named [OF one] show thesis
      by (intro fin [of "[1]"]) simp_all
  next
    case slice
    with assms rv have one: "length ?ps = Suc 0" by (auto simp: unf split: if_splits)
    with slice assms rv obtain items where
      it: "expandSlice E (as_any rv) (pl_name (hd ?ps)) (locOf cfg) = Ok items" "as = items" and
      s: "s = take (pl_pos (hd ?ps)) q @ write_marks 0 (length as) @ drop (pl_end (hd ?ps)) q"
      "length bs = 1"
      by (auto simp: unf outcome_iff split: if_splits)
    have "items \<noteq> []" using it(1) by (rule expandSlice_nonempty)
    with one s it slice single_splice [of q "hd ?ps"] one_named [OF one] show thesis
      by (intro fin [of "[length as]"]) simp_all
  next
    case obj
    with assms rv obtain ti where "bind_loop E rv ti cfg q 0 ?ps = Ok (s, as, bs)"
      by (auto simp: unf split: if_splits rvalue.splits outcome.splits prod.splits)
    from bind_loop_shape [OF this] show thesis using fin by blast
  qed
qed

section \<open>Where the lexer can be cut\<close>

text \<open>A tail of the tokens is the token list of its own text; the tokens before it stay as they are before
  any text that starts like that tail.\<close>

lemma lex_suffix: "lex_query q = xs @ ys \<Longrightarrow> lex_query (flat ys) = ys"
proof (induction xs arbitrary: q)
  case (Cons t xs)
  then obtain c s where q: "q = c # s" by (cases q) auto
  obtain t' r where "lex_query (c # s) = t' # lex_query r"
    using lex_query_step [of s c] by (auto simp: lex_step_ok_def)
  with Cons.prems q have "lex_query r = xs @ ys" by simp
  then show ?case by (rule Cons.IH)
qed (metis append_Nil flat_lex)

lemma lex_prefix: "lex_query q = xs @ ys \<Longrightarrow> hdrel (flat ys) r \<Longrightarrow> lex_query (flat xs @ r) = xs @ lex_query r"
proof (induction xs arbitrary: q)
  case (Cons t xs)
  then obtain c s where q: "q = c # s" by (cases q) auto
  obtain t' w where w: "lex_query (c # s) = t' # lex_query w"
    using lex_query_step [of s c] by (auto simp: lex_step_ok_def)
  with Cons.prems(1) q have w': "t' = t" "lex_query w = xs @ ys" by simp_all
  have "hdrel (flat (xs @ ys)) (flat xs @ r)"
    using Cons.prems(2) lex_query_ok [of w] by (cases xs) (auto simp: w' hdrel_def render_nonempty)
  with lex_step_hdrel [of c s t "lex_query w"] w w' have "lex_query (render t @ flat xs @ r) = t # lex_query (flat xs @ r)"
    by simp
  with Cons.IH [OF w'(2) Cons.prems(2)] show ?case by simp
qed simp

lemma lex_comma: "lex_query (CHR '','' # r) = Txt '','' # lex_query r"
  by (simp add: lex_query.simps isQuote_def)

lemma lex_join_closed:
  assumes "lex_query f = ts @ [Txt '')'']" "n > 0"
  shows "lex_query (join '','' (replicate n f) @ r) = join [Txt '',''] (replicate n (lex_query f)) @ lex_query r"
  using assms(2)
proof (induction n)
  case (Suc n)
  show ?case
  proof (cases n)
    case 0
    with lex_append_closed [OF assms(1)] assms(1) show ?thesis by simp
  next
    case (Suc m)
    with Suc.IH have IH: "lex_query (join '','' (replicate n f) @ r)
      = join [Txt '',''] (replicate n (lex_query f)) @ lex_query r" by simp
    with Suc lex_append_closed [OF assms(1), of "'','' @ join '','' (replicate n f) @ r"] assms(1)
    show ?thesis by (simp add: lex_comma)
  qed
qed simp

section \<open>The shape of what bindNamedMany returns\<close>

lemma outside_loop_skips:
  "(\<And>p lo. p \<in> set ps \<Longrightarrow> skip lo p) \<Longrightarrow> outside_loop E obj ti cfg q skip lo ps = Ok ([], [], lo)"
  by (induction ps arbitrary: lo) auto

lemma resolve_objs_Ok:
  "fst (resolve_objs E tc cfg ti args) = Ok (objs, ti') \<Longrightarrow>
   list_all2 (\<lambda>a r. derefValue a = Ok r) args objs"
proof (induction args arbitrary: tc ti objs)
  case (Cons a args)
  from Cons.prems obtain r tc0 ti0 objs0 where
    "derefValue a = Ok r" "fst (resolve_objs E tc0 cfg ti0 args) = Ok (objs0, ti')" "objs = r # objs0"
    by (auto simp: outcome_iff case_prod_beta split: outcome.splits rvalue.splits if_splits)
  with Cons.IH show ?case by auto
qed simp

lemma bindNamedMany_shape:
  assumes "fst (bindNamedMany E tc q args cfg) = Ok (s, as)"
  obtains objs ti rows where
    "args \<noteq> []" "namedPlaces (parsePlaceholders q) \<noteq> []"
    "fst (resolve_objs E tc cfg None args) = Ok (objs, ti)"
    "list_all2 (\<lambda>a r. derefValue a = Ok r) args objs"
    "map_outcome (bind_group E ti cfg (namedPlaces (parsePlaceholders q))) objs = Ok rows"
    "as = concat rows"
    "s = take (group_start q (namedPlaces (parsePlaceholders q))) q
       @ join '','' (replicate (length args) (replaceNamedInFragment
           (substr q (group_start q (namedPlaces (parsePlaceholders q)))
              (group_end q (namedPlaces (parsePlaceholders q))))))
       @ drop (group_end q (namedPlaces (parsePlaceholders q))) q"
proof -
  let ?ps = "namedPlaces (parsePlaceholders q)"
  from assms have ne: "args \<noteq> []" "?ps \<noteq> []"
    by (auto simp: bindNamedMany_def Let_def split: if_splits)
  from groupNamedPlaces_Ok [OF ne(2), of q] obtain gs where
    gs: "groupNamedPlaces ?ps q = Ok gs" "concat gs = ?ps" "gs \<noteq> []" by blast
  with assms ne have "length gs = 1"
    by (cases gs) (auto simp: bindNamedMany_def Let_def split: if_splits)
  with gs have g: "gs = [?ps]" by (cases gs) auto
  from assms ne gs(1) g obtain objs ti where
    res: "fst (resolve_objs E tc cfg None args) = Ok (objs, ti)"
    by (auto simp: bindNamedMany_def Let_def split: outcome.splits prod.splits)
  have sk: "outside_loop E (hd objs) ti cfg q (\<lambda>lo p. pl_pos p \<in> set (map pl_pos ?ps)) 0 ?ps = Ok ([], [], 0)"
    "outside_loop E (hd objs) ti cfg q (\<lambda>lo p. pl_pos p < lo \<or> pl_pos p \<in> set (map pl_pos ?ps)) lo ?ps
       = Ok ([], [], lo)" for lo
    by (rule outside_loop_skips; simp)+
  note done_by = that
  from res obtain tc' where res': "resolve_objs E tc cfg None args = (Ok (objs, ti), tc')"
    by (metis prod.collapse)
  from assms ne gs(1) g res' sk obtain rows where
    rows: "map_outcome (bind_group E ti cfg ?ps) objs = Ok rows" "as = concat rows" and
    s: "s = substr q 0 (group_start q ?ps)
       @ join '','' (map (\<lambda>_. replaceNamedInFragment (substr q (group_start q ?ps) (group_end q ?ps))) args)
       @ drop (group_end q ?ps) q"
    by (auto simp: bindNamedMany_def Let_def outcome_iff simp del: set_map)
  have rep: "map (\<lambda>_. x) args = replicate (length args) x" for x :: string
    by (simp add: map_replicate_const)
  show thesis
    using ne res resolve_objs_Ok [OF res] rows s by (intro done_by) (simp_all add: rep substr_def)
qed

lemma bind_group_rows:
  assumes "map_outcome (bind_group E ti cfg ps) objs = Ok rows"
  shows "length (concat rows) = length objs * length ps"
proof -
  have "length row = length ps" if "row \<in> set rows" for row
  proof -
    from that obtain i where i: "i < length rows" "row = rows ! i" by (auto simp: in_set_conv_nth)
    with map_outcome_nth [OF assms, of i] map_outcome_length [OF assms]
    have "bind_group E ti cfg ps (objs ! i) = Ok row" by simp
    then show ?thesis unfolding bind_group_def by (rule map_outcome_length)
  qed
  then have "map length rows = map (\<lambda>_. length ps) rows" by simp
  then show ?thesis
    using map_outcome_length [OF assms]
    by (simp add: length_concat map_replicate_const sum_list_replicate)
qed

section \<open>The repeated group, on the tokens\<close>

text \<open>The first and the last named placeholder in the text, and the parentheses around them.\<close>

lemma places_at_append: "places_at n (ts @ us) = places_at n ts @ places_at (n + length (flat ts)) us"
  by (induction n ts rule: places_at.induct) (simp_all add: add.assoc)

lemma no_named_places: "filter is_named ts = [] \<Longrightarrow> namedPlaces (places_at n ts) = []"
  by (induction n ts rule: places_at.induct) (simp_all add: namedPlaces_def)

lemma namedPlaces_append [simp]: "namedPlaces (xs @ ys) = namedPlaces xs @ namedPlaces ys"
  by (simp add: namedPlaces_def)

lemma named_first:
  assumes "lex_query q = u @ Named m # v" "filter is_named u = []"
  shows "pl_pos (hd (namedPlaces (parsePlaceholders q))) = length (flat u)"
proof -
  have "m \<noteq> []" using lex_query_ok [of q] assms(1) by (simp add: tok_ok_def)
  then show ?thesis
    by (simp add: parsePlaceholders_lex assms places_at_append no_named_places) (simp add: namedPlaces_def)
qed

lemma named_last:
  assumes "lex_query q = u @ Named m # v" "filter is_named v = []"
  shows "pl_end (last (namedPlaces (parsePlaceholders q))) = length (flat (u @ [Named m]))"
proof -
  have "m \<noteq> []" using lex_query_ok [of q] assms(1) by (simp add: tok_ok_def)
  then show ?thesis
    using no_named_places [OF assms(2)]
    by (simp add: parsePlaceholders_lex assms(1) places_at_append) (simp add: namedPlaces_def add.assoc)
qed

lemma back_to_paren_found:
  "CHR ''('' \<notin> set u \<Longrightarrow> back_to_paren (x @ CHR ''('' # u @ y) (Suc (length x + length u)) = Suc (length x)"
proof (induction u arbitrary: y rule: rev_induct)
  case (snoc c u)
  let ?q = "x @ CHR ''('' # u @ c # y"
  have "?q ! Suc (length x + length u) = c" "c \<noteq> CHR ''(''" using snoc.prems by (auto simp: nth_append)
  then have "back_to_paren ?q (Suc (Suc (length x + length u))) = back_to_paren ?q (Suc (length x + length u))"
    by (subst back_to_paren.simps(2)) simp
  also have "\<dots> = Suc (length x)" using snoc.IH [of "c # y"] snoc.prems by simp
  finally show ?case by simp
qed (simp add: nth_append)

lemma fwd_to_paren_found:
  "CHR '')'' \<notin> set u \<Longrightarrow> fwd_to_paren (x @ u @ CHR '')'' # y) (length x) = length x + length u"
proof (induction u arbitrary: x)
  case (Cons c u)
  have "c \<noteq> CHR '')''" using Cons.prems by auto
  with Cons.IH [of "x @ [c]"] Cons.prems show ?case
    by (subst fwd_to_paren.simps) (simp add: nth_append)
qed (subst fwd_to_paren.simps, simp add: nth_append)

text \<open>The group \<open>grp\<close> of a query: what stands between the innermost parentheses around the named
  placeholders, when these parentheses are tokens of SQL. The second line says that they are innermost:
  no opening one (in a token or inside a literal) between the first parenthesis and the first named
  placeholder, no closing one after the last.\<close>

definition lead_in :: "token list \<Rightarrow> token list" where
  "lead_in ts = takeWhile (\<lambda>t. \<not> is_named t) ts"

definition enclosed :: "string \<Rightarrow> token list \<Rightarrow> token list \<Rightarrow> token list \<Rightarrow> bool" where
  "enclosed q pre grp post =
     (lex_query q = pre @ [Txt ''(''] @ grp @ [Txt '')''] @ post
      \<and> filter is_named pre = [] \<and> filter is_named post = []
      \<and> CHR ''('' \<notin> set (flat (lead_in grp)) \<and> CHR '')'' \<notin> set (flat (lead_in (rev grp))))"

lemma lead_in_split:
  assumes "filter is_named ts \<noteq> []"
  obtains m v where "ts = lead_in ts @ Named m # v" "filter is_named (lead_in ts) = []"
proof -
  let ?d = "dropWhile (\<lambda>t. \<not> is_named t) ts"
  have ts: "ts = lead_in ts @ ?d" by (simp add: lead_in_def)
  have l: "filter is_named (lead_in ts) = []" by (auto simp: lead_in_def filter_empty_conv dest: set_takeWhileD)
  with assms ts have "?d \<noteq> []" by (metis append_Nil2)
  then obtain t v where d: "?d = t # v" by (cases ?d) auto
  with hd_dropWhile [OF \<open>?d \<noteq> []\<close>] have "is_named t" by simp
  then obtain m where "t = Named m" by (cases t) auto
  with ts d l show thesis by (intro that) auto
qed

lemma set_flat_rev: "set (flat (rev ts)) = set (flat ts)"
  by (simp add: flat_def)

lemma group_bounds:
  assumes "enclosed q pre grp post" "namedPlaces (parsePlaceholders q) \<noteq> []"
  shows "group_start q (namedPlaces (parsePlaceholders q)) = length (flat pre)"
    "group_end q (namedPlaces (parsePlaceholders q)) = length (flat (pre @ [Txt ''(''] @ grp @ [Txt '')'']))"
proof -
  let ?ps = "namedPlaces (parsePlaceholders q)"
  have lex: "lex_query q = pre @ [Txt ''(''] @ grp @ [Txt '')''] @ post"
    and out: "filter is_named pre = []" "filter is_named post = []"
    and par: "CHR ''('' \<notin> set (flat (lead_in grp))" "CHR '')'' \<notin> set (flat (lead_in (rev grp)))"
    using assms(1) by (simp_all add: enclosed_def)
  have q: "q = flat pre @ CHR ''('' # flat grp @ CHR '')'' # flat post"
    using flat_lex [of q] lex by simp
  have "filter is_named grp \<noteq> []"
    using assms(2) lex out length_namedPlaces [of q] by (metis append_Nil append_Nil2 filter.simps filter_append is_named.simps length_0_conv)
  then obtain m v m' v' where first: "grp = lead_in grp @ Named m # v" "filter is_named (lead_in grp) = []"
    and rlast: "rev grp = lead_in (rev grp) @ Named m' # v'" "filter is_named (lead_in (rev grp)) = []"
    using lead_in_split [of grp] lead_in_split [of "rev grp"] by (metis rev_filter rev_is_Nil_conv)
  let ?r = "rev (lead_in (rev grp))"
  have lst: "grp = rev v' @ Named m' # ?r" "filter is_named ?r = []"
    using arg_cong [OF rlast(1), of rev] rlast(2) by (simp_all add: rev_filter [symmetric])
  have "lex_query q = (pre @ Txt ''('' # lead_in grp) @ Named m # v @ Txt '')'' # post"
    using lex first(1) by (metis append_Cons append_Nil append_assoc)
  from named_first [OF this] out first(2)
  have pos: "pl_pos (hd ?ps) = Suc (length (flat pre) + length (flat (lead_in grp)))" by simp
  have "q = flat pre @ CHR ''('' # flat (lead_in grp) @ flat (Named m # v) @ CHR '')'' # flat post"
    using q first(1) by (metis append_assoc flat_simps(3))
  with back_to_paren_found [OF par(1)] pos
  have bk: "back_to_paren q (pl_pos (hd ?ps)) = Suc (length (flat pre))" by metis
  with q show "group_start q ?ps = length (flat pre)" by (simp add: group_start_def nth_append)
  have "lex_query q = (pre @ Txt ''('' # rev v') @ Named m' # ?r @ Txt '')'' # post"
    using lex lst(1) by (metis append_Cons append_Nil append_assoc)
  from named_last [OF this] out lst(2)
  have plend: "pl_end (last ?ps) = length (flat (pre @ Txt ''('' # rev v' @ [Named m']))" by simp
  have q2: "q = flat (pre @ Txt ''('' # rev v' @ [Named m']) @ flat ?r @ CHR '')'' # flat post"
    using flat_lex [of q] \<open>lex_query q = (pre @ Txt ''('' # rev v') @ Named m' # ?r @ Txt '')'' # post\<close> by simp
  have np: "CHR '')'' \<notin> set (flat ?r)" using par(2) by (simp add: set_flat_rev)
  have len: "length (flat (pre @ [Txt ''(''] @ grp @ [Txt '')''])) = Suc (pl_end (last ?ps) + length (flat ?r))"
    unfolding plend by (subst lst(1)) simp
  have fwd: "fwd_to_paren q (pl_end (last ?ps)) = pl_end (last ?ps) + length (flat ?r)"
    using fwd_to_paren_found [OF np] plend q2 by metis
  have "q ! (pl_end (last ?ps) + length (flat ?r)) = CHR '')''"
    unfolding plend by (subst q2) (simp only: nth_append_length_plus nth_append_length)
  moreover have "pl_end (last ?ps) + length (flat ?r) < length q"
    using arg_cong [OF q2, of length] plend by simp
  ultimately show "group_end q ?ps = length (flat (pre @ [Txt ''(''] @ grp @ [Txt '')'']))"
    unfolding group_end_def Let_def fwd len by simp
qed

definition to_pos :: "token \<Rightarrow> token" where
  "to_pos t = (if is_named t then Pos else t)"

lemma replaceNamed_lex: "lex_query (replaceNamedInFragment f) = map to_pos (lex_query f)"
proof -
  have "subst_toks is_named (replicate (length (filter is_named ts)) [Pos]) ts = map to_pos ts" for ts
    by (induction ts) (auto simp: to_pos_def)
  then show ?thesis by (simp add: replaceNamed_toks)
qed

lemma hdrel_to_pos:
  assumes "lex_query f \<noteq> []"
  shows "hdrel (f @ x) (replaceNamedInFragment f @ y)"
proof -
  obtain t ts where t: "lex_query f = t # ts" using assms by (cases "lex_query f") auto
  have ok: "tok_ok t" using lex_query_ok [of f] t by simp
  have "f = flat (t # ts)" using t by (metis flat_lex)
  moreover have "replaceNamedInFragment f = flat (map to_pos (t # ts))"
    using replaceNamed_lex [of f] t by (metis flat_lex)
  ultimately show ?thesis
    using render_nonempty [OF ok] by (cases t) (auto simp: hdrel_def to_pos_def)
qed

lemma join_replicate_Suc: "\<exists>y. join s (replicate (Suc n) g) = g @ y"
  by (cases n) auto

lemma enclosed_text:
  assumes "enclosed q pre grp post" "n > 0"
  shows "lex_query (flat pre @ join '','' (replicate n (replaceNamedInFragment (flat ([Txt ''(''] @ grp @ [Txt '')''])))) @ flat post)
      = pre @ join [Txt '',''] (replicate n ([Txt ''(''] @ map to_pos grp @ [Txt '')''])) @ post"
proof -
  let ?g = "[Txt ''(''] @ grp @ [Txt '')'']"
  let ?r = "replaceNamedInFragment (flat ?g)"
  have lex: "lex_query q = pre @ ?g @ post" using assms(1) by (simp add: enclosed_def)
  from lex have lex': "lex_query q = (pre @ ?g) @ post" by simp
  have post: "lex_query (flat post) = post" by (rule lex_suffix [OF lex'])
  have "lex_query (flat (?g @ post)) = (Txt ''('' # grp) @ Txt '')'' # post"
    using lex_suffix [OF lex] by simp
  from lex_prefix [OF this, of "'')''"] have mid: "lex_query (flat ?g) = ?g"
    by (simp add: hdrel_def lex_query.simps isQuote_def)
  have r: "lex_query ?r = (Txt ''('' # map to_pos grp) @ [Txt '')'']"
    by (subst replaceNamed_lex, subst mid) (simp add: to_pos_def)
  obtain y where y: "join '','' (replicate n ?r) = ?r @ y"
    using join_replicate_Suc assms(2) by (metis gr0_conv_Suc)
  have "lex_query (flat ?g) \<noteq> []" using mid by simp
  from hdrel_to_pos [OF this, of "flat post" "y @ flat post"]
  have "hdrel (flat (?g @ post)) (join '','' (replicate n ?r) @ flat post)" unfolding y by simp
  from lex_prefix [OF lex this] lex_join_closed [OF r assms(2)] r post show ?thesis by simp
qed

lemma filter_join: "Q s = False \<Longrightarrow> filter Q (join [s] xss) = concat (map (filter Q) xss)"
  by (induction "[s]" xss rule: join.induct) auto

lemma length_filter_to_pos:
  "length (filter (is_pos \<circ> to_pos) ts) = length (filter is_pos ts) + length (filter is_named ts)"
  "filter (is_named \<circ> to_pos) ts = []"
proof -
  have "is_pos (to_pos t) = (is_pos t \<or> is_named t)" "\<not> is_named (to_pos t)" "\<not> (is_pos t \<and> is_named t)" for t
    by (cases t; simp add: to_pos_def)+
  then show "length (filter (is_pos \<circ> to_pos) ts) = length (filter is_pos ts) + length (filter is_named ts)"
    "filter (is_named \<circ> to_pos) ts = []"
    by (induction ts) auto
qed

section \<open>Binding does not panic on typed arguments\<close>

lemma wt_deref: "deref t d = Some (t', d') \<Longrightarrow> wt E t d \<Longrightarrow> wt E t' d'"
  by (induction t d rule: deref.induct) (auto split: if_splits)

lemma derefValue_not_panic: "derefValue v \<noteq> Panic m"
  by (auto simp: derefValue_def split: rvalue.splits option.splits)

lemma derefValue_Ok: "derefValue v = Ok r \<Longrightarrow> \<exists>t d. r = RV t d \<and> kind t \<noteq> KPtr \<and> (wt_rv E v \<longrightarrow> wt E t d)"
  by (auto simp: derefValue_def deref_kind wt_deref split: rvalue.splits option.splits)

lemma normalize_False_not_panic: "normalizeBindValue E v False loc \<noteq> Panic m"
  by (auto simp: normalizeBindValue_def split: rvalue.splits option.splits)

lemma normalize_not_panic:
  assumes "\<And>x k. ge_json_marshal E x \<noteq> Panic k"
  shows "normalizeBindValue E v js loc \<noteq> Panic m"
  using assms
  by (auto simp: normalizeBindValue_def marshalJSON_def split: rvalue.splits option.splits outcome.splits)

lemma map_outcome_not_panic: "(\<And>x. x \<in> set xs \<Longrightarrow> f x \<noteq> Panic m) \<Longrightarrow> map_outcome f xs \<noteq> Panic m"
  by (induction xs) (auto simp: outcome_iff)

lemma expandSlice_not_panic:
  assumes "v = RV t d" "deref t d = None \<or> (\<exists>t' d'. deref t d = Some (t', d') \<and> kind t' = KSlice)"
  shows "expandSlice E v name loc \<noteq> Panic m"
  using assms map_outcome_not_panic [of _ "\<lambda>x. normalizeBindValue E (as_any x) False loc", OF normalize_False_not_panic]
  by (auto simp: expandSlice_def split: if_splits)

text \<open>Metadata that fits a type: every entry is an index of a field, every field's path is valid.\<close>

definition ti_for :: "'e genv_scheme \<Rightarrow> gtype \<Rightarrow> type_info option \<Rightarrow> bool" where
  "ti_for E t ti =
     (case ti of None \<Rightarrow> kind t = KMap
      | Some info \<Rightarrow> ti_wf E info \<and> list_all (field_path_ok E t) (ti_fields info))"

definition plain_keys :: "rvalue \<Rightarrow> bool" where
  "plain_keys v =
     (case v of Invalid \<Rightarrow> True
      | RV t d \<Rightarrow> kind t = KMap \<and> kind (key_type t) = KString \<longrightarrow> key_type t = TString)"

lemma lookupBind_lt: "ti_wf E info \<Longrightarrow> lookupBind info name = Some i \<Longrightarrow> i < length (ti_fields info)"
  by (auto simp: lookupBind_def ti_wf_def split: option.splits)

lemma lookupNamedValue_not_panic:
  assumes "wt E t d" "ti_for E t ti" "plain_keys (RV t d)"
  shows "lookupNamedValue E (RV t d) ti name \<noteq> Panic m"
proof (cases "kind t = KMap")
  case True
  with assms(3) show ?thesis
    by (auto simp: lookupNamedValue_def plain_keys_def map_index_def outcome_iff
        split: gdata.splits option.splits rvalue.splits)
next
  case False
  with assms(2) obtain info where ti: "ti = Some info" "ti_wf E info"
    "list_all (field_path_ok E t) (ti_fields info)"
    by (auto simp: ti_for_def split: option.splits)
  show ?thesis
  proof (cases "lookupBind info name")
    case None
    with False ti show ?thesis by (simp add: lookupNamedValue_def)
  next
    case (Some i)
    with lookupBind_lt [OF ti(2)] ti(3) have "path_ok E t (fi_index (ti_fields info ! i))"
      by (auto simp: list_all_length field_path_ok_def)
    from fieldByIndex_typed [OF assms(1) this] False ti Some show ?thesis
      by (auto simp: lookupNamedValue_def Let_def)
  qed
qed

lemma bind_one_not_panic:
  assumes "lookupNamedValue E rv ti name \<noteq> Panic m" "\<And>x k. ge_json_marshal E x \<noteq> Panic k"
  shows "bind_one E rv ti name cfg \<noteq> Panic m"
proof -
  have "expandSlice E v name loc \<noteq> Panic m" if "isExpandableSlice E v" for v loc
  proof (cases v)
    case (RV t d)
    with that show ?thesis
      by (intro expandSlice_not_panic [OF RV]) (auto simp: isExpandableSlice_def split: if_splits option.splits)
  qed (use that in \<open>simp add: isExpandableSlice_def\<close>)
  with assms normalize_not_panic [OF assms(2)] show ?thesis
    by (auto simp: bind_one_def outcome_iff split: if_splits)
qed

lemma bind_loop_not_panic:
  assumes "\<And>name. lookupNamedValue E rv ti name \<noteq> Panic m" "\<And>x k. ge_json_marshal E x \<noteq> Panic k"
  shows "bind_loop E rv ti cfg q lo ps \<noteq> Panic m"
  using bind_one_not_panic [OF assms(1) assms(2)]
  by (induction ps arbitrary: lo) (auto simp: outcome_iff)

text \<open>What \<open>getTypeInfo\<close> gives on a sound cache and a non-recursive type.\<close>

lemma getTypeInfo_fits:
  assumes "cache_sound E fn_of tc" "fn_of (nm_code (cfg_mapper E cfg)) = nm_fn (cfg_mapper E cfg)"
    "ranked E rank" "rank t < ge_depth E" "kind t = KStruct"
  shows "fst (getTypeInfo E tc t cfg) = Err ErrTagInvalid
    \<or> (\<exists>ti. fst (getTypeInfo E tc t cfg) = Ok ti \<and> ti_for E t (Some ti))"
  using getTypeInfo_sound(1) [OF assms(1,2)] buildTypeInfo_result [OF assms(3-5)]
  by (auto simp: build_for_def ti_for_def)

section \<open>Values\<close>

text \<open>Without slice expansion the arguments are the placeholders' values, in order.\<close>

lemma bind_one_value:
  "\<not> slice_expansion_on cfg \<Longrightarrow>
   bind_one E rv ti name cfg = and_then (bindValue E rv ti name cfg) (\<lambda>v. Ok (''?'', [v], [v]))"
  by (cases "lookupNamedValue E rv ti name") (auto simp: bind_one_def bindValue_def split: prod.splits)

lemma bind_loop_values:
  assumes "\<not> slice_expansion_on cfg"
  shows "bind_loop E rv ti cfg q lo ps =
     and_then (map_outcome (\<lambda>p. bindValue E rv ti (pl_name p) cfg) ps)
       (\<lambda>vs. Ok (splice q lo (zip ps (replicate (length ps) ''?'')), vs, vs))"
proof (induction ps arbitrary: lo)
  case (Cons p ps)
  show ?case
    by (cases "bindValue E rv ti (pl_name p) cfg"; cases "map_outcome (\<lambda>p. bindValue E rv ti (pl_name p) cfg) ps")
      (simp_all add: bind_one_value [OF assms] Cons.IH)
qed simp

lemma marks_for_replicate:
  "flat (marks_for q (replicate (length (namedPlaces (parsePlaceholders q))) 1)) = replaceNamedInFragment q"
  using replaceNamed_toks [of q] flat_lex [of "replaceNamedInFragment q"]
  by (simp add: marks_for_def length_namedPlaces)

text \<open>A batch over an enclosed group, on the tokens.\<close>

lemma enclosed_result:
  assumes "fst (bindNamedMany E tc q args cfg) = Ok (s, as)" "enclosed q pre grp post"
  shows "lex_query s = pre @ join [Txt '',''] (replicate (length args) ([Txt ''(''] @ map to_pos grp @ [Txt '')''])) @ post"
    and "filter is_named (lex_query s) = []"
    and "filter is_pos (lex_query q) = [] \<Longrightarrow> length (filter is_pos (lex_query s)) = length as"
proof -
  let ?ps = "namedPlaces (parsePlaceholders q)" and ?g = "[Txt ''(''] @ grp @ [Txt '')'']"
  obtain objs ti rows where o: "args \<noteq> []" "?ps \<noteq> []" "list_all2 (\<lambda>a r. derefValue a = Ok r) args objs"
    "map_outcome (bind_group E ti cfg ?ps) objs = Ok rows" "as = concat rows"
    "s = take (group_start q ?ps) q @ join '','' (replicate (length args) (replaceNamedInFragment
        (substr q (group_start q ?ps) (group_end q ?ps)))) @ drop (group_end q ?ps) q"
    using bindNamedMany_shape [OF assms(1)] by metis
  have lex: "lex_query q = pre @ ?g @ post" and out: "filter is_named pre = []" "filter is_named post = []"
    using assms(2) by (simp_all add: enclosed_def)
  have q: "q = flat pre @ flat ?g @ flat post" using flat_lex [of q] lex by simp
  have "take (group_start q ?ps) q = flat pre" "drop (group_end q ?ps) q = flat post"
    "substr q (group_start q ?ps) (group_end q ?ps) = flat ?g"
    unfolding group_bounds [OF assms(2) o(2)] substr_def by (subst q, simp)+
  with o(6) have "s = flat pre @ join '','' (replicate (length args) (replaceNamedInFragment (flat ?g))) @ flat post"
    by simp
  with enclosed_text [OF assms(2), of "length args"] o(1)
  show toks: "lex_query s = pre @ join [Txt '',''] (replicate (length args) ([Txt ''(''] @ map to_pos grp @ [Txt '')''])) @ post"
    by simp
  show "filter is_named (lex_query s) = []"
    using out unfolding toks by (simp add: filter_join filter_map length_filter_to_pos)
  show "length (filter is_pos (lex_query s)) = length as" if "filter is_pos (lex_query q) = []"
  proof -
    have "length (filter is_named grp) = length ?ps" using out by (simp add: length_namedPlaces lex)
    moreover have "filter is_pos pre = []" "filter is_pos grp = []" "filter is_pos post = []"
      using that by (simp_all add: lex)
    ultimately show ?thesis
      using bind_group_rows [OF o(4)] o(5) list_all2_lengthD [OF o(3)] unfolding toks
      by (simp add: filter_join filter_map length_concat map_replicate sum_list_replicate length_filter_to_pos)
  qed
qed

lemma enclosed_single:
  assumes "fst (bindNamedMany E tc q [arg] cfg) = Ok (s, as)" "enclosed q pre grp post"
  shows "s = replaceNamedInFragment q"
proof -
  have "map to_pos pre = pre" "map to_pos post = post"
    using assms(2) by (auto simp: enclosed_def filter_empty_conv to_pos_def intro!: map_idI)
  moreover have "to_pos (Txt x) = Txt x" for x by (simp add: to_pos_def)
  ultimately have "lex_query s = map to_pos (lex_query q)"
    using enclosed_result(1) [OF assms] assms(2) by (simp add: enclosed_def)
  then show ?thesis by (metis flat_lex replaceNamed_lex)
qed

section \<open>Demonstration arguments\<close>

text \<open>A \<open>map[string]any\<close> with the given integers, and the configuration of the witnesses.\<close>

definition int_map :: "(string \<times> int) list \<Rightarrow> rvalue" where
  "int_map kvs =
     RV (TMap TString TAny) (DMap (map (\<lambda>(k, n). (DStr k, DIface (TInt IInt) (DInt n))) kvs))"

definition demo_cfg :: "unit config" where
  "demo_cfg = (defaultConfig demo_tables)\<lparr>placeholder_of := PlaceholderDollar, sliceExpansion := True\<rparr>"

definition demo_user :: rvalue where
  "demo_user = RV (TStruct ''User'') (DStruct [DInt 7, DStr ''bob'', DNil])"

definition plain_env :: genv where
  "plain_env = demo_env\<lparr>ge_fields := demo_fields(''Node'' := [])\<rparr>"

section \<open>Properties\<close>

text \<open>C2: a successful \<open>bindNamed\<close> replaces every named placeholder by one or more question marks
  (\<open>ns\<close> of them) and touches nothing else: the result lexes to the query's tokens with only those
  replaced, has no named placeholder left, and has exactly one positional placeholder per argument
  beside those the query had; the cache-key arguments are one per named placeholder.\<close>

theorem bindNamed_correct:
  assumes "fst (bindNamed E tc q arg cfg) = Ok (s, as, bs)" "namedPlaces (parsePlaceholders q) \<noteq> []"
  shows "(\<exists>ns. length ns = length (namedPlaces (parsePlaceholders q)) \<and> list_all (\<lambda>n. 0 < n) ns
        \<and> length as = sum_list ns
        \<and> lex_query s = subst_toks is_named (map mark_toks ns) (lex_query q))
    \<and> namedPlaces (parsePlaceholders s) = []
    \<and> length (parsePlaceholders s) = length as + length (filter (\<lambda>p. pl_name p = []) (parsePlaceholders q))
    \<and> length bs = length (namedPlaces (parsePlaceholders q))"
proof -
  obtain ns where ns: "length ns = length (namedPlaces (parsePlaceholders q))" "list_all (\<lambda>n. 0 < n) ns"
    "s = flat (marks_for q ns)" "length as = sum_list ns"
    "length bs = length (namedPlaces (parsePlaceholders q))"
    using bindNamed_shape [OF assms] by metis
  have lex: "lex_query s = marks_for q ns" using ns(3) lex_marks [OF ns(2)] by simp
  have "length (filter (\<lambda>p. pl_name p = []) (parsePlaceholders q)) = length (filter is_pos (lex_query q))"
    by (simp add: parsePlaceholders_lex length_sel_pos lex_query_ok)
  then have "namedPlaces (parsePlaceholders s) = []
    \<and> length (parsePlaceholders s) = length as + length (filter (\<lambda>p. pl_name p = []) (parsePlaceholders q))"
    using marks_for_named [OF ns(1)] marks_for_pos [OF ns(1)] lex ns(4)
      length_namedPlaces [of s] length_parsePlaceholders [of s] by simp
  with ns lex show ?thesis unfolding marks_for_def by blast
qed

lemma demo_bindNamed:
  "fst (bindNamed demo_env (\<lambda>_. None) ''a=:a AND b=':a' AND c=?'' (int_map [(''a'', 1)]) (Some demo_cfg))
    = Ok (''a=? AND b=':a' AND c=?'', [RV (TInt IInt) (DInt 1)], [RV (TInt IInt) (DInt 1)])"
  by code_simp

theorem bindNamed_correct_witness:
  "namedPlaces (parsePlaceholders ''a=? AND b=':a' AND c=?'') = []
   \<and> length (parsePlaceholders ''a=? AND b=':a' AND c=?'')
     = 1 + length (filter (\<lambda>p. pl_name p = []) (parsePlaceholders ''a=:a AND b=':a' AND c=?''))"
proof -
  have "namedPlaces (parsePlaceholders ''a=:a AND b=':a' AND c=?'') \<noteq> []" by code_simp
  from bindNamed_correct [OF demo_bindNamed this] show ?thesis by simp
qed

text \<open>C15: without slice expansion the bound text depends only on the query: two bindings of the
  same query that succeed, with whatever arguments, type caches and configurations, give the same
  text, and no value ever reaches the text.\<close>

theorem bindNamed_text_independent:
  assumes "fst (bindNamed E tc q arg cfg) = Ok (s, as, bs)" "fst (bindNamed E' tc' q arg' cfg') = Ok (s', as', bs')"
    "\<not> slice_expansion_on cfg" "\<not> slice_expansion_on cfg'"
  shows "s = s' \<and> (namedPlaces (parsePlaceholders q) \<noteq> [] \<longrightarrow> s = replaceNamedInFragment q
    \<and> length as = length (namedPlaces (parsePlaceholders q)))"
proof (cases "namedPlaces (parsePlaceholders q) = []")
  case True
  with assms(1,2) show ?thesis by (simp add: bindNamed_def Let_def)
next
  case False
  let ?ns = "replicate (length (namedPlaces (parsePlaceholders q))) 1"
  obtain ns where "s = flat (marks_for q ns)" "length as = sum_list ns"
    "\<not> slice_expansion_on cfg \<longrightarrow> ns = ?ns"
    using bindNamed_shape [OF assms(1) False] .
  with assms(3) have s: "s = flat (marks_for q ?ns)"
    "length as = length (namedPlaces (parsePlaceholders q))" by (simp_all add: sum_list_replicate)
  obtain ns' where "s' = flat (marks_for q ns')" "\<not> slice_expansion_on cfg' \<longrightarrow> ns' = ?ns"
    using bindNamed_shape [OF assms(2) False] .
  with assms(4) have "s' = flat (marks_for q ?ns)" by simp
  moreover have "flat (marks_for q ?ns) = replaceNamedInFragment q"
    by (rule marks_for_replicate)
  ultimately show ?thesis using s by simp
qed

lemma demo_text:
  "fst (bindNamed demo_env (\<lambda>_. None) ''a=:a OR a=:a'' (int_map [(''a'', 1)]) (None :: unit config option))
    = Ok (''a=? OR a=?'', [RV (TInt IInt) (DInt 1), RV (TInt IInt) (DInt 1)],
        [RV (TInt IInt) (DInt 1), RV (TInt IInt) (DInt 1)])"
  by code_simp

theorem bindNamed_text_independent_witness:
  "''a=? OR a=?'' = replaceNamedInFragment ''a=:a OR a=:a''"
proof -
  have "\<not> slice_expansion_on (None :: unit config option)" by (simp add: slice_expansion_on_def)
  from bindNamed_text_independent [OF demo_text demo_text this this]
  have "namedPlaces (parsePlaceholders ''a=:a OR a=:a'') \<noteq> [] \<longrightarrow>
    ''a=? OR a=?'' = replaceNamedInFragment ''a=:a OR a=:a''" by blast
  moreover have "namedPlaces (parsePlaceholders ''a=:a OR a=:a'') \<noteq> []" by code_simp
  ultimately show ?thesis by blast
qed

text \<open>C16: \<open>bindNamedMany\<close> returns the arguments row by row: for every object in order, for every
  named placeholder in order, the bound value of that name; and the text is the query with its
  group fragment replaced by one rewritten copy per object.\<close>

theorem bindNamedMany_rows:
  assumes "fst (bindNamedMany E tc q args cfg) = Ok (s, as)"
  shows "\<exists>objs ti rows.
      list_all2 (\<lambda>a r. derefValue a = Ok r) args objs
    \<and> map_outcome (\<lambda>obj. map_outcome (\<lambda>p. bindValue E obj ti (pl_name p) cfg)
          (namedPlaces (parsePlaceholders q))) objs = Ok rows
    \<and> as = concat rows
    \<and> length as = length args * length (namedPlaces (parsePlaceholders q))
    \<and> s = take (group_start q (namedPlaces (parsePlaceholders q))) q
        @ join '','' (replicate (length args) (replaceNamedInFragment
            (substr q (group_start q (namedPlaces (parsePlaceholders q)))
               (group_end q (namedPlaces (parsePlaceholders q))))))
        @ drop (group_end q (namedPlaces (parsePlaceholders q))) q"
proof -
  note shape = bindNamedMany_shape [OF assms]
  obtain objs ti rows where o: "list_all2 (\<lambda>a r. derefValue a = Ok r) args objs"
    "map_outcome (bind_group E ti cfg (namedPlaces (parsePlaceholders q))) objs = Ok rows" "as = concat rows"
    "s = take (group_start q (namedPlaces (parsePlaceholders q))) q
        @ join '','' (replicate (length args) (replaceNamedInFragment
            (substr q (group_start q (namedPlaces (parsePlaceholders q)))
               (group_end q (namedPlaces (parsePlaceholders q))))))
        @ drop (group_end q (namedPlaces (parsePlaceholders q))) q"
    using shape by metis
  have "length as = length args * length (namedPlaces (parsePlaceholders q))"
    using bind_group_rows [OF o(2)] o(3) list_all2_lengthD [OF o(1)] by simp
  with o show ?thesis unfolding bind_group_def by blast
qed

definition demo_rows :: "rvalue list" where
  "demo_rows = [int_map [(''a'', 1), (''b'', 2)], int_map [(''a'', 3), (''b'', 4)]]"

lemma demo_bindNamedMany:
  "fst (bindNamedMany demo_env (\<lambda>_. None) ''VALUES (:a, :b) RETURNING x'' demo_rows (None :: unit config option))
    = Ok (''VALUES (?, ?),(?, ?) RETURNING x'', map (\<lambda>n. RV (TInt IInt) (DInt n)) [1, 2, 3, 4])"
  by code_simp

theorem bindNamedMany_rows_witness:
  "length (map (\<lambda>n. RV (TInt IInt) (DInt n)) [1, 2, 3, 4])
    = length demo_rows * length (namedPlaces (parsePlaceholders ''VALUES (:a, :b) RETURNING x''))"
  using bindNamedMany_rows [OF demo_bindNamedMany] by blast

text \<open>C17: batches, on the tokens. Let the named placeholders of the query stand between SQL parentheses
  \<open>( grp )\<close>, none of them outside, with no other opening parenthesis before the first of them and no other
  closing one after the last (\<open>enclosed\<close>). Then a successful \<open>bindNamedMany\<close> leaves the tokens before and
  after these parentheses as they are and writes \<open>( grp )\<close>, with its named placeholders as question marks,
  once per object, separated by commas; no named placeholder is left, and when the query has no question
  mark of its own it has one per argument.\<close>

theorem bindNamedMany_tokens:
  assumes "fst (bindNamedMany E tc q args cfg) = Ok (s, as)" "enclosed q pre grp post"
  shows "lex_query s = pre @ join [Txt '',''] (replicate (length args) ([Txt ''(''] @ map to_pos grp @ [Txt '')''])) @ post
    \<and> namedPlaces (parsePlaceholders s) = []
    \<and> (filter is_pos (lex_query q) = [] \<longrightarrow> length (parsePlaceholders s) = length as)"
  using enclosed_result [OF assms] length_namedPlaces [of s] length_parsePlaceholders [of s] by simp

lemma demo_enclosed:
  "enclosed ''VALUES (:a, :b) RETURNING x'' (lex_query ''VALUES '')
     [Named ''a'', Txt '','', Txt '' '', Named ''b''] (lex_query '' RETURNING x'')"
  by code_simp

theorem bindNamedMany_tokens_witness:
  "lex_query ''VALUES (?, ?),(?, ?) RETURNING x''
    = lex_query ''VALUES '' @ join [Txt '',''] (replicate 2 ([Txt ''('', Pos, Txt '','', Txt '' '', Pos, Txt '')'']))
      @ lex_query '' RETURNING x''"
  using conjunct1 [OF bindNamedMany_tokens [OF demo_bindNamedMany demo_enclosed]]
  by (simp add: demo_rows_def to_pos_def eval_nat_numeral)

text \<open>The fragment of the group is widened to the nearest parentheses of the text, whatever they
  belong to. With an opening parenthesis inside a literal before the group, the copy starts in the
  middle of that literal, the rewriting of the fragment sees the placeholder inside a literal, and
  the statement is returned with its named placeholder in it, together with an argument.\<close>

lemma bindNamedMany_literal_paren:
  "fst (bindNamedMany demo_env (\<lambda>_. None) ''VALUES ('(', :a)'' [int_map [(''a'', 1)]] (None :: unit config option))
     = Ok (''VALUES ('(', :a)'', [RV (TInt IInt) (DInt 1)])
   \<and> map pl_name (parsePlaceholders ''VALUES ('(', :a)'') = [''a'']"
  by (intro conjI) code_simp+

text \<open>A function call in the list is taken for the list: the opening parenthesis of \<open>now()\<close> is the nearest one
  before the placeholder, and of \<open>lower(:a)\<close> only the argument is repeated.\<close>

lemma bindNamedMany_nested_call:
  "fst (bindNamedMany demo_env (\<lambda>_. None) ''VALUES (now(), :a)'' [int_map [(''a'', 1)], int_map [(''a'', 2)]] (None :: unit config option))
     = Ok (''VALUES (now(), ?),(), ?)'', map (\<lambda>n. RV (TInt IInt) (DInt n)) [1, 2])
   \<and> fst (bindNamedMany demo_env (\<lambda>_. None) ''VALUES (lower(:a))'' [int_map [(''a'', 1)], int_map [(''a'', 2)]] (None :: unit config option))
     = Ok (''VALUES (lower(?),(?))'', map (\<lambda>n. RV (TInt IInt) (DInt n)) [1, 2])"
  by (intro conjI) code_simp+

text \<open>C37: for one object that is not bound as a scalar, a query whose group is enclosed in SQL parentheses
  (\<open>enclosed\<close>), and no slice expansion, \<open>bindNamed\<close> returns the same text and the same arguments as
  \<open>bindNamedMany\<close>.\<close>

theorem bindNamedMany_single:
  assumes "fst (bindNamedMany E tc q [arg] cfg) = Ok (s, as)"
    "enclosed q pre grp post" "derefValue arg = Ok rv" "\<not> isScalarValue E rv" "\<not> slice_expansion_on cfg"
  shows "fst (bindNamed E tc q arg cfg) = Ok (s, as, as)"
proof -
  let ?ps = "namedPlaces (parsePlaceholders q)"
  obtain objs ti rows where o: "?ps \<noteq> []" "list_all2 (\<lambda>a r. derefValue a = Ok r) [arg] objs"
    "map_outcome (bind_group E ti cfg ?ps) objs = Ok rows" "as = concat rows"
    "fst (resolve_objs E tc cfg None [arg]) = Ok (objs, ti)"
    using bindNamedMany_shape [OF assms(1)] by metis
  from o(2) assms(3) have objs: "objs = [rv]" by (auto simp: list_all2_Cons1)
  then have vals: "map_outcome (\<lambda>p. bindValue E rv ti (pl_name p) cfg) ?ps = Ok as"
    using o(3,4) by (auto simp: bind_group_def outcome_iff)
  note s = enclosed_single [OF assms(1,2)]
  have "splice q 0 (zip ?ps (replicate (length ?ps) ''?'')) = s"
    using splice_marks [of "replicate (length ?ps) 1" q] s
    by (simp add: map_replicate marks_for_replicate [unfolded One_nat_def])
  then have loop: "bind_loop E rv ti cfg q 0 ?ps = Ok (s, as, as)"
    using vals by (simp add: bind_loop_values [OF assms(5)])
  from assms(3) derefValue_Ok obtain t d where rv: "rv = RV t d" by blast
  with o(5) assms(3) have k: "kind t = KStruct \<or> kind t = KMap"
    by (auto split: if_splits)
  show ?thesis
  proof (cases "kind t = KStruct")
    case True
    with o(5) assms(3) rv obtain info tc' where "getTypeInfo E tc t cfg = (Ok info, tc')" "ti = Some info"
      by (auto simp: outcome_iff split: prod.splits outcome.splits)
    with True loop assms(3-5) rv o(1) show ?thesis by (auto simp: bindNamed_def Let_def)
  next
    case False
    with k have "kind t = KMap" by simp
    with o(5) assms(3) rv have "ti = None" by (auto simp: outcome_iff)
    with \<open>kind t = KMap\<close> loop assms(3-5) rv o(1) show ?thesis by (auto simp: bindNamed_def Let_def)
  qed
qed

lemma demo_single:
  "fst (bindNamedMany demo_env (\<lambda>_. None) ''VALUES (:a, :b)'' [int_map [(''a'', 1), (''b'', 2)]] (None :: unit config option))
    = Ok (''VALUES (?, ?)'', map (\<lambda>n. RV (TInt IInt) (DInt n)) [1, 2])"
  by code_simp

theorem bindNamedMany_single_witness:
  "fst (bindNamed demo_env (\<lambda>_. None) ''VALUES (:a, :b)'' (int_map [(''a'', 1), (''b'', 2)]) (None :: unit config option))
    = Ok (''VALUES (?, ?)'', map (\<lambda>n. RV (TInt IInt) (DInt n)) [1, 2], map (\<lambda>n. RV (TInt IInt) (DInt n)) [1, 2])"
proof (rule bindNamedMany_single [OF demo_single, where rv = "int_map [(''a'', 1), (''b'', 2)]"])
  show "enclosed ''VALUES (:a, :b)'' (lex_query ''VALUES '') [Named ''a'', Txt '','', Txt '' '', Named ''b''] []" by code_simp
qed (simp_all add: int_map_def derefValue_def isScalarValue_def is_valuer_def basic_kind_def slice_expansion_on_def demo_env_def)

text \<open>Numbering a text whose placeholders are all question marks.\<close>

lemma Rebind_all:
  assumes "style = PlaceholderDollar \<or> style = PlaceholderAt" "filter is_named (lex_query s) = []"
  shows "lex_query (Rebind s style) =
      subst_toks is_pos (map (marker_toks style) [1..<Suc (length (parsePlaceholders s))]) (lex_query s)"
    and "parsePlaceholders (Rebind s style) = []"
proof -
  have m: "length (parsePlaceholders s) = length (filter is_pos (lex_query s))"
    using assms(2) length_parsePlaceholders [of s] by simp
  let ?bl = "map (marker_toks style) [1..<Suc (length (parsePlaceholders s))]"
  have l: "length ?bl = length (filter is_pos (lex_query s))" using m by (simp del: upt_Suc)
  show toks: "lex_query (Rebind s style) = subst_toks is_pos ?bl (lex_query s)"
    using assms(1) m by (subst Rebind_toks) auto
  have "filter is_pos (lex_query (Rebind s style)) = []"
    unfolding toks by (rule subst_toks_removes [OF l]) auto
  moreover have "filter is_named (lex_query (Rebind s style)) = []"
    unfolding toks using assms(2) by (subst subst_toks_filter [OF l]) (auto elim: is_pos.elims)
  ultimately show "parsePlaceholders (Rebind s style) = []" using length_parsePlaceholders [of "Rebind s style"] by simp
qed

lemma unnamed_places: "length (filter (\<lambda>p. pl_name p = []) (parsePlaceholders q)) = length (filter is_pos (lex_query q))"
  by (simp add: parsePlaceholders_lex length_sel_pos lex_query_ok)

text \<open>The argument is a batch: a slice of structs or maps.\<close>

definition is_batch :: "gtype \<Rightarrow> bool" where
  "is_batch t = (kind t = KSlice \<and> (kind (elem_type t) = KStruct \<or> kind (elem_type t) = KMap))"

lemma bindForExec_bound:
  assumes "fst (bindForExec E tc q arg cfg) = Ok b" "derefValue arg = Ok (RV t d)" "namedPlaces (parsePlaceholders q) \<noteq> []"
  shows "bq_boundSQL b = Rebind (bq_bindSQL b) (placeholder_of cfg)"
    and "\<not> is_batch t \<Longrightarrow> \<exists>bs. fst (bindNamed E tc q arg (Some cfg)) = Ok (bq_bindSQL b, bq_args b, bs)"
    and "is_batch t \<Longrightarrow> \<exists>args. fst (bindNamedMany E tc q args (Some cfg)) = Ok (bq_bindSQL b, bq_args b)"
proof -
  have ex: "list_ex (\<lambda>p. pl_name p \<noteq> []) (parsePlaceholders q)"
    using assms(3) by (auto simp: namedPlaces_def list_ex_iff filter_empty_conv)
  have bytes: "\<not> is_batch TBytes" by (simp add: is_batch_def)
  have fin: "bq_boundSQL b = Rebind (bq_bindSQL b) (placeholder_of cfg) \<and> (\<exists>bs. fst r = Ok (bq_bindSQL b, bq_args b, bs))"
    if "fst (finish_bind cfg r) = Ok b" for r
    using that by (auto simp: finish_bind_def outcome_iff)
  have one: "fst (finish_bind cfg (bindNamed E tc q arg (Some cfg))) = Ok b" if "\<not> is_batch t"
    using assms(1,2) ex that by (auto simp: bindForExec_def is_batch_def split: if_splits)
  have many: "fst (finish_bind cfg (case bindNamedMany E tc q (map as_any (slice_elems t d)) (Some cfg) of
      (r, tc') \<Rightarrow> (and_then r (\<lambda>(q, args). Ok (q, args, args)), tc'))) = Ok b" if "is_batch t"
    using assms(1,2) ex that bytes by (auto simp: bindForExec_def is_batch_def split: if_splits prod.splits)
  show "bq_boundSQL b = Rebind (bq_bindSQL b) (placeholder_of cfg)" using one many fin by (cases "is_batch t") blast+
  show "\<exists>bs. fst (bindNamed E tc q arg (Some cfg)) = Ok (bq_bindSQL b, bq_args b, bs)" if "\<not> is_batch t"
    using fin [OF one [OF that]] by blast
  show "\<exists>args. fst (bindNamedMany E tc q args (Some cfg)) = Ok (bq_bindSQL b, bq_args b)" if "is_batch t"
    using fin [OF many [OF that]] by (cases "bindNamedMany E tc q (map as_any (slice_elems t d)) (Some cfg)")
      (auto simp: outcome_iff intro!: exI [of _ "map as_any (slice_elems t d)"])
qed

text \<open>C3: \<open>bindForExec\<close> with a numbered style, a query with a named placeholder, and any argument; when the
  argument is a slice of structs or maps, the group of the query must be enclosed in SQL parentheses. The
  statement sent to the driver is the bound query with its \<open>m\<close> question marks numbered from 1 to \<open>m\<close>,
  everything else untouched, and no placeholder of the library's own syntax is left in it. When every
  placeholder of the query is named, \<open>m\<close> is the number of arguments; otherwise, outside batches, the
  question marks of the query itself are counted besides the arguments.\<close>

theorem bindForExec_numbered:
  assumes "fst (bindForExec E tc q arg cfg) = Ok b" "derefValue arg = Ok (RV t d)"
    "is_batch t \<longrightarrow> enclosed q pre grp post"
    "placeholder_of cfg = PlaceholderDollar \<or> placeholder_of cfg = PlaceholderAt"
    "namedPlaces (parsePlaceholders q) \<noteq> []" "m = length (parsePlaceholders (bq_bindSQL b))"
  shows "lex_query (bq_boundSQL b) =
      subst_toks is_pos (map (marker_toks (placeholder_of cfg)) [1..<Suc m]) (lex_query (bq_bindSQL b))
    \<and> namedPlaces (parsePlaceholders (bq_bindSQL b)) = []
    \<and> parsePlaceholders (bq_boundSQL b) = []
    \<and> (list_all (\<lambda>p. pl_name p \<noteq> []) (parsePlaceholders q) \<longrightarrow> m = length (bq_args b))
    \<and> (\<not> is_batch t \<longrightarrow> m = length (bq_args b) + length (filter (\<lambda>p. pl_name p = []) (parsePlaceholders q)))"
proof -
  note bound = bindForExec_bound [OF assms(1,2,5)]
  have none: "list_all (\<lambda>p. pl_name p \<noteq> []) (parsePlaceholders q) \<longleftrightarrow> filter is_pos (lex_query q) = []"
  proof -
    have "list_all (\<lambda>p. pl_name p \<noteq> []) (parsePlaceholders q)
        \<longleftrightarrow> length (filter (\<lambda>p. pl_name p = []) (parsePlaceholders q)) = 0"
      by (auto simp: list_all_iff filter_empty_conv)
    then show ?thesis unfolding unnamed_places by simp
  qed
  have "filter is_named (lex_query (bq_bindSQL b)) = []
      \<and> (filter is_pos (lex_query q) = [] \<longrightarrow> length (filter is_pos (lex_query (bq_bindSQL b))) = length (bq_args b))
      \<and> (\<not> is_batch t \<longrightarrow> length (filter is_pos (lex_query (bq_bindSQL b)))
            = length (bq_args b) + length (filter is_pos (lex_query q)))"
  proof (cases "is_batch t")
    case True
    then obtain args where "fst (bindNamedMany E tc q args (Some cfg)) = Ok (bq_bindSQL b, bq_args b)" using bound(3) by blast
    with enclosed_result(2,3) [OF this] assms(3) True show ?thesis by blast
  next
    case False
    then obtain bs where bn: "fst (bindNamed E tc q arg (Some cfg)) = Ok (bq_bindSQL b, bq_args b, bs)" using bound(2) by blast
    obtain ns where ns: "length ns = length (namedPlaces (parsePlaceholders q))" "list_all (\<lambda>n. 0 < n) ns"
      "bq_bindSQL b = flat (marks_for q ns)" "length (bq_args b) = sum_list ns"
      using bindNamed_shape [OF bn assms(5)] .
    have "lex_query (bq_bindSQL b) = marks_for q ns" using ns(3) lex_marks [OF ns(2)] by simp
    then show ?thesis using marks_for_named [OF ns(1)] marks_for_pos [OF ns(1)] ns(4) by simp
  qed
  then show ?thesis
    using Rebind_all [of "placeholder_of cfg" "bq_bindSQL b"] bound(1) assms(4,6) none unnamed_places [of q]
      length_namedPlaces [of "bq_bindSQL b"] length_parsePlaceholders [of "bq_bindSQL b"] by auto
qed

definition demo_in :: rvalue where
  "demo_in = RV (TMap TString TAny)
     (DMap [(DStr ''ids'', DIface (TSlice (TInt IInt)) (DSlice [DInt 4, DInt 5])),
            (DStr ''a'', DIface (TInt IInt) (DInt 1))])"

lemma demo_exec:
  "fst (bindForExec demo_env (\<lambda>_. None) ''a=:a AND b='?' AND i IN (:ids)'' demo_in demo_cfg)
    = Ok \<lparr>bq_boundSQL = ''a=$1 AND b='?' AND i IN ($2,$3)'', bq_bindSQL = ''a=? AND b='?' AND i IN (?,?)'',
          bq_bindArgs = [RV (TInt IInt) (DInt 1), RV (TSlice (TInt IInt)) (DSlice [DInt 4, DInt 5])],
          bq_args = map (\<lambda>n. RV (TInt IInt) (DInt n)) [1, 4, 5]\<rparr>"
  by code_simp

text \<open>A slice of maps over an enclosed group, and a query that mixes both kinds of placeholders.\<close>

definition demo_batch :: rvalue where
  "demo_batch = RV (TSlice (TMap TString TAny))
     (DSlice (map (\<lambda>n. DMap [(DStr ''a'', DIface (TInt IInt) (DInt n))]) [1, 2]))"

lemma demo_exec_batch:
  "fst (bindForExec demo_env (\<lambda>_. None) ''VALUES (:a)'' demo_batch demo_cfg)
    = Ok \<lparr>bq_boundSQL = ''VALUES ($1),($2)'', bq_bindSQL = ''VALUES (?),(?)'',
          bq_bindArgs = map (\<lambda>n. RV (TInt IInt) (DInt n)) [1, 2], bq_args = map (\<lambda>n. RV (TInt IInt) (DInt n)) [1, 2]\<rparr>"
  by code_simp

lemma demo_exec_mixed:
  "fst (bindForExec demo_env (\<lambda>_. None) ''a=:a AND b=?'' (int_map [(''a'', 1)]) demo_cfg)
    = Ok \<lparr>bq_boundSQL = ''a=$1 AND b=$2'', bq_bindSQL = ''a=? AND b=?'',
          bq_bindArgs = [RV (TInt IInt) (DInt 1)], bq_args = [RV (TInt IInt) (DInt 1)]\<rparr>"
  by code_simp

theorem bindForExec_numbered_witness:
  "parsePlaceholders ''a=$1 AND b='?' AND i IN ($2,$3)'' = []
   \<and> length (parsePlaceholders ''a=? AND b='?' AND i IN (?,?)'') = 3
   \<and> parsePlaceholders ''VALUES ($1),($2)'' = [] \<and> length (parsePlaceholders ''VALUES (?),(?)'') = 2
   \<and> length (parsePlaceholders ''a=? AND b=?'') = 1 + 1"
proof -
  have cfg: "placeholder_of demo_cfg = PlaceholderDollar \<or> placeholder_of demo_cfg = PlaceholderAt"
    by code_simp
  have map: "\<not> is_batch (TMap TString TAny)" by (simp add: is_batch_def)
  have "derefValue demo_in = Ok (RV (TMap TString TAny)
     (DMap [(DStr ''ids'', DIface (TSlice (TInt IInt)) (DSlice [DInt 4, DInt 5])),
            (DStr ''a'', DIface (TInt IInt) (DInt 1))]))"
    "namedPlaces (parsePlaceholders ''a=:a AND b='?' AND i IN (:ids)'') \<noteq> []"
    "list_all (\<lambda>p. pl_name p \<noteq> []) (parsePlaceholders ''a=:a AND b='?' AND i IN (:ids)'')" by code_simp+
  note expanded = this bindForExec_numbered [OF demo_exec this(1) impI cfg this(2) refl]
  have "derefValue demo_batch = Ok (RV (TSlice (TMap TString TAny))
      (DSlice (map (\<lambda>n. DMap [(DStr ''a'', DIface (TInt IInt) (DInt n))]) [1, 2])))"
    "enclosed ''VALUES (:a)'' (lex_query ''VALUES '') [Named ''a''] []"
    "namedPlaces (parsePlaceholders ''VALUES (:a)'') \<noteq> []"
    "list_all (\<lambda>p. pl_name p \<noteq> []) (parsePlaceholders ''VALUES (:a)'')" by code_simp+
  note batch = this bindForExec_numbered [OF demo_exec_batch this(1) impI cfg this(3) refl, OF this(2)]
  have "derefValue (int_map [(''a'', 1)]) = Ok (RV (TMap TString TAny) (DMap [(DStr ''a'', DIface (TInt IInt) (DInt 1))]))"
    "namedPlaces (parsePlaceholders ''a=:a AND b=?'') \<noteq> []"
    "length (filter (\<lambda>p. pl_name p = []) (parsePlaceholders ''a=:a AND b=?'')) = 1" by code_simp+
  note mixed = this bindForExec_numbered [OF demo_exec_mixed this(1) impI cfg this(2) refl]
  show ?thesis using expanded batch mixed map by auto
qed

text \<open>C27: binding a well-typed argument never panics, whatever the query: the argument may be nil, a
  scalar, a slice, a struct of a type that does not embed itself, or a map whose key type, if of
  string kind, is \<open>string\<close>.\<close>

theorem bindNamed_no_panic:
  assumes "cache_sound E fn_of tc" "fn_of (nm_code (cfg_mapper E cfg)) = nm_fn (cfg_mapper E cfg)"
    "ranked E rank" "\<And>t. rank t < ge_depth E" "wt_rv E arg"
    "\<And>r. derefValue arg = Ok r \<Longrightarrow> plain_keys r" "\<And>x k. ge_json_marshal E x \<noteq> Panic k"
  shows "fst (bindNamed E tc q arg cfg) \<noteq> Panic m"
proof (cases "derefValue arg")
  case (Ok r)
  then obtain t d where r: "r = RV t d" "wt E t d" "kind t \<noteq> KPtr"
    using derefValue_Ok [OF Ok] assms(5) by blast
  have pk: "plain_keys (RV t d)" using assms(6) [OF Ok] r(1) by simp
  have struct: "bind_loop E (RV t d) (Some ti) cfg q 0 ps \<noteq> Panic m"
    if "kind t = KStruct" "getTypeInfo E tc t cfg = (Ok ti, tc')" for ti tc' ps
  proof (rule bind_loop_not_panic [OF _ assms(7)])
    from getTypeInfo_fits [OF assms(1-4) that(1)] that(2) have "ti_for E t (Some ti)" by simp
    then show "lookupNamedValue E (RV t d) (Some ti) name \<noteq> Panic m" for name
      by (rule lookupNamedValue_not_panic [OF r(2) _ pk])
  qed
  have build: "(\<exists>tc'. getTypeInfo E tc t cfg = (Err ErrTagInvalid, tc'))
      \<or> (\<exists>ti tc'. getTypeInfo E tc t cfg = (Ok ti, tc'))" if "kind t = KStruct"
    using getTypeInfo_fits [OF assms(1-4) that] by (cases "getTypeInfo E tc t cfg") auto
  have map: "bind_loop E (RV t d) None cfg q 0 ps \<noteq> Panic m" if "kind t = KMap" for ps
    by (rule bind_loop_not_panic [OF _ assms(7)], rule lookupNamedValue_not_panic [OF r(2) _ pk])
      (simp add: ti_for_def that)
  have slice: "expandSlice E (as_any r) name loc \<noteq> Panic m" if "isDirectExpandSlice r" for name loc
  proof -
    from that r have k: "kind t = KSlice" by (simp add: isDirectExpandSlice_def split: if_splits)
    then have "as_any r = RV t d" using r(1) by simp
    then show ?thesis using deref_not_ptr [OF r(3)] k by (intro expandSlice_not_panic) auto
  qed
  show ?thesis
    using Ok r(1) struct build map slice normalize_False_not_panic [of E]
    by (auto simp: bindNamed_def Let_def outcome_iff split: outcome.splits prod.splits if_splits)
qed (auto simp: bindNamed_def Let_def derefValue_not_panic)

theorem bindNamed_no_panic_witness:
  "\<forall>m. fst (bindNamed plain_env (\<lambda>_. None) ''id=:id AND t=:tags'' demo_user (None :: unit config option)) \<noteq> Panic m"
proof (rule allI, rule bindNamed_no_panic [where fn_of = "\<lambda>_. snakeCase demo_tables"
        and rank = "\<lambda>t. if underlying t = TStruct ''User'' then 1 else 0"])
  show "cache_sound plain_env (\<lambda>_. snakeCase demo_tables) (\<lambda>_. None)" by (simp add: cache_sound_def)
  show "snakeCase demo_tables = nm_fn (cfg_mapper plain_env (None :: unit config option))"
    by (simp add: cfg_mapper_def snake_mapper_def plain_env_def demo_env_def)
  show "ranked plain_env (\<lambda>t. if underlying t = TStruct ''User'' then 1 else 0)"
    using demo_ranked by (simp add: plain_env_def)
  show "wt_rv plain_env demo_user" by code_simp
qed (auto simp: plain_env_def demo_env_def demo_user_def derefValue_def plain_keys_def split: option.splits)

text \<open>a map whose key type is a defined string type passes the kind check of
  \<open>lookupNamedValue\<close> and then panics in \<open>MapIndex\<close>, for every query with a named placeholder, when
  the argument is not a \<open>driver.Valuer\<close>.\<close>

lemma bindNamed_named_key_panics:
  assumes "namedPlaces (parsePlaceholders q) \<noteq> []" "kind kt = KString" "kt \<noteq> TString"
    "\<not> ge_valuer E (TMap kt et)"
  shows "\<exists>m. fst (bindNamed E tc q (RV (TMap kt et) d) cfg) = Panic m"
proof -
  obtain p ps where p: "namedPlaces (parsePlaceholders q) = p # ps"
    using assms(1) by (cases "namedPlaces (parsePlaceholders q)") auto
  have "derefValue (RV (TMap kt et) d) = Ok (RV (TMap kt et) d)"
    by (simp add: derefValue_def deref_not_ptr)
  then show ?thesis
    using assms p
    by (simp add: bindNamed_def Let_def isScalarValue_def is_valuer_def isDirectExpandSlice_def
        basic_kind_def bind_one_def lookupNamedValue_def map_index_def)
qed

lemma bindNamed_named_key_panics_witness:
  "\<exists>m. fst (bindNamed demo_env (\<lambda>_. None) ''a=:a'' (RV (TMap (TNamed ''Key'' TString) TAny) DNil)
          (None :: unit config option)) = Panic m"
proof (rule bindNamed_named_key_panics)
  show "namedPlaces (parsePlaceholders ''a=:a'') \<noteq> []" by code_simp
qed (simp_all add: demo_env_def)

end
