(* ===== verification/Floats.thy ===== *)
theory Floats
  imports GoValues
begin

text \<open>
  The part of IEEE 754 arithmetic the conversions use: reading a bit pattern as a number
  \<open>m * 2^e\<close>, rounding such a number to a format (to nearest, ties to even), truncation to an integer
  and comparison with an integer constant. A format is its number of mantissa bits and of exponent
  bits: 52 and 11 for \<open>float64\<close>, 23 and 8 for \<open>float32\<close>.
\<close>

datatype fval = FNaN bool int | FInf bool | FFin bool int int

definition float_decode :: "nat \<Rightarrow> nat \<Rightarrow> int \<Rightarrow> fval" where
  "float_decode mb eb n =
     (let s = odd (n div 2 ^ (mb + eb)); e = n div 2 ^ mb mod 2 ^ eb; m = n mod 2 ^ mb;
          emin = 2 - 2 ^ (eb - 1) - int mb
      in if e = 2 ^ eb - 1 then (if m = 0 then FInf s else FNaN s m)
         else if e = 0 then FFin s m emin
         else FFin s (2 ^ mb + m) (emin + e - 1))"

function bitlen :: "int \<Rightarrow> int" where
  "bitlen n = (if n \<le> 0 then 0 else bitlen (n div 2) + 1)"
  by pat_completeness auto
termination
  by (relation "measure nat") auto

declare bitlen.simps [simp del]

text \<open>\<open>m * 2^(-sh)\<close>, rounded to the nearest integer, ties to even.\<close>

definition round_shift :: "int \<Rightarrow> int \<Rightarrow> int" where
  "round_shift m sh =
     (if sh \<le> 0 then m * 2 ^ nat (- sh)
      else (let q = m div 2 ^ nat sh; r = m mod 2 ^ nat sh; half = 2 ^ (nat sh - 1)
            in if r > half \<or> (r = half \<and> odd q) then q + 1 else q))"

definition fin_bits :: "nat \<Rightarrow> nat \<Rightarrow> int \<Rightarrow> int \<Rightarrow> int" where
  "fin_bits mb eb m e =
     (if m = 0 then 0
      else (let emin = 2 - 2 ^ (eb - 1) - int mb;
                q = max (e + bitlen m - int (mb + 1)) emin
            in min ((q - emin) * 2 ^ mb + round_shift m (q - e)) ((2 ^ eb - 1) * 2 ^ mb)))"

text \<open>A NaN keeps the leading bits of its payload and becomes quiet.\<close>

definition float_encode :: "nat \<Rightarrow> nat \<Rightarrow> nat \<Rightarrow> fval \<Rightarrow> int" where
  "float_encode mb eb from_mb v =
     (case v of
        FNaN s m \<Rightarrow> (if s then 2 ^ (mb + eb) else 0) + (2 ^ eb - 1) * 2 ^ mb
                     + (let p = (if mb \<le> from_mb then m div 2 ^ (from_mb - mb) else m * 2 ^ (mb - from_mb))
                        in if p < 2 ^ (mb - 1) then p + 2 ^ (mb - 1) else p)
      | FInf s \<Rightarrow> (if s then 2 ^ (mb + eb) else 0) + (2 ^ eb - 1) * 2 ^ mb
      | FFin s m e \<Rightarrow> (if s then 2 ^ (mb + eb) else 0) + fin_bits mb eb m e)"

definition f64_val :: "64 word \<Rightarrow> fval" where
  "f64_val w = float_decode 52 11 (uint w)"

definition f32_val :: "32 word \<Rightarrow> fval" where
  "f32_val w = float_decode 23 8 (uint w)"

text \<open>The Go conversions \<open>float64(float32)\<close>, \<open>float32(float64)\<close> and \<open>float64(integer)\<close>.\<close>

definition f64_of_f32 :: "32 word \<Rightarrow> 64 word" where
  "f64_of_f32 w = word_of_int (float_encode 52 11 23 (f32_val w))"

definition f32_of_f64 :: "64 word \<Rightarrow> 32 word" where
  "f32_of_f64 w = word_of_int (float_encode 23 8 52 (f64_val w))"

definition f64_of_int :: "int \<Rightarrow> 64 word" where
  "f64_of_int i = word_of_int (float_encode 52 11 52 (FFin (i < 0) \<bar>i\<bar> 0))"

text \<open>Truncation toward zero, and \<open>v > n\<close> and \<open>v < n\<close> for an integer constant; a NaN compares false.\<close>

fun ftrunc :: "fval \<Rightarrow> int option" where
  "ftrunc (FFin s m e) =
     (let a = (if 0 \<le> e then m * 2 ^ nat e else m div 2 ^ nat (- e)) in Some (if s then - a else a))"
| "ftrunc _ = None"

definition scaled :: "bool \<Rightarrow> int \<Rightarrow> int \<Rightarrow> int" where
  "scaled s m e = (if s then - m else m) * 2 ^ nat e"

fun fgt :: "fval \<Rightarrow> int \<Rightarrow> bool" where
  "fgt (FFin s m e) n = (scaled s m e > n * 2 ^ nat (- e))"
| "fgt (FInf s) n = (\<not> s)"
| "fgt (FNaN s m) n = False"

fun flt :: "fval \<Rightarrow> int \<Rightarrow> bool" where
  "flt (FFin s m e) n = (scaled s m e < n * 2 ^ nat (- e))"
| "flt (FInf s) n = s"
| "flt (FNaN s m) n = False"

text \<open>Examples: one, the largest \<open>float32\<close>, \<open>2^53 + 1\<close> rounded to even, and a subnormal.\<close>

lemma float_examples:
  "f64_of_int 1 = 0x3FF0000000000000"
  "f64_of_int (- 2) = 0xC000000000000000"
  "f64_of_int (2 ^ 53 + 1) = f64_of_int (2 ^ 53)"
  "f64_of_int (2 ^ 53 + 3) = f64_of_int (2 ^ 53 + 4)"
  "f64_of_int (2 ^ 63 - 1) = 0x43E0000000000000"
  "f64_of_f32 0x7F7FFFFF = 0x47EFFFFFE0000000"
  "f32_of_f64 0x47EFFFFFE0000000 = 0x7F7FFFFF"
  "f64_of_f32 1 = 0x36A0000000000000"
  "f32_of_f64 0x36A0000000000000 = 1"
  "f32_of_f64 0x47EFFFFFF0000000 = 0x7F800000"
  by code_simp+

end
