(* ===== verification/Codec.thy ===== *)
theory Codec
  imports Meta
begin

text \<open>
  \<^verbatim>\<open>cache/codec.go\<close>: the binary encoding of recorded rows, with the variable-length integers of
  \<open>encoding/binary\<close>, and its decoder over a reader with a position. A cell is an \<open>any\<close>: the nil
  value or a value of one of the driver's types. Offsets are 64-bit \<open>int\<close>s and wrap as in Go;
  \<open>mem\<close> is the number of bytes the runtime can allocate for one slice.
\<close>

section \<open>64-bit integers\<close>

definition wrap64 :: "int \<Rightarrow> int" where
  "wrap64 x = (x + 2 ^ 63) mod 2 ^ 64 - 2 ^ 63"

definition int64 :: "int \<Rightarrow> bool" where
  "int64 x = (- (2 ^ 63) \<le> x \<and> x < 2 ^ 63)"

lemma wrap64_id: "int64 x \<Longrightarrow> wrap64 x = x"
  by (simp add: wrap64_def int64_def)

lemma wrap64_range: "int64 (wrap64 x)"
proof -
  have "0 \<le> (x + 2 ^ 63) mod 2 ^ 64" "(x + 2 ^ 63) mod 2 ^ 64 < (2 ^ 64 :: int)" by simp_all
  then show ?thesis by (simp add: wrap64_def int64_def)
qed

lemma wrap64_word: "wrap64 x = sint (word_of_int x :: 64 word)"
  by (simp add: wrap64_def sint_sbintrunc' signed_take_bit_eq_take_bit_shift take_bit_eq_mod)

section \<open>Variable-length integers\<close>

text \<open>\<open>binary.PutUvarint\<close> and \<open>binary.PutVarint\<close>.\<close>

fun put_uvarint :: "nat \<Rightarrow> string" where
  "put_uvarint n =
     (if n < 128 then [char_of n] else char_of (n mod 128 + 128) # put_uvarint (n div 128))"

declare put_uvarint.simps [simp del]

definition zigzag :: "int \<Rightarrow> nat" where
  "zigzag x = (if x < 0 then nat (- 2 * x - 1) else nat (2 * x))"

definition put_varint :: "int \<Rightarrow> string" where
  "put_varint x = put_uvarint (zigzag x)"

text \<open>\<open>binary.Uvarint\<close>: the value and the number of bytes read; 0 when the buffer ends, negative
  when the value overflows 64 bits. \<open>i\<close> is the index, \<open>x\<close> the bits below \<open>s = 7 * i\<close>.\<close>

fun uvarint_loop :: "nat \<Rightarrow> nat \<Rightarrow> nat \<Rightarrow> string \<Rightarrow> nat \<times> int" where
  "uvarint_loop i x s [] = (0, 0)"
| "uvarint_loop i x s (b # buf) =
     (let c = of_char b :: nat in
      if i = 10 then (0, - (int i + 1))
      else if c < 128 then
        (if i = 9 \<and> c > 1 then (0, - (int i + 1)) else (x + c * 2 ^ s, int i + 1))
      else uvarint_loop (i + 1) (x + (c mod 128) * 2 ^ s) (s + 7) buf)"

definition get_uvarint :: "string \<Rightarrow> nat \<times> int" where
  "get_uvarint buf = uvarint_loop 0 0 0 buf"

definition unzigzag :: "nat \<Rightarrow> int" where
  "unzigzag u = (if u mod 2 = 1 then - int (u div 2) - 1 else int (u div 2))"

definition get_varint :: "string \<Rightarrow> int \<times> int" where
  "get_varint buf = (case get_uvarint buf of (u, n) \<Rightarrow> (unzigzag u, n))"

section \<open>The reader\<close>

record reader =
  r_buf :: string
  r_pos :: nat

definition r_eof :: goerr where
  "r_eof = ErrOther ''cache codec: unexpected EOF''"

definition r_byte :: "reader \<Rightarrow> (nat \<times> reader) outcome" where
  "r_byte r =
     (if r_pos r \<ge> length (r_buf r) then Err r_eof
      else Ok (of_char (r_buf r ! r_pos r), r\<lparr>r_pos := r_pos r + 1\<rparr>))"

text \<open>\<open>raw\<close>: \<open>r.pos+n\<close> wraps; a slice whose end is before its start panics.\<close>

definition r_raw :: "int \<Rightarrow> reader \<Rightarrow> (string \<times> reader) outcome" where
  "r_raw n r =
     (let e = wrap64 (int (r_pos r) + n) in
      if n < 0 \<or> e > int (length (r_buf r)) then Err r_eof
      else if e < int (r_pos r) then Panic ''slice bounds out of range''
      else Ok (substr (r_buf r) (r_pos r) (nat e), r\<lparr>r_pos := nat e\<rparr>))"

definition r_bytes :: "int \<Rightarrow> reader \<Rightarrow> (string \<times> reader) outcome" where
  "r_bytes n r = r_raw n r"

definition r_uvarint :: "reader \<Rightarrow> (nat \<times> reader) outcome" where
  "r_uvarint r =
     (case get_uvarint (drop (r_pos r) (r_buf r)) of
        (v, n) \<Rightarrow> if n \<le> 0 then Err (ErrOther ''cache codec: bad uvarint'')
                  else Ok (v, r\<lparr>r_pos := r_pos r + nat n\<rparr>))"

definition r_varint :: "reader \<Rightarrow> (int \<times> reader) outcome" where
  "r_varint r =
     (case get_varint (drop (r_pos r) (r_buf r)) of
        (v, n) \<Rightarrow> if n \<le> 0 then Err (ErrOther ''cache codec: bad varint'')
                  else Ok (v, r\<lparr>r_pos := r_pos r + nat n\<rparr>))"

definition r_remaining :: "reader \<Rightarrow> int" where
  "r_remaining r = int (length (r_buf r)) - int (r_pos r)"

section \<open>Cells\<close>

text \<open>\<open>math.Float64bits\<close> in little-endian order, and back.\<close>

fun put_le :: "nat \<Rightarrow> nat \<Rightarrow> string" where
  "put_le 0 n = []"
| "put_le (Suc k) n = char_of (n mod 256) # put_le k (n div 256)"

fun get_le :: "string \<Rightarrow> nat" where
  "get_le [] = 0"
| "get_le (c # cs) = of_char c + 256 * get_le cs"

text \<open>\<open>UnixNano\<close> wraps outside the years 1678 to 2262; \<open>Zone\<close> gives the offset in seconds.\<close>

definition unix_nano :: "gtime \<Rightarrow> int" where
  "unix_nano t = wrap64 (t_sec t * 1000000000 + int (t_nsec t))"

definition zone_offset :: "gtime \<Rightarrow> int" where
  "zone_offset t = (case t_loc t of LocUTC \<Rightarrow> 0 | LocZone n off \<Rightarrow> off)"

text \<open>Go's \<open>/\<close> truncates.\<close>

definition quot_go :: "int \<Rightarrow> int \<Rightarrow> int" where
  "quot_go a b = (if a < 0 then - ((- a) div b) else a div b)"

definition err_cell :: goerr where
  "err_cell = ErrOther ''cache codec: unsupported cell type''"

definition writeCell :: "rvalue \<Rightarrow> string outcome" where
  "writeCell v =
     (case v of
        Invalid \<Rightarrow> Ok [char_of (0 :: nat)]
      | RV t d \<Rightarrow>
          (if t = TInt I64 then
             (case d of DInt n \<Rightarrow> Ok (char_of (1 :: nat) # put_varint n) | _ \<Rightarrow> Err err_cell)
           else if t = TFloat64 then
             (case d of DFloat64 w \<Rightarrow> Ok (char_of (2 :: nat) # put_le 8 (unat w)) | _ \<Rightarrow> Err err_cell)
           else if t = TBool then
             (case d of DBool b \<Rightarrow> Ok [char_of (3 :: nat), char_of (if b then 1 else 0 :: nat)]
              | _ \<Rightarrow> Err err_cell)
           else if t = TString then
             (case d of DStr s \<Rightarrow> Ok (char_of (4 :: nat) # put_uvarint (length s) @ s) | _ \<Rightarrow> Err err_cell)
           else if t = TBytes then
             (case d of
                DBytes s \<Rightarrow> Ok (char_of (5 :: nat) # put_uvarint (length s) @ s)
              | DNil \<Rightarrow> Ok (char_of (5 :: nat) # put_uvarint 0)
              | _ \<Rightarrow> Err err_cell)
           else if t = TTime then
             (case d of
                DTime g \<Rightarrow>
                  Ok (char_of (6 :: nat) # put_varint (unix_nano g) @ put_varint (quot_go (zone_offset g) 60))
              | _ \<Rightarrow> Err err_cell)
           else Err err_cell))"

text \<open>\<open>int(l)\<close> of a \<open>uint64\<close>.\<close>

definition int_of_u64 :: "nat \<Rightarrow> int" where
  "int_of_u64 n = wrap64 (int n)"

definition decoded_time :: "int \<Rightarrow> int \<Rightarrow> gtime" where
  "decoded_time nano offMin =
     \<lparr>t_sec = nano div 1000000000, t_nsec = nat (nano mod 1000000000),
      t_loc = LocZone [] (wrap64 (offMin * 60))\<rparr>"

definition readCell :: "reader \<Rightarrow> (rvalue \<times> reader) outcome" where
  "readCell r =
     and_then (r_byte r)
       (\<lambda>(tag, r).
          if tag = 0 then Ok (Invalid, r)
          else if tag = 1 then and_then (r_varint r) (\<lambda>(n, r). Ok (RV (TInt I64) (DInt n), r))
          else if tag = 2 then and_then (r_raw 8 r) (\<lambda>(b, r). Ok (RV TFloat64 (DFloat64 (of_nat (get_le b))), r))
          else if tag = 3 then and_then (r_byte r) (\<lambda>(b, r). Ok (RV TBool (DBool (b \<noteq> 0)), r))
          else if tag = 4 then
            and_then (r_uvarint r) (\<lambda>(l, r). and_then (r_bytes (int_of_u64 l) r)
              (\<lambda>(b, r). Ok (RV TString (DStr b), r)))
          else if tag = 5 then
            and_then (r_uvarint r) (\<lambda>(l, r). and_then (r_bytes (int_of_u64 l) r)
              (\<lambda>(b, r). Ok (RV TBytes (DBytes b), r)))
          else if tag = 6 then
            and_then (r_varint r) (\<lambda>(nano, r). and_then (r_varint r)
              (\<lambda>(offMin, r). Ok (RV TTime (DTime (decoded_time nano offMin)), r)))
          else Err (ErrOther ''cache codec: unknown cell tag''))"

section \<open>Encode and Decode\<close>

record row_data =
  rd_columns :: "string list"
  rd_rows :: "rvalue list list"

definition codec_header :: string where
  "codec_header = [char_of (0x52 :: nat), char_of (0x53 :: nat), char_of (1 :: nat)]"

definition write_column :: "string \<Rightarrow> string" where
  "write_column c = put_uvarint (length c) @ c"

definition write_row :: "nat \<Rightarrow> rvalue list \<Rightarrow> string outcome" where
  "write_row n row =
     (if length row \<noteq> n then Err (ErrOther ''cache codec: row length'')
      else and_then (map_outcome writeCell row) (\<lambda>bs. Ok (concat bs)))"

definition Encode :: "row_data \<Rightarrow> string outcome" where
  "Encode rd =
     and_then (map_outcome (write_row (length (rd_columns rd))) (rd_rows rd))
       (\<lambda>rows. Ok (codec_header @ put_uvarint (length (rd_columns rd))
                   @ concat (map write_column (rd_columns rd))
                   @ put_uvarint (length (rd_rows rd)) @ concat rows))"

text \<open>\<open>make([]T, 0, n)\<close>: the runtime panics when the array does not fit in memory.\<close>

definition alloc :: "nat \<Rightarrow> nat \<Rightarrow> nat \<Rightarrow> unit outcome" where
  "alloc mem sz n = (if n * sz > mem then Panic ''makeslice: cap out of range'' else Ok ())"

fun read_columns :: "nat \<Rightarrow> reader \<Rightarrow> (string list \<times> reader) outcome" where
  "read_columns 0 r = Ok ([], r)"
| "read_columns (Suc n) r =
     and_then (r_uvarint r) (\<lambda>(l, r). and_then (r_bytes (int_of_u64 l) r)
       (\<lambda>(s, r). and_then (read_columns n r) (\<lambda>(cs, r). Ok (s # cs, r))))"

fun read_cells :: "nat \<Rightarrow> reader \<Rightarrow> (rvalue list \<times> reader) outcome" where
  "read_cells 0 r = Ok ([], r)"
| "read_cells (Suc n) r =
     and_then (readCell r) (\<lambda>(v, r). and_then (read_cells n r) (\<lambda>(vs, r). Ok (v # vs, r)))"

fun read_rows :: "nat \<Rightarrow> nat \<Rightarrow> reader \<Rightarrow> (rvalue list list \<times> reader) outcome" where
  "read_rows 0 n r = Ok ([], r)"
| "read_rows (Suc k) n r =
     and_then (read_cells n r) (\<lambda>(row, r). and_then (read_rows k n r) (\<lambda>(rows, r). Ok (row # rows, r)))"

text \<open>Everything \<open>Decode\<close> reads after the header, before the check for trailing bytes.\<close>

definition read_body :: "nat \<Rightarrow> reader \<Rightarrow> (row_data \<times> reader) outcome" where
  "read_body mem r =
     and_then (r_uvarint r) (\<lambda>(nCols, r).
     and_then (alloc mem 16 nCols) (\<lambda>_.
     and_then (read_columns nCols r) (\<lambda>(cols, r).
     and_then (r_uvarint r) (\<lambda>(nRows, r).
     and_then (alloc mem 24 nRows) (\<lambda>_.
     and_then (read_rows nRows (length cols) r) (\<lambda>(rows, r).
       Ok (\<lparr>rd_columns = cols, rd_rows = rows\<rparr>, r)))))))"

definition Decode :: "nat \<Rightarrow> string \<Rightarrow> row_data outcome" where
  "Decode mem data =
     (if \<not> has_prefix data codec_header then Err (ErrOther ''cache codec: invalid header'')
      else and_then (read_body mem \<lparr>r_buf = drop 3 data, r_pos = 0\<rparr>)
        (\<lambda>(rd, r). if r_remaining r \<noteq> 0 then Err (ErrOther ''cache codec: trailing bytes'') else Ok rd))"

section \<open>Round trip of the integers\<close>

lemma of_char_mod: "n < 256 \<Longrightarrow> of_char (char_of (n :: nat)) = (n :: nat)"
  by simp

lemma uvarint_loop_put:
  "n < 2 ^ (64 - 7 * i) \<Longrightarrow> i \<le> 9 \<Longrightarrow>
   uvarint_loop i x (7 * i) (put_uvarint n @ rest) = (x + n * 2 ^ (7 * i), int (i + length (put_uvarint n)))"
proof (induction n arbitrary: i x rule: put_uvarint.induct)
  case (1 n)
  show ?case
  proof (cases "n < 128")
    case True
    have "i = 9 \<Longrightarrow> n \<le> 1" using "1.prems"(1) by simp
    have put: "put_uvarint n = [char_of n]" using True by (subst put_uvarint.simps) simp
    have c: "of_char (char_of n :: char) = n" using True by simp
    have "\<not> (i = 9 \<and> n > 1)" "i \<noteq> 10" using \<open>i = 9 \<Longrightarrow> n \<le> 1\<close> "1.prems"(2) by auto
    with True show ?thesis by (simp add: put c Let_def)
  next
    case False
    have i: "i \<le> 8"
    proof (rule ccontr)
      assume "\<not> i \<le> 8"
      with "1.prems"(2) have "i = 9" by simp
      with "1.prems"(1) False show False by simp
    qed
    then have e: "64 - 7 * i = 7 + (64 - 7 * (i + 1))" by simp
    have "n < 128 * 2 ^ (64 - 7 * (i + 1))" using "1.prems"(1) unfolding e power_add by simp
    then have lt: "n div 128 < 2 ^ (64 - 7 * (i + 1))" by (simp add: less_mult_imp_div_less mult.commute)
    have i9: "i + 1 \<le> 9" using i by simp
    have m: "n mod 128 * 2 ^ (7 * i) + n div 128 * 2 ^ (7 * (i + 1)) = n * 2 ^ (7 * i)"
    proof -
      have p: "2 ^ (7 * (i + 1)) = (128 * 2 ^ (7 * i) :: nat)" by (simp add: power_add)
      have "n mod 128 * 2 ^ (7 * i) + n div 128 * (128 * 2 ^ (7 * i)) = (n mod 128 + n div 128 * 128) * 2 ^ (7 * i)"
        by (simp only: distrib_right mult.assoc)
      then show ?thesis unfolding p by (simp only: mod_div_mult_eq)
    qed
    note IH = "1.IH" [OF False lt i9, of "x + n mod 128 * 2 ^ (7 * i)"]
    have "n mod 128 + 128 < 256" by simp
    then have c: "of_char (char_of (n mod 128 + 128) :: char) = (n mod 128 + 128 :: nat)"
      by (rule of_char_mod)
    have put: "put_uvarint n = char_of (n mod 128 + 128) # put_uvarint (n div 128)"
      using False by (subst put_uvarint.simps) simp
    have "uvarint_loop i x (7 * i) (put_uvarint n @ rest)
        = uvarint_loop (i + 1) (x + n mod 128 * 2 ^ (7 * i)) (7 * (i + 1)) (put_uvarint (n div 128) @ rest)"
      unfolding put using i by (simp only: append_Cons uvarint_loop.simps c Let_def) (simp add: add.commute)
    with IH m show ?thesis by (simp add: put add.assoc)
  qed
qed

lemma put_uvarint_nonempty: "put_uvarint n \<noteq> []"
  by (subst put_uvarint.simps) simp

lemma get_put_uvarint: "n < 2 ^ 64 \<Longrightarrow> get_uvarint (put_uvarint n @ rest) = (n, int (length (put_uvarint n)))"
  using uvarint_loop_put [of n 0 0 rest] by (simp add: get_uvarint_def)

lemma unzigzag_zigzag [simp]: "unzigzag (zigzag x) = x"
proof (cases "x < 0")
  case True
  then have "zigzag x = 2 * nat (- x - 1) + 1" by (simp add: zigzag_def)
  with True show ?thesis by (simp add: unzigzag_def)
next
  case False
  then have "zigzag x = 2 * nat x" by (simp add: zigzag_def)
  with False show ?thesis by (simp add: unzigzag_def)
qed

lemma zigzag_lt: "int64 x \<Longrightarrow> zigzag x < 2 ^ 64"
  by (auto simp: int64_def zigzag_def nat_less_iff)

lemma get_put_varint: "int64 x \<Longrightarrow> get_varint (put_varint x @ rest) = (x, int (length (put_varint x)))"
  using get_put_uvarint [OF zigzag_lt] by (simp add: get_varint_def put_varint_def)

lemma get_put_le: "n < 256 ^ k \<Longrightarrow> get_le (put_le k n) = n"
proof (induction k arbitrary: n)
  case (Suc k)
  then have "n div 256 < 256 ^ k" by (simp add: less_mult_imp_div_less mult.commute)
  with Suc.IH show ?case by simp
qed simp

lemma length_put_le [simp]: "length (put_le k n) = k"
  by (induction k arbitrary: n) auto

section \<open>Reading what was written\<close>

text \<open>\<open>at r s\<close>: the unread bytes of \<open>r\<close> are \<open>s\<close>, in a buffer whose length is an \<open>int\<close>.\<close>

definition at :: "reader \<Rightarrow> string \<Rightarrow> bool" where
  "at r s = (r_pos r \<le> length (r_buf r) \<and> drop (r_pos r) (r_buf r) = s \<and> length (r_buf r) < 2 ^ 63)"

definition adv :: "reader \<Rightarrow> nat \<Rightarrow> reader" where
  "adv r n = r\<lparr>r_pos := r_pos r + n\<rparr>"

lemma at_length: "at r s \<Longrightarrow> length (r_buf r) = r_pos r + length s"
  by (auto simp: at_def)

lemma at_adv: "at r (e @ s) \<Longrightarrow> at (adv r (length e)) s"
proof -
  assume a: "at r (e @ s)"
  then have "drop (r_pos r) (r_buf r) = e @ s" by (simp add: at_def)
  then have "drop (length e) (drop (r_pos r) (r_buf r)) = s" by simp
  then have "drop (r_pos r + length e) (r_buf r) = s" by (simp add: add.commute)
  with a at_length [OF a] show ?thesis by (simp add: at_def adv_def)
qed

lemma adv_adv [simp]: "adv (adv r m) n = adv r (m + n)"
  by (simp add: adv_def add.assoc)

lemma read_byte: "at r (c # s) \<Longrightarrow> r_byte r = Ok (of_char c, adv r (Suc 0))"
proof -
  assume a: "at r (c # s)"
  then have "r_pos r < length (r_buf r)" using at_length [OF a] by simp
  with a show ?thesis by (auto simp: r_byte_def at_def adv_def) (metis nth_via_drop)
qed

lemma read_raw:
  assumes "at r (e @ s)"
  shows "r_raw (int (length e)) r = Ok (e, adv r (length e))"
proof -
  have l: "length (r_buf r) = r_pos r + (length e + length s)" using at_length [OF assms] by simp
  have "int (length (r_buf r)) < 2 ^ 63" using assms by (simp add: at_def)
  then have "int64 (int (r_pos r) + int (length e))" using l by (simp add: int64_def)
  then have w: "wrap64 (int (r_pos r) + int (length e)) = int (r_pos r + length e)" by (simp add: wrap64_id)
  have "substr (r_buf r) (r_pos r) (r_pos r + length e) = e"
    using assms by (simp add: substr_def at_def)
  then show ?thesis using l by (simp add: r_raw_def Let_def w adv_def nat_int_add)
qed

lemma read_uvarint: "at r (put_uvarint n @ s) \<Longrightarrow> n < 2 ^ 64 \<Longrightarrow> r_uvarint r = Ok (n, adv r (length (put_uvarint n)))"
  using get_put_uvarint [of n s] put_uvarint_nonempty [of n] by (auto simp: r_uvarint_def at_def adv_def)

lemma read_varint: "at r (put_varint x @ s) \<Longrightarrow> int64 x \<Longrightarrow> r_varint r = Ok (x, adv r (length (put_varint x)))"
  using get_put_varint [of x s] put_uvarint_nonempty [of "zigzag x"]
  by (auto simp: r_varint_def at_def adv_def put_varint_def)

text \<open>The value a written cell is read back as: a nil byte slice comes back empty, a time in a
  fixed zone of whole minutes.\<close>

definition norm_cell :: "rvalue \<Rightarrow> rvalue" where
  "norm_cell v =
     (case v of
        RV t DNil \<Rightarrow> RV t (DBytes [])
      | RV t (DTime g) \<Rightarrow> RV t (DTime (decoded_time (unix_nano g) (quot_go (zone_offset g) 60)))
      | _ \<Rightarrow> v)"

text \<open>A cell that can exist: integers in range, strings no longer than the address space.\<close>

definition cell_ok :: "rvalue \<Rightarrow> bool" where
  "cell_ok v =
     (case v of
        RV t (DInt n) \<Rightarrow> int64 n
      | RV t (DTime g) \<Rightarrow> int64 (zone_offset g)
      | _ \<Rightarrow> True)"

lemma quot_go_int64: "int64 x \<Longrightarrow> int64 (quot_go x 60)"
  unfolding int64_def quot_go_def by auto

lemma at_app: "at r s \<Longrightarrow> r_pos r + length s < 2 ^ 63"
proof -
  assume a: "at r s"
  then have "length (r_buf r) < 2 ^ 63" unfolding at_def by blast
  then show ?thesis unfolding at_length [OF a] .
qed

lemma int_of_u64_small: "n < 2 ^ 63 \<Longrightarrow> int_of_u64 n = int n"
  by (simp add: int_of_u64_def wrap64_id int64_def)

lemma read_string:
  assumes "at r (put_uvarint (length e) @ e @ s)"
  shows "and_then (r_uvarint r) (\<lambda>(l, r). and_then (r_bytes (int_of_u64 l) r) f)
    = f (e, adv r (length (put_uvarint (length e) @ e)))"
proof -
  have lt: "length e < 2 ^ 63" using at_app [OF assms] by simp
  then have "length e < 2 ^ 64" by simp
  from read_uvarint [OF assms this] read_raw [OF at_adv [OF assms]] lt show ?thesis
    by (simp add: r_bytes_def int_of_u64_small)
qed

lemma at_Cons: "at r (c # s) \<Longrightarrow> at (adv r (Suc 0)) s"
  using at_adv [of r "[c]" s] by simp

text \<open>What a cell is written as.\<close>

lemma writeCellE:
  assumes "writeCell v = Ok e"
  obtains (null) "v = Invalid" "e = [char_of (0 :: nat)]"
    | (int) n where "v = RV (TInt I64) (DInt n)" "e = char_of (1 :: nat) # put_varint n"
    | (float) w where "v = RV TFloat64 (DFloat64 w)" "e = char_of (2 :: nat) # put_le 8 (unat w)"
    | (bool) b where "v = RV TBool (DBool b)" "e = [char_of (3 :: nat), char_of (if b then 1 else 0 :: nat)]"
    | (str) u where "v = RV TString (DStr u)" "e = char_of (4 :: nat) # put_uvarint (length u) @ u"
    | (bytes) u where "v = RV TBytes (DBytes u) \<or> v = RV TBytes DNil \<and> u = []" "e = char_of (5 :: nat) # put_uvarint (length u) @ u"
    | (time) g where "v = RV TTime (DTime g)"
        "e = char_of (6 :: nat) # put_varint (unix_nano g) @ put_varint (quot_go (zone_offset g) 60)"
proof (cases v)
  case Invalid
  with assms null show thesis by (simp add: writeCell_def)
next
  case (RV t d)
  with assms int float bool str time bytes bytes [of "[]"] show thesis
    by (cases d) (simp_all add: writeCell_def split: if_split_asm)
qed

lemma read_cell:
  assumes "writeCell v = Ok e" "at r (e @ s)" "cell_ok v"
  shows "readCell r = Ok (norm_cell v, adv r (length e))"
  using assms(1)
proof (cases rule: writeCellE)
  case null
  with assms(2) show ?thesis by (simp add: readCell_def norm_cell_def read_byte)
next
  case (int n)
  with assms(2) have a: "at r (char_of (1 :: nat) # put_varint n @ s)" by simp
  have "int64 n" using assms(3) int by (simp add: cell_ok_def)
  with int show ?thesis by (simp add: readCell_def norm_cell_def read_byte [OF a] read_varint [OF at_Cons [OF a]])
next
  case (float w)
  with assms(2) have a: "at r (char_of (2 :: nat) # put_le 8 (unat w) @ s)" by simp
  have "unat w < 256 ^ 8" using unsigned_less [of w] by simp
  with float read_raw [OF at_Cons [OF a]] show ?thesis
    by (simp add: readCell_def norm_cell_def read_byte [OF a] get_put_le)
next
  case (bool b)
  with assms(2) have a: "at r (char_of (3 :: nat) # char_of (if b then 1 else 0 :: nat) # s)" by simp
  show ?thesis using bool read_byte [OF at_Cons [OF a]] by (simp add: readCell_def norm_cell_def read_byte [OF a])
next
  case (str u)
  with assms(2) have a: "at r (char_of (4 :: nat) # put_uvarint (length u) @ u @ s)" by simp
  from str show ?thesis by (simp add: readCell_def norm_cell_def read_byte [OF a] read_string [OF at_Cons [OF a]])
next
  case (bytes u)
  with assms(2) have a: "at r (char_of (5 :: nat) # put_uvarint (length u) @ u @ s)" by simp
  from bytes show ?thesis
    by (auto simp: readCell_def norm_cell_def read_byte [OF a] read_string [OF at_Cons [OF a]])
next
  case (time g)
  let ?n = "unix_nano g" and ?o = "quot_go (zone_offset g) 60"
  from time assms(2) have a: "at r (char_of (6 :: nat) # put_varint ?n @ put_varint ?o @ s)" by simp
  note a1 = at_Cons [OF a]
  have "int64 ?n" by (simp add: unix_nano_def wrap64_range)
  moreover have "int64 ?o" using assms(3) time by (simp add: cell_ok_def quot_go_int64)
  ultimately show ?thesis
    using time at_adv [OF a1] by (simp add: readCell_def norm_cell_def read_byte [OF a] read_varint [OF a1] read_varint)
qed

lemma read_columns_written:
  "at r (concat (map write_column cs) @ s) \<Longrightarrow>
   read_columns (length cs) r = Ok (cs, adv r (length (concat (map write_column cs))))"
proof (induction cs arbitrary: r)
  case Nil
  then show ?case by (simp add: adv_def)
next
  case (Cons c cs)
  let ?u = "put_uvarint (length c)"
  have c: "write_column c = ?u @ c" by (simp add: write_column_def)
  have a: "at r (?u @ c @ concat (map write_column cs) @ s)" using Cons.prems by (simp add: c)
  have "at r ((?u @ c) @ concat (map write_column cs) @ s)" using a by simp
  from Cons.IH [OF at_adv [OF this]] show ?case
    by (simp add: read_string [OF a] c add.assoc)
qed

lemma read_cells_written:
  "map_outcome writeCell row = Ok bs \<Longrightarrow> at r (concat bs @ s) \<Longrightarrow> list_all cell_ok row \<Longrightarrow>
   read_cells (length row) r = Ok (map norm_cell row, adv r (length (concat bs)))"
proof (induction row arbitrary: r bs)
  case Nil
  then show ?case by (simp add: adv_def)
next
  case (Cons v row)
  then obtain e es where e: "writeCell v = Ok e" "map_outcome writeCell row = Ok es" "bs = e # es"
    by (auto simp: outcome_iff)
  with Cons.prems have a: "at r (e @ concat es @ s)" by simp
  from Cons.IH [OF e(2) at_adv [OF a]] read_cell [OF e(1) a] Cons.prems(3) e(3) show ?case by simp
qed

lemma read_rows_written:
  "map_outcome (write_row n) rows = Ok bs \<Longrightarrow> at r (concat bs @ s) \<Longrightarrow> list_all (list_all cell_ok) rows \<Longrightarrow>
   read_rows (length rows) n r = Ok (map (map norm_cell) rows, adv r (length (concat bs)))"
proof (induction rows arbitrary: r bs)
  case Nil
  then show ?case by (simp add: adv_def)
next
  case (Cons row rows)
  then obtain x es where x: "write_row n row = Ok x" "map_outcome (write_row n) rows = Ok es" "bs = x # es"
    by (auto simp: outcome_iff)
  from x(1) obtain cells where "length row = n" "map_outcome writeCell row = Ok cells" "x = concat cells"
    by (auto simp: outcome_iff write_row_def split: if_splits)
  with x(2,3) have e: "length row = n" "map_outcome writeCell row = Ok cells"
    "map_outcome (write_row n) rows = Ok es" "bs = concat cells # es" by simp_all
  with Cons.prems have a: "at r (concat cells @ concat es @ s)" by simp
  have "list_all cell_ok row" using Cons.prems(3) by simp
  from read_cells_written [OF e(2) a this] Cons.IH [OF e(3) at_adv [OF a]] Cons.prems(3) e(1,4)
  show ?case by simp
qed

definition norm_data :: "row_data \<Rightarrow> row_data" where
  "norm_data rd = rd\<lparr>rd_rows := map (map norm_cell) (rd_rows rd)\<rparr>"

text \<open>Data that can be decoded where it was encoded: its cells exist, and its two outer slices fit
  in memory.\<close>

definition data_ok :: "nat \<Rightarrow> row_data \<Rightarrow> bool" where
  "data_ok mem rd =
     (list_all (list_all cell_ok) (rd_rows rd)
      \<and> length (rd_columns rd) * 16 \<le> mem \<and> length (rd_rows rd) * 24 \<le> mem
      \<and> length (rd_columns rd) < 2 ^ 63 \<and> length (rd_rows rd) < 2 ^ 63)"

lemma Decode_Encode:
  assumes "Encode rd = Ok b" "length b < 2 ^ 63" "data_ok mem rd"
  shows "Decode mem b = Ok (norm_data rd)"
proof -
  let ?cs = "rd_columns rd"
  let ?c = "concat (map write_column ?cs)" and ?un = "put_uvarint (length ?cs)"
    and ?ur = "put_uvarint (length (rd_rows rd))"
  from assms(1) obtain rows where rows: "map_outcome (write_row (length ?cs)) (rd_rows rd) = Ok rows"
    and b: "b = codec_header @ ?un @ ?c @ ?ur @ concat rows"
    by (auto simp: Encode_def outcome_iff)
  have lc: "length ?cs < 2 ^ 64" and lr: "length (rd_rows rd) < 2 ^ 64"
    using assms(3) by (simp_all add: data_ok_def)
  let ?r = "\<lparr>r_buf = ?un @ ?c @ ?ur @ concat rows @ [], r_pos = 0\<rparr>"
  have a0: "at ?r (?un @ ?c @ ?ur @ concat rows @ [])" using assms(2) b by (simp add: at_def)
  have a1: "at (adv ?r (length ?un)) (?c @ ?ur @ concat rows @ [])" by (rule at_adv [OF a0])
  have a2: "at (adv ?r (length ?un + length ?c)) (?ur @ concat rows @ [])" using at_adv [OF a1] by simp
  have a3: "at (adv ?r (length ?un + length ?c + length ?ur)) (concat rows @ [])" using at_adv [OF a2] by simp
  have d: "data_ok mem rd" by (rule assms(3))
  have body: "read_body mem ?r = Ok (norm_data rd,
      adv ?r (length ?un + length ?c + length ?ur + length (concat rows)))"
    using d read_uvarint [OF a0 lc] read_columns_written [OF a1] read_uvarint [OF a2 lr]
      read_rows_written [OF rows a3]
    unfolding read_body_def
    by (simp add: alloc_def data_ok_def norm_data_def mult.commute)
  have hdr: "has_prefix b codec_header" by (simp add: b)
  have "drop 3 b = r_buf ?r" by (simp add: b codec_header_def)
  with body hdr show ?thesis
    by (simp add: Decode_def) (simp add: adv_def r_remaining_def)
qed

section \<open>Reading more than was written\<close>

text \<open>A reading operation is stable when, on success, it stays in the buffer and gives the same on a
  longer buffer.\<close>

definition ext :: "string \<Rightarrow> reader \<Rightarrow> reader" where
  "ext z r = r\<lparr>r_buf := r_buf r @ z\<rparr>"

definition stable :: "(reader \<Rightarrow> ('a \<times> reader) outcome) \<Rightarrow> bool" where
  "stable f =
     (\<forall>r v r' z. r_pos r \<le> length (r_buf r) \<longrightarrow> f r = Ok (v, r') \<longrightarrow>
        r_buf r' = r_buf r \<and> r_pos r' \<le> length (r_buf r) \<and> f (ext z r) = Ok (v, ext z r'))"

lemma stableD:
  "stable f \<Longrightarrow> r_pos r \<le> length (r_buf r) \<Longrightarrow> f r = Ok (v, r') \<Longrightarrow>
   r_buf r' = r_buf r \<and> r_pos r' \<le> length (r_buf r) \<and> f (ext z r) = Ok (v, ext z r')"
  unfolding stable_def by blast

named_theorems stable_intro \<open>reading operations built from stable ones\<close>

lemma stable_Ok [stable_intro]: "stable (\<lambda>r. Ok (v, r))"
  by (simp add: stable_def)

lemma stable_Err [stable_intro]: "stable (\<lambda>r. Err e)"
  by (simp add: stable_def)

lemma stable_Panic [stable_intro]: "stable (\<lambda>r. Panic m)"
  by (simp add: stable_def)

lemma stable_if [stable_intro]: "stable f \<Longrightarrow> stable g \<Longrightarrow> stable (\<lambda>r. if c then f r else g r)"
  by (cases c) simp_all

lemma stable_seq [stable_intro]:
  assumes "stable f" "\<And>v. stable (g v)"
  shows "stable (\<lambda>r. and_then (f r) (\<lambda>(v, r). g v r))"
  unfolding stable_def
proof (intro allI impI)
  fix r w r'' z
  assume r: "r_pos r \<le> length (r_buf r)" and "and_then (f r) (\<lambda>(v, r). g v r) = Ok (w, r'')"
  then obtain v r' where f: "f r = Ok (v, r')" and g: "g v r' = Ok (w, r'')" by (auto simp: outcome_iff)
  from stableD [OF assms(1) r f] have f': "r_buf r' = r_buf r" "r_pos r' \<le> length (r_buf r')"
    "f (ext z r) = Ok (v, ext z r')" by auto
  from stableD [OF assms(2) f'(2) g] f'
  show "r_buf r'' = r_buf r \<and> r_pos r'' \<le> length (r_buf r)
    \<and> and_then (f (ext z r)) (\<lambda>(v, r). g v r) = Ok (w, ext z r'')" by simp
qed

lemma stable_alloc [stable_intro]: "stable f \<Longrightarrow> stable (\<lambda>r. and_then (alloc mem sz n) (\<lambda>_. f r))"
  by (cases "n * sz > mem") (simp_all add: alloc_def stable_Panic)

lemma uvarint_loop_more:
  "uvarint_loop i x s buf = (v, n) \<Longrightarrow> 0 < n \<Longrightarrow>
   uvarint_loop i x s (buf @ z) = (v, n) \<and> n \<le> int (i + length buf)"
proof (induction i x s buf rule: uvarint_loop.induct)
  case (2 i x s b buf)
  let ?c = "of_char b :: nat"
  show ?case
  proof (cases "i = 10 \<or> ?c < 128")
    case True
    with "2.prems" show ?thesis by (auto simp: Let_def split: if_splits)
  next
    case False
    with "2.IH" [OF refl] "2.prems" show ?thesis by (simp add: Let_def)
  qed
qed simp

lemma stable_byte [stable_intro]: "stable r_byte"
  by (auto simp: stable_def r_byte_def ext_def nth_append split: if_splits)

lemma stable_raw [stable_intro]: "stable (r_raw n)"
  by (auto simp: stable_def r_raw_def ext_def Let_def substr_def nat_le_iff split: if_splits)

lemma stable_bytes [stable_intro]: "stable (r_bytes n)"
proof -
  have "r_bytes n = r_raw n" by (simp add: fun_eq_iff r_bytes_def)
  then show ?thesis by (simp add: stable_raw)
qed

lemma stable_uvarint [stable_intro]: "stable r_uvarint"
  unfolding stable_def
proof (intro allI impI)
  fix r v r' z
  assume r: "r_pos r \<le> length (r_buf r)" and "r_uvarint r = Ok (v, r')"
  then obtain n where n: "get_uvarint (drop (r_pos r) (r_buf r)) = (v, n)" "0 < n" "r' = r\<lparr>r_pos := r_pos r + nat n\<rparr>"
    by (auto simp: r_uvarint_def split: prod.splits if_splits)
  from uvarint_loop_more [OF n(1) [unfolded get_uvarint_def] n(2), of z]
  have m: "get_uvarint (drop (r_pos r) (r_buf r) @ z) = (v, n)" "n \<le> int (length (r_buf r) - r_pos r)"
    by (simp_all add: get_uvarint_def)
  with r n show "r_buf r' = r_buf r \<and> r_pos r' \<le> length (r_buf r) \<and> r_uvarint (ext z r) = Ok (v, ext z r')"
    by (simp add: r_uvarint_def ext_def)
qed

lemma varint_as_uvarint:
  "(\<exists>n r'. r_varint r = Ok (n, r')) = (\<exists>n r'. r_uvarint r = Ok (n, r'))"
  "r_uvarint r = Ok (u, r') \<Longrightarrow> r_varint r = Ok (unzigzag u, r')"
  by (auto simp: r_varint_def r_uvarint_def get_varint_def split: prod.splits)

lemma stable_varint [stable_intro]: "stable r_varint"
  unfolding stable_def
proof (intro allI impI)
  fix r v r' z
  assume r: "r_pos r \<le> length (r_buf r)" and v: "r_varint r = Ok (v, r')"
  then obtain u r1 where u: "r_uvarint r = Ok (u, r1)" using varint_as_uvarint(1) by blast
  from stableD [OF stable_uvarint r u, of z] varint_as_uvarint(2) [OF u]
    varint_as_uvarint(2) [of "ext z r"] v
  show "r_buf r' = r_buf r \<and> r_pos r' \<le> length (r_buf r) \<and> r_varint (ext z r) = Ok (v, ext z r')" by auto
qed

lemma stable_cell [stable_intro]: "stable readCell"
  unfolding readCell_def by (intro stable_intro)

lemma stable_columns [stable_intro]: "stable (read_columns n)"
  by (induction n) (simp_all add: stable_intro)

lemma stable_cells [stable_intro]: "stable (read_cells n)"
  by (induction n) (simp_all add: stable_intro)

lemma stable_rows [stable_intro]: "stable (read_rows k n)"
  by (induction k) (simp_all add: stable_intro)

lemma stable_body: "stable (read_body mem)"
  unfolding read_body_def by (intro stable_intro)

lemma Decode_more:
  assumes "Decode mem p = Ok rd" "z \<noteq> []"
  shows "\<not> is_ok (Decode mem (p @ z))"
proof -
  from assms(1) obtain r where h: "has_prefix p codec_header"
    and r: "read_body mem \<lparr>r_buf = drop 3 p, r_pos = 0\<rparr> = Ok (rd, r)" and rem: "r_remaining r = 0"
    by (auto simp: Decode_def outcome_iff split: if_splits)
  from h have l: "3 \<le> length p" by (auto simp: has_prefix_iff codec_header_def)
  have "r_pos \<lparr>r_buf = drop 3 p, r_pos = 0\<rparr> \<le> length (r_buf \<lparr>r_buf = drop 3 p, r_pos = 0\<rparr>)" by simp
  from stableD [OF stable_body this r, of z]
  have "read_body mem \<lparr>r_buf = drop 3 (p @ z), r_pos = 0\<rparr> = Ok (rd, ext z r)" using l by (simp add: ext_def)
  moreover have "r_remaining (ext z r) \<noteq> 0" using rem assms(2) by (simp add: r_remaining_def ext_def)
  moreover have "has_prefix (p @ z) codec_header" using h by (auto simp: has_prefix_iff)
  ultimately show ?thesis by (simp add: Decode_def)
qed

section \<open>The Codec interface\<close>

record codec =
  cd_Encode :: "row_data \<Rightarrow> string outcome"
  cd_Decode :: "string \<Rightarrow> row_data outcome"

text \<open>What the cache relies on: data that was encoded decodes to its normal form, where \<open>fits\<close>
  says when an encoding can be decoded again.\<close>

locale row_codec =
  fixes cod :: codec and fits :: "row_data \<Rightarrow> string \<Rightarrow> bool" and norm :: "row_data \<Rightarrow> row_data"
  assumes roundtrip: "cd_Encode cod rd = Ok b \<Longrightarrow> fits rd b \<Longrightarrow> cd_Decode cod b = Ok (norm rd)"
begin

end

definition binaryCodec :: "nat \<Rightarrow> codec" where
  "binaryCodec mem = \<lparr>cd_Encode = Encode, cd_Decode = Decode mem\<rparr>"

definition codec_fits :: "nat \<Rightarrow> row_data \<Rightarrow> string \<Rightarrow> bool" where
  "codec_fits mem rd b = (data_ok mem rd \<and> length b < 2 ^ 63)"

interpretation bc: row_codec "binaryCodec mem" "codec_fits mem" norm_data
  by unfold_locales (simp add: binaryCodec_def codec_fits_def Decode_Encode)

section \<open>Properties\<close>

definition demo_data :: row_data where
  "demo_data =
     \<lparr>rd_columns = [''id'', ''name''],
      rd_rows = [[RV (TInt I64) (DInt (- 300)), RV TString (DStr ''bob'')], [RV TBool (DBool True), Invalid]]\<rparr>"

definition demo_bytes :: string where
  "demo_bytes = codec_header @ map char_of
     [2, 2, 105, 100, 4, 110, 97, 109, 101, 2, 1, 215, 4, 4, 3, 98, 111, 98, 3, 1, 0 :: nat]"

text \<open>C11: data that was encoded decodes to the same columns and rows, up to the normal form of a
  cell (a nil byte slice comes back empty, a time in a fixed zone of whole minutes); data whose cells
  are neither comes back exactly.\<close>

theorem codec_roundtrip:
  assumes "Encode rd = Ok b" "data_ok mem rd" "length b < 2 ^ 63"
  shows "Decode mem b = Ok (norm_data rd)
    \<and> (list_all (list_all (\<lambda>v. norm_cell v = v)) (rd_rows rd) \<longrightarrow> Decode mem b = Ok rd)"
proof -
  have d: "Decode mem b = Ok (norm_data rd)"
    using bc.roundtrip [of mem rd b] assms by (simp add: binaryCodec_def codec_fits_def)
  moreover have "norm_data rd = rd" if "list_all (list_all (\<lambda>v. norm_cell v = v)) (rd_rows rd)"
  proof -
    from that have "map (map norm_cell) (rd_rows rd) = rd_rows rd"
      by (intro map_idI) (auto simp: list_all_iff intro: map_idI)
    then show ?thesis by (simp add: norm_data_def)
  qed
  ultimately show ?thesis by simp
qed

lemma demo_encode: "Encode demo_data = Ok demo_bytes"
  by code_simp

theorem codec_roundtrip_witness: "Decode 1000 demo_bytes = Ok (norm_data demo_data)"
proof (rule conjunct1 [OF codec_roundtrip [OF demo_encode]])
  show "data_ok 1000 demo_data" by (simp add: data_ok_def demo_data_def cell_ok_def int64_def)
  show "length demo_bytes < 2 ^ 63" by (simp add: demo_bytes_def codec_header_def)
qed

text \<open>what happens to a time cell. A time whose nanoseconds since the epoch fit in 64 bits comes
  back as the same instant, and with the same offset if that is a number of whole minutes; the zero
  time comes back as another instant.\<close>

lemma codec_time:
  assumes "int64 (t_sec g * 1000000000 + int (t_nsec g))" "t_nsec g < 1000000000" "int64 (zone_offset g)"
  shows "(case norm_cell (RV TTime (DTime g)) of
        RV t (DTime g') \<Rightarrow> t = TTime \<and> t_sec g' = t_sec g \<and> t_nsec g' = t_nsec g
          \<and> (zone_offset g mod 60 = 0 \<longrightarrow> zone_offset g' = zone_offset g)
      | _ \<Rightarrow> False)
    \<and> norm_cell (RV TTime (DTime zero_time)) \<noteq> RV TTime (DTime (zero_time\<lparr>t_loc := LocZone [] 0\<rparr>))"
proof -
  have u: "unix_nano g = t_sec g * 1000000000 + int (t_nsec g)"
    using assms(1) by (simp add: unix_nano_def wrap64_id)
  have n: "0 \<le> int (t_nsec g)" "int (t_nsec g) < 1000000000" using assms(2) by simp_all
  have d: "(t_sec g * 1000000000 + int (t_nsec g)) div 1000000000 = t_sec g"
    "(t_sec g * 1000000000 + int (t_nsec g)) mod 1000000000 = int (t_nsec g)"
    using n by simp_all
  have q: "wrap64 (quot_go (zone_offset g) 60 * 60) = zone_offset g" if "zone_offset g mod 60 = 0"
  proof -
    obtain k where k: "zone_offset g = 60 * k" using \<open>zone_offset g mod 60 = 0\<close> by (metis mod_0_imp_dvd dvdE)
    have "quot_go (60 * k) 60 = k" by (simp add: quot_go_def minus_mult_right del: mult_minus_right)
    with k assms(3) show ?thesis by (simp add: wrap64_id mult.commute)
  qed
  have z: "unix_nano zero_time div 1000000000 \<noteq> t_sec zero_time" by code_simp
  have z': "decoded_time (unix_nano zero_time) x \<noteq> zero_time\<lparr>t_loc := LocZone [] 0\<rparr>" for x
  proof
    assume "decoded_time (unix_nano zero_time) x = zero_time\<lparr>t_loc := LocZone [] 0\<rparr>"
    then have "t_sec (decoded_time (unix_nano zero_time) x) = t_sec zero_time" by simp
    with z show False by (simp add: decoded_time_def)
  qed
  show ?thesis
    using u d q z' by (simp add: norm_cell_def) (simp add: decoded_time_def zone_offset_def)
qed

lemma codec_time_witness:
  "(case norm_cell (RV TTime (DTime \<lparr>t_sec = 1700000000, t_nsec = 5, t_loc = LocZone ''CET'' 3600\<rparr>)) of
      RV t (DTime g') \<Rightarrow> t_sec g' = 1700000000 \<and> zone_offset g' = 3600 | _ \<Rightarrow> False)"
  using codec_time [of "\<lparr>t_sec = 1700000000, t_nsec = 5, t_loc = LocZone ''CET'' 3600\<rparr>"]
  by (simp add: int64_def zone_offset_def split: rvalue.splits gdata.splits)

text \<open>C34: no encoding is a prefix of other decodable data: a truncated encoding does not decode, and
  neither does one with bytes appended, so a partly written cache entry is never replayed.\<close>

theorem codec_truncation:
  assumes "Encode rd = Ok b" "data_ok mem rd" "length b < 2 ^ 63"
  shows "(k < length b \<longrightarrow> \<not> is_ok (Decode mem (take k b))) \<and> (z \<noteq> [] \<longrightarrow> \<not> is_ok (Decode mem (b @ z)))"
proof (intro conjI impI)
  have ok: "Decode mem b = Ok (norm_data rd)" by (rule Decode_Encode [OF assms(1,3,2)])
  show "\<not> is_ok (Decode mem (b @ z))" if "z \<noteq> []" using Decode_more [OF ok that] .
  show "\<not> is_ok (Decode mem (take k b))" if "k < length b"
  proof
    assume "is_ok (Decode mem (take k b))"
    then obtain rd' where "Decode mem (take k b) = Ok rd'" by (cases "Decode mem (take k b)") auto
    moreover have "drop k b \<noteq> []" using that by simp
    ultimately have "\<not> is_ok (Decode mem (take k b @ drop k b))" by (rule Decode_more)
    with ok show False by simp
  qed
qed

theorem codec_truncation_witness: "\<not> is_ok (Decode 1000 (take 20 demo_bytes))"
proof -
  have "data_ok 1000 demo_data" by (simp add: data_ok_def demo_data_def cell_ok_def int64_def)
  moreover have "length demo_bytes < 2 ^ 63" "20 < length demo_bytes"
    by (simp_all add: demo_bytes_def codec_header_def)
  ultimately show ?thesis using codec_truncation [OF demo_encode] by blast
qed

text \<open>the counts of corrupt data are trusted: for every amount of memory below the 64-bit address
  space there are a dozen bytes on which \<open>Decode\<close> panics instead of returning an error.\<close>

lemma Decode_panics:
  assumes "mem < 2 ^ 63"
  shows "Decode mem (codec_header @ put_uvarint (mem div 16 + 1)) = Panic ''makeslice: cap out of range''
    \<and> length (codec_header @ put_uvarint (mem div 16 + 1)) \<le> 13"
proof -
  let ?n = "mem div 16 + 1"
  have n: "?n < 2 ^ 64" using assms by simp
  have len: "length (put_uvarint m) \<le> k" if "m < 128 ^ k" "k > 0" for m k
    using that
  proof (induction k arbitrary: m)
    case (Suc k)
    show ?case
    proof (cases "m < 128")
      case True
      then show ?thesis by (subst put_uvarint.simps) simp
    next
      case False
      then have "k > 0" using Suc.prems(1) by (cases k) auto
      moreover have "m div 128 < 128 ^ k" using Suc.prems(1) by (simp add: less_mult_imp_div_less mult.commute)
      ultimately have "length (put_uvarint (m div 128)) \<le> k" by (intro Suc.IH)
      with False show ?thesis by (subst put_uvarint.simps) simp
    qed
  qed simp
  have "?n < 128 ^ 10" using n by simp
  then have l: "length (put_uvarint ?n) \<le> 10" by (rule len) simp
  then have small: "length (put_uvarint ?n @ []) < 2 ^ 63" by simp
  have "at \<lparr>r_buf = put_uvarint ?n, r_pos = 0\<rparr> (put_uvarint ?n @ [])" using small by (simp add: at_def)
  moreover have "mem < ?n * 16" by presburger
  ultimately have "read_body mem \<lparr>r_buf = put_uvarint ?n, r_pos = 0\<rparr> = Panic ''makeslice: cap out of range''"
    using read_uvarint [OF _ n, of "\<lparr>r_buf = put_uvarint ?n, r_pos = 0\<rparr>" "[]"]
    by (simp add: read_body_def alloc_def)
  moreover have "drop 3 (codec_header @ put_uvarint ?n) = put_uvarint ?n" by (simp add: codec_header_def)
  ultimately have "Decode mem (codec_header @ put_uvarint ?n) = Panic ''makeslice: cap out of range''"
    by (simp add: Decode_def)
  with l show ?thesis by (simp add: codec_header_def)
qed

lemma Decode_panics_witness:
  "Decode (2 ^ 48) (codec_header @ put_uvarint (2 ^ 44 + 1)) = Panic ''makeslice: cap out of range''"
  using Decode_panics [of "2 ^ 48"] by simp

end
