(* ===== verification/Plugin.thy ===== *)
theory Plugin
  imports Config Codec
begin

text \<open>
  \<^verbatim>\<open>plugin.go\<close>: the operation codes, the information record shared by the hooks of one
  execution, and the \<open>Rows\<close> wrapper whose \<open>Close\<close> fires the deferred hooks once. The row sources
  of the core (\<open>'r\<close>) are left open here.
\<close>

datatype op = OpExec | OpQuery | OpGet | OpSelect | OpOther int

definition itoa_int :: "int \<Rightarrow> string" where
  "itoa_int n = (if n < 0 then CHR ''-'' # itoa (nat (- n)) else itoa (nat n))"

fun op_String :: "op \<Rightarrow> string" where
  "op_String OpExec = ''Exec''"
| "op_String OpQuery = ''Query''"
| "op_String OpGet = ''Get''"
| "op_String OpSelect = ''Select''"
| "op_String (OpOther n) = ''Op('' @ itoa_int n @ '')''"

text \<open>\<open>ExecInfo\<close>. Times are nanoseconds; a \<open>sql.Result\<close> is its last insert id and its row count.\<close>

record 'r exec_info =
  ei_op :: op
  ei_query :: string
  ei_arg :: rvalue
  ei_boundSQL :: string
  ei_bindSQL :: string
  ei_bindArgs :: "rvalue list"
  ei_boundArgs :: "rvalue list"
  ei_options :: "call_option list"
  ei_inTx :: bool
  ei_start :: int
  ei_duration :: int
  ei_rows :: "'r option"
  ei_result :: "(int \<times> int) option"
  ei_err :: "goerr option"

text \<open>\<open>Rows.Close\<close>: close the underlying rows, then run the hook unless \<open>sync.Once\<close> has already
  run it. \<open>'h\<close> is what the hook acts on; the underlying close gives its own error.\<close>

record 'h rows_wrapper =
  rw_fired :: bool
  rw_world :: 'h

definition rows_Close :: "('h \<Rightarrow> 'h) \<Rightarrow> goerr option \<Rightarrow> 'h rows_wrapper \<Rightarrow> goerr option \<times> 'h rows_wrapper" where
  "rows_Close hook closeErr r =
     (closeErr, if rw_fired r then r else r\<lparr>rw_fired := True, rw_world := hook (rw_world r)\<rparr>)"

text \<open>Any number of calls runs the hook at most once, and at least one runs it.\<close>

lemma rows_Close_once:
  "rw_fired r = False \<Longrightarrow>
   fold (\<lambda>e r. snd (rows_Close hook e r)) es r
     = (if es = [] then r else r\<lparr>rw_fired := True, rw_world := hook (rw_world r)\<rparr>)"
proof -
  have fired: "rw_fired r \<Longrightarrow> fold (\<lambda>e r. snd (rows_Close hook e r)) es r = r" for r es
    by (induction es) (simp_all add: rows_Close_def)
  show "rw_fired r = False \<Longrightarrow> ?thesis"
  proof (cases es)
    case (Cons e es')
    assume "rw_fired r = False"
    then have "snd (rows_Close hook e r) = r\<lparr>rw_fired := True, rw_world := hook (rw_world r)\<rparr>"
      by (simp add: rows_Close_def)
    with Cons show ?thesis by (simp add: fired)
  qed simp
qed

end
