(* ===== verification/Errors.thy ===== *)
theory Errors
  imports Plugin
begin

text \<open>
  \<^verbatim>\<open>errors.go\<close>: how an operation's error is wrapped. The message holds the operation, the
  statement as \<open>%q\<close> prints it (\<open>strconv.Quote\<close>, a parameter: it consults the table of printable
  runes) and the types of the arguments, printed as \<open>%T\<close> does.
\<close>

section \<open>The types of the arguments\<close>

fun ikind_bits :: "ikind \<Rightarrow> nat" where
  "ikind_bits IInt = 64"
| "ikind_bits I8 = 8"
| "ikind_bits I16 = 16"
| "ikind_bits I32 = 32"
| "ikind_bits I64 = 64"

definition ikind_suffix :: "ikind \<Rightarrow> string" where
  "ikind_suffix k = (if k = IInt then [] else itoa (ikind_bits k))"

text \<open>\<open>reflect.Type.String\<close>; named types carry their qualified name.\<close>

fun type_string :: "gtype \<Rightarrow> string" where
  "type_string TBool = ''bool''"
| "type_string (TInt k) = ''int'' @ ikind_suffix k"
| "type_string (TUint k) = ''uint'' @ ikind_suffix k"
| "type_string TFloat32 = ''float32''"
| "type_string TFloat64 = ''float64''"
| "type_string TString = ''string''"
| "type_string (TSlice t) = ''[]'' @ type_string t"
| "type_string (TPtr t) = ''*'' @ type_string t"
| "type_string (TMap k t) = ''map['' @ type_string k @ '']'' @ type_string t"
| "type_string (TStruct n) = n"
| "type_string TTime = ''time.Time''"
| "type_string (TIface n) = (if n = [] then ''interface {}'' else n)"
| "type_string (TNamed n _) = n"
| "type_string (TOther n) = n"

definition arg_summary :: "rvalue \<Rightarrow> string" where
  "arg_summary a = (case a of Invalid \<Rightarrow> ''nil'' | RV t d \<Rightarrow> type_string t)"

definition summarizeArgs :: "rvalue list \<Rightarrow> string" where
  "summarizeArgs args =
     (if length args = 0 then ''0 args''
      else itoa (length args) @ '' args: '' @ join '', '' (map arg_summary args))"

section \<open>Wrapping\<close>

definition op_message :: "(string \<Rightarrow> string) \<Rightarrow> op \<Rightarrow> string \<Rightarrow> rvalue list \<Rightarrow> string" where
  "op_message quote oper query args =
     op_String oper @ '': query '' @ quote query @ '', '' @ summarizeArgs args"

definition wrapOpErr :: "(string \<Rightarrow> string) \<Rightarrow> op \<Rightarrow> string \<Rightarrow> rvalue list \<Rightarrow> goerr option \<Rightarrow> goerr option" where
  "wrapOpErr quote oper query args err =
     (case err of
        None \<Rightarrow> None
      | Some e \<Rightarrow> Some (Wrap (op_message quote oper query args) e))"

section \<open>Lemmas\<close>

definition arg_type :: "rvalue \<Rightarrow> gtype option" where
  "arg_type a = (case a of Invalid \<Rightarrow> None | RV t d \<Rightarrow> Some t)"

lemma arg_summary_types: "arg_summary a = (case arg_type a of None \<Rightarrow> ''nil'' | Some t \<Rightarrow> type_string t)"
  by (cases a) (simp_all add: arg_summary_def arg_type_def)

lemma summarizeArgs_types:
  "map arg_type xs = map arg_type ys \<Longrightarrow> summarizeArgs xs = summarizeArgs ys"
proof -
  assume types: "map arg_type xs = map arg_type ys"
  have sum: "map arg_summary zs = map (case_option ''nil'' type_string) (map arg_type zs)" for zs
    by (simp add: arg_summary_types)
  have "map arg_summary xs = map arg_summary ys" by (simp only: sum types)
  then show ?thesis by (simp add: summarizeArgs_def map_eq_imp_length_eq [OF types])
qed

text \<open>The error an operation returns is absent exactly when there was none, is still found by
  \<open>errors.Is\<close> whatever was wrapped, and apart from the wrapped error its text depends on the
  arguments through their types only: two argument lists of the same types give the same text.\<close>

lemma wrapOpErr_redacts:
  "(wrapOpErr q oper query args err = None \<longleftrightarrow> err = None)
   \<and> (\<forall>e t w. err = Some e \<longrightarrow> wrapOpErr q oper query args err = Some w \<longrightarrow> errors_is e t \<longrightarrow> errors_is w t)
   \<and> (\<forall>args'. map arg_type args' = map arg_type args \<longrightarrow>
        wrapOpErr q oper query args' err = wrapOpErr q oper query args err)"
proof (intro conjI allI impI)
  show "wrapOpErr q oper query args' err = wrapOpErr q oper query args err"
    if "map arg_type args' = map arg_type args" for args'
    using summarizeArgs_types [OF that] by (cases err) (simp_all add: wrapOpErr_def op_message_def)
qed (auto simp: wrapOpErr_def split: option.splits)

lemma wrapOpErr_redacts_witness:
  "\<exists>w. wrapOpErr (\<lambda>s. s) OpGet ''SELECT ?'' [RV TString (DStr ''secret'')] (Some ErrNoRows) = Some w
     \<and> errors_is w ErrNoRows
     \<and> wrapOpErr (\<lambda>s. s) OpGet ''SELECT ?'' [RV TString (DStr ''other'')] (Some ErrNoRows) = Some w"
  using wrapOpErr_redacts [of "\<lambda>s. s" OpGet "''SELECT ?''" "[RV TString (DStr ''secret'')]" "Some ErrNoRows"]
  by (cases "wrapOpErr (\<lambda>s. s) OpGet ''SELECT ?'' [RV TString (DStr ''secret'')] (Some ErrNoRows)")
    (auto simp: arg_type_def)

end
