(* ===== verification/Convert.thy ===== *)
theory Convert
  imports Floats Meta Errors
begin

text \<open>
  \<^verbatim>\<open>convert.go\<close>: storing a raw driver value in a Go location. A location is its type and its present
  content; a conversion returns the new content and whether it succeeded (on an error the location
  may already have changed, as in the source). Scanners and registered converters belong to the
  program that uses the library; they and the parts of the standard library that are tables or
  large (\<open>strconv.ParseFloat\<close>, \<open>time.Parse\<close>, \<open>json.Unmarshal\<close>, the result of a float to integer
  conversion out of range, which Go leaves to the hardware) are parameters.
\<close>

section \<open>The environment\<close>

record conv_env = genv +
  ce_scan :: "gtype \<Rightarrow> gdata \<Rightarrow> rvalue \<Rightarrow> gdata \<times> unit outcome"
  ce_implements :: "gtype \<Rightarrow> string \<Rightarrow> bool"
  ce_f2i :: "64 word \<Rightarrow> int"
  ce_parse_float :: "nat \<Rightarrow> string \<Rightarrow> 64 word outcome"
  ce_parse_time :: "string \<Rightarrow> string \<Rightarrow> location option \<Rightarrow> gtime outcome"
  ce_json_unmarshal :: "gtype \<Rightarrow> gdata \<Rightarrow> string \<Rightarrow> gdata \<times> unit outcome"
  ce_sql_assign :: "gtype \<Rightarrow> gdata \<Rightarrow> rvalue \<Rightarrow> gdata \<times> unit outcome"

text \<open>Defined types, the predeclared ones included; \<open>Type.AssignableTo\<close>.\<close>

fun is_defined :: "gtype \<Rightarrow> bool" where
  "is_defined (TSlice _) = False"
| "is_defined (TPtr _) = False"
| "is_defined (TMap _ _) = False"
| "is_defined (TIface n) = (n \<noteq> [])"
| "is_defined _ = True"

definition assignable :: "'e conv_env_scheme \<Rightarrow> gtype \<Rightarrow> gtype \<Rightarrow> bool" where
  "assignable E v t =
     (v = t
      \<or> (kind t = KInterface \<and> (underlying t = TAny \<or> ce_implements E v (type_string t)))
      \<or> (underlying v = underlying t \<and> (\<not> is_defined v \<or> \<not> is_defined t)))"

text \<open>\<open>Value.Set\<close> after an assignability check; the zero value of a type (struct types nested up to
  the depth of the environment).\<close>

definition set_value :: "gtype \<Rightarrow> gtype \<Rightarrow> gdata \<Rightarrow> gdata" where
  "set_value t st sd = (if kind t = KInterface then DIface st sd else sd)"

definition basic_zero :: "gtype \<Rightarrow> gdata" where
  "basic_zero t =
     (case kind t of
        KBool \<Rightarrow> DBool False
      | KInt \<Rightarrow> DInt 0
      | KUint \<Rightarrow> DInt 0
      | KFloat \<Rightarrow> (if underlying t = TFloat32 then DFloat32 0 else DFloat64 0)
      | KString \<Rightarrow> DStr []
      | KStruct \<Rightarrow> DTime zero_time
      | KOther \<Rightarrow> DOther True []
      | _ \<Rightarrow> DNil)"

fun zero_val :: "'e genv_scheme \<Rightarrow> nat \<Rightarrow> gtype \<Rightarrow> gdata" where
  "zero_val E 0 t = (if kind t = KStruct \<and> underlying t \<noteq> TTime then DStruct [] else basic_zero t)"
| "zero_val E (Suc n) t =
     (if kind t = KStruct \<and> underlying t \<noteq> TTime
      then DStruct (map (\<lambda>f. zero_val E n (sf_type f)) (struct_fields E t))
      else basic_zero t)"

definition new_zero :: "'e genv_scheme \<Rightarrow> gtype \<Rightarrow> gdata" where
  "new_zero E t = zero_val E (ge_depth E) t"

section \<open>Registered converters\<close>

text \<open>The registry is keyed by \<open>reflect.TypeOf\<close> of a zero value, which is nil for an interface
  type. A converter for \<open>T\<close> returns a value of type \<open>T\<close>, boxed into \<open>any\<close>.\<close>

type_synonym converters = "gtype option \<Rightarrow> (rvalue \<Rightarrow> rvalue outcome) option"

definition RegisterConverter :: "gtype \<Rightarrow> (rvalue \<Rightarrow> gdata outcome) \<Rightarrow> converters \<Rightarrow> converters" where
  "RegisterConverter t fn cs =
     cs((if kind t = KInterface then None else Some t)
        \<mapsto> (\<lambda>v. and_then (fn v) (\<lambda>d. Ok (as_any (RV t d)))))"

definition lookupConverter :: "converters \<Rightarrow> gtype \<Rightarrow> (rvalue \<Rightarrow> rvalue outcome) option" where
  "lookupConverter cs t = cs (Some t)"

section \<open>strconv\<close>

definition err_syntax :: goerr where
  "err_syntax = ErrOther ''invalid syntax''"

definition err_range :: goerr where
  "err_range = ErrOther ''value out of range''"

fun parse_digits :: "int \<Rightarrow> int \<Rightarrow> string \<Rightarrow> int outcome" where
  "parse_digits maxVal n [] = Ok n"
| "parse_digits maxVal n (c # s) =
     (if \<not> is_digit c then Err err_syntax
      else (let n' = 10 * n + (of_char c - 48)
            in if n' > maxVal then Err err_range else parse_digits maxVal n' s))"

definition ParseUint :: "nat \<Rightarrow> string \<Rightarrow> int outcome" where
  "ParseUint bits s = (if s = [] then Err err_syntax else parse_digits (2 ^ bits - 1) 0 s)"

definition ParseInt :: "nat \<Rightarrow> string \<Rightarrow> int outcome" where
  "ParseInt bits s =
     (case s of
        [] \<Rightarrow> Err err_syntax
      | c # r \<Rightarrow>
          (let neg = (c = CHR ''-''); body = (if c = CHR ''+'' \<or> c = CHR ''-'' then r else s);
               cutoff = 2 ^ (bits - 1)
           in and_then (ParseUint bits body)
                (\<lambda>un. if \<not> neg \<and> un \<ge> cutoff then Err err_range
                      else if neg \<and> un > cutoff then Err err_range
                      else Ok (if neg then - un else un))))"

definition ParseBool :: "string \<Rightarrow> bool outcome" where
  "ParseBool s =
     (if s \<in> {''1'', ''t'', ''T'', ''TRUE'', ''true'', ''True''} then Ok True
      else if s \<in> {''0'', ''f'', ''F'', ''FALSE'', ''false'', ''False''} then Ok False
      else Err err_syntax)"

section \<open>The conversion matrix\<close>

definition overflowErr :: "'a outcome" where
  "overflowErr = Err (Wrap ''convertAssign: value overflows'' ErrUnsupportedType)"

definition cannotConvert :: "'a outcome" where
  "cannotConvert = Err (Wrap ''convertAssign: cannot convert'' ErrUnsupportedType)"

text \<open>The width of an integer type, and \<open>OverflowInt\<close> and \<open>OverflowUint\<close>.\<close>

fun type_bits :: "gtype \<Rightarrow> nat" where
  "type_bits (TInt k) = ikind_bits k"
| "type_bits (TUint k) = ikind_bits k"
| "type_bits TFloat32 = 32"
| "type_bits (TNamed _ t) = type_bits t"
| "type_bits _ = 64"

definition overflow_int :: "gtype \<Rightarrow> int \<Rightarrow> bool" where
  "overflow_int t i = (i < - (2 ^ (type_bits t - 1)) \<or> i \<ge> 2 ^ (type_bits t - 1))"

definition overflow_uint :: "gtype \<Rightarrow> int \<Rightarrow> bool" where
  "overflow_uint t u = (u \<ge> 2 ^ type_bits t)"

text \<open>\<open>int64(x)\<close> and \<open>uint64(x)\<close> of an integer wrap; of a float they truncate, and give whatever the
  hardware gives for a NaN or out of range.\<close>

definition int64_of :: "int \<Rightarrow> int" where
  "int64_of x = (x + 2 ^ 63) mod 2 ^ 64 - 2 ^ 63"

definition uint64_of :: "int \<Rightarrow> int" where
  "uint64_of x = x mod 2 ^ 64"

definition int64_of_float :: "'e conv_env_scheme \<Rightarrow> 64 word \<Rightarrow> int" where
  "int64_of_float E w =
     (case ftrunc (f64_val w) of
        Some i \<Rightarrow> (if - (2 ^ 63) \<le> i \<and> i < 2 ^ 63 then i else int64_of (ce_f2i E w))
      | None \<Rightarrow> int64_of (ce_f2i E w))"

definition uint64_of_float :: "'e conv_env_scheme \<Rightarrow> 64 word \<Rightarrow> int" where
  "uint64_of_float E w =
     (case ftrunc (f64_val w) of
        Some i \<Rightarrow> (if 0 \<le> i \<and> i < 2 ^ 64 then i else uint64_of (ce_f2i E w))
      | None \<Rightarrow> uint64_of (ce_f2i E w))"

text \<open>The text of a \<open>[]byte\<close> or \<open>string\<close>; a type switch matches these very types only.\<close>

definition text_of :: "rvalue \<Rightarrow> string option" where
  "text_of src =
     (case src of
        RV t (DBytes s) \<Rightarrow> (if t = TBytes then Some s else None)
      | RV t DNil \<Rightarrow> (if t = TBytes then Some [] else None)
      | RV t (DStr s) \<Rightarrow> (if t = TString then Some s else None)
      | _ \<Rightarrow> None)"

definition parseIntString :: "gtype \<Rightarrow> string \<Rightarrow> gdata outcome" where
  "parseIntString t s =
     (case ParseInt (type_bits t) s of
        Ok i \<Rightarrow> Ok (DInt i)
      | Err e \<Rightarrow> Err (Wrap ''convertAssign: parse int'' e)
      | Panic m \<Rightarrow> Panic m)"

definition parseUintString :: "gtype \<Rightarrow> string \<Rightarrow> gdata outcome" where
  "parseUintString t s =
     (case ParseUint (type_bits t) s of
        Ok u \<Rightarrow> Ok (DInt u)
      | Err e \<Rightarrow> Err (Wrap ''convertAssign: parse uint'' e)
      | Panic m \<Rightarrow> Panic m)"

text \<open>\<open>SetFloat\<close>: the value rounded to the type of the location.\<close>

definition set_float :: "gtype \<Rightarrow> 64 word \<Rightarrow> gdata" where
  "set_float t w = (if underlying t = TFloat32 then DFloat32 (f32_of_f64 w) else DFloat64 w)"

definition parseFloatString :: "'e conv_env_scheme \<Rightarrow> gtype \<Rightarrow> string \<Rightarrow> gdata outcome" where
  "parseFloatString E t s =
     (case ce_parse_float E (type_bits t) s of
        Ok w \<Rightarrow> Ok (set_float t w)
      | Err e \<Rightarrow> Err (Wrap ''convertAssign: parse float'' e)
      | Panic m \<Rightarrow> Panic m)"

definition parseBoolString :: "string \<Rightarrow> gdata outcome" where
  "parseBoolString s =
     (case ParseBool s of
        Ok b \<Rightarrow> Ok (DBool b)
      | Err e \<Rightarrow> Err (Wrap ''convertAssign: parse bool'' e)
      | Panic m \<Rightarrow> Panic m)"

definition parseTimeString :: "'e conv_env_scheme \<Rightarrow> string \<Rightarrow> string \<Rightarrow> location option \<Rightarrow> gdata outcome" where
  "parseTimeString E s layout loc =
     (case ce_parse_time E layout s loc of
        Ok t \<Rightarrow> Ok (DTime t)
      | Err e \<Rightarrow> Err (Wrap ''convertAssign: parse time'' e)
      | Panic m \<Rightarrow> Panic m)"

definition store_int :: "gtype \<Rightarrow> int \<Rightarrow> gdata outcome" where
  "store_int t i = (if overflow_int t i then overflowErr else Ok (DInt i))"

definition store_uint :: "gtype \<Rightarrow> int \<Rightarrow> gdata outcome" where
  "store_uint t u = (if overflow_uint t u then overflowErr else Ok (DInt u))"

definition convertToInt :: "'e conv_env_scheme \<Rightarrow> gtype \<Rightarrow> rvalue \<Rightarrow> gdata outcome" where
  "convertToInt E t src =
     (case text_of src of
        Some s \<Rightarrow> parseIntString t s
      | None \<Rightarrow>
          (case src of
             RV (TInt _) (DInt v) \<Rightarrow> store_int t v
           | RV (TUint k) (DInt v) \<Rightarrow>
               (if k = I64 \<and> v > 2 ^ 63 - 1 then overflowErr else store_int t (int64_of v))
           | RV TFloat64 (DFloat64 w) \<Rightarrow>
               (if fgt (f64_val w) (2 ^ 63) \<or> flt (f64_val w) (- (2 ^ 63)) then overflowErr
                else store_int t (int64_of_float E w))
           | RV TFloat32 (DFloat32 w) \<Rightarrow> store_int t (int64_of_float E (f64_of_f32 w))
           | _ \<Rightarrow> cannotConvert))"

definition convertToUint :: "'e conv_env_scheme \<Rightarrow> gtype \<Rightarrow> rvalue \<Rightarrow> gdata outcome" where
  "convertToUint E t src =
     (case text_of src of
        Some s \<Rightarrow> parseUintString t s
      | None \<Rightarrow>
          (case src of
             RV (TInt _) (DInt v) \<Rightarrow> (if v < 0 then overflowErr else store_uint t (uint64_of v))
           | RV (TUint _) (DInt v) \<Rightarrow> store_uint t v
           | RV TFloat64 (DFloat64 w) \<Rightarrow>
               (if flt (f64_val w) 0 \<or> fgt (f64_val w) (2 ^ 64) then overflowErr
                else store_uint t (uint64_of_float E w))
           | RV TFloat32 (DFloat32 w) \<Rightarrow>
               (if flt (f32_val w) 0 then overflowErr else store_uint t (uint64_of_float E (f64_of_f32 w)))
           | _ \<Rightarrow> cannotConvert))"

text \<open>\<open>OverflowFloat\<close>: for \<open>float32\<close>, a finite value above the largest one.\<close>

definition max_float32 :: int where
  "max_float32 = (2 ^ 24 - 1) * 2 ^ 104"

definition overflow_float :: "gtype \<Rightarrow> 64 word \<Rightarrow> bool" where
  "overflow_float t w =
     (underlying t = TFloat32
      \<and> (case f64_val w of FFin s m e \<Rightarrow> fgt (FFin False m e) max_float32 | _ \<Rightarrow> False))"

definition store_float :: "gtype \<Rightarrow> 64 word \<Rightarrow> gdata outcome" where
  "store_float t w = (if overflow_float t w then overflowErr else Ok (set_float t w))"

definition convertToFloat :: "'e conv_env_scheme \<Rightarrow> gtype \<Rightarrow> rvalue \<Rightarrow> gdata outcome" where
  "convertToFloat E t src =
     (case text_of src of
        Some s \<Rightarrow> parseFloatString E t s
      | None \<Rightarrow>
          (case src of
             RV TFloat64 (DFloat64 w) \<Rightarrow> store_float t w
           | RV TFloat32 (DFloat32 w) \<Rightarrow> store_float t (f64_of_f32 w)
           | RV (TInt k) (DInt v) \<Rightarrow> (if k \<in> {I64, IInt, I32} then store_float t (f64_of_int v) else cannotConvert)
           | RV (TUint k) (DInt v) \<Rightarrow> (if k \<in> {I64, IInt} then store_float t (f64_of_int v) else cannotConvert)
           | _ \<Rightarrow> cannotConvert))"

definition convertToBool :: "gtype \<Rightarrow> rvalue \<Rightarrow> gdata outcome" where
  "convertToBool t src =
     (case text_of src of
        Some s \<Rightarrow> parseBoolString s
      | None \<Rightarrow>
          (case src of
             RV TBool (DBool b) \<Rightarrow> Ok (DBool b)
           | RV (TInt k) (DInt v) \<Rightarrow> (if k \<in> {I64, IInt} then Ok (DBool (v \<noteq> 0)) else cannotConvert)
           | _ \<Rightarrow> cannotConvert))"

definition convertToTime :: "'e conv_env_scheme \<Rightarrow> rvalue \<Rightarrow> string \<Rightarrow> location option \<Rightarrow> gdata outcome" where
  "convertToTime E src layout loc =
     (case text_of src of
        Some s \<Rightarrow> parseTimeString E s layout loc
      | None \<Rightarrow> (case src of RV TTime (DTime t) \<Rightarrow> Ok (DTime t) | _ \<Rightarrow> cannotConvert))"

definition builtinConvert :: "'e conv_env_scheme \<Rightarrow> gtype \<Rightarrow> rvalue \<Rightarrow> 'p config option \<Rightarrow> gdata outcome" where
  "builtinConvert E t src cfg =
     (let layout = (case cfg of None \<Rightarrow> RFC3339Nano | Some c \<Rightarrow> timeLayout c);
          loc = (case cfg of None \<Rightarrow> None | Some c \<Rightarrow> timeLocation c)
      in case kind t of
           KString \<Rightarrow> (case text_of src of Some s \<Rightarrow> Ok (DStr s) | None \<Rightarrow> cannotConvert)
         | KSlice \<Rightarrow>
             (if underlying (elem_type t) = TUint I8
              then (case src of
                      RV st DNil \<Rightarrow> (if st = TBytes then Ok DNil else cannotConvert)
                    | _ \<Rightarrow> (case text_of src of Some s \<Rightarrow> Ok (DBytes s) | None \<Rightarrow> cannotConvert))
              else cannotConvert)
         | KInt \<Rightarrow> convertToInt E t src
         | KUint \<Rightarrow> convertToUint E t src
         | KFloat \<Rightarrow> convertToFloat E t src
         | KBool \<Rightarrow> convertToBool t src
         | KStruct \<Rightarrow> (if t = TTime then convertToTime E src layout loc else cannotConvert)
         | _ \<Rightarrow> cannotConvert)"

section \<open>convertAssign\<close>

definition assignNull :: "gtype \<Rightarrow> gdata \<Rightarrow> 'p config option \<Rightarrow> gdata \<times> unit outcome" where
  "assignNull t d cfg =
     (if kind t = KPtr then (DNil, Ok ())
      else if (case cfg of None \<Rightarrow> True | Some c \<Rightarrow> nullToZero c) then (zero_of d, Ok ())
      else (d, Err (Wrap ''convertAssign: NULL'' ErrNullNotAllowed)))"

definition err_dest :: goerr where
  "err_dest = Wrap ''convertAssign: dest must be a non-nil pointer'' ErrUnsupportedType"

lemma size_elem_type: "kind t = KPtr \<Longrightarrow> size (elem_type t) < size t"
  by (induction t) auto

text \<open>\<open>pt\<close> is the type of \<open>dv\<close> (a non-nil pointer), \<open>d\<close> the content of what it points to.\<close>

function (sequential) convertAssign ::
  "'e conv_env_scheme \<Rightarrow> converters \<Rightarrow> gtype \<Rightarrow> gdata \<Rightarrow> rvalue \<Rightarrow> 'p config option \<Rightarrow> gdata \<times> unit outcome" where
  "convertAssign E cs pt d src cfg =
     (if kind pt \<noteq> KPtr then (d, Err err_dest)
      else if ge_scanner E pt then ce_scan E (elem_type pt) d src
      else
        (case src of
           Invalid \<Rightarrow> assignNull (elem_type pt) d cfg
         | RV st sd \<Rightarrow>
             (if assignable E st (elem_type pt) then (set_value (elem_type pt) st sd, Ok ())
              else
                (case lookupConverter cs (elem_type pt) of
                   Some fn \<Rightarrow>
                     (case fn src of
                        Ok Invalid \<Rightarrow> assignNull (elem_type pt) d cfg
                      | Ok (RV vt vd) \<Rightarrow>
                          (if assignable E vt (elem_type pt) then (set_value (elem_type pt) vt vd, Ok ())
                           else (d, Panic ''reflect.Set: value is not assignable''))
                      | Err e \<Rightarrow> (d, Err (Wrap ''convertAssign: converter'' e))
                      | Panic m \<Rightarrow> (d, Panic m))
                 | None \<Rightarrow>
                     (if kind (elem_type pt) = KPtr
                      then (case convertAssign E cs (elem_type pt) (new_zero E (elem_type (elem_type pt))) src cfg of
                              (d', r) \<Rightarrow> (DPtr d', r))
                      else
                        (case builtinConvert E (elem_type pt) src cfg of
                           Ok d' \<Rightarrow> (d', Ok ())
                         | Err e \<Rightarrow> (d, Err e)
                         | Panic m \<Rightarrow> (d, Panic m)))))))"
  by pat_completeness auto
termination
  by (relation "measure (\<lambda>(E, cs, pt, d, src, cfg). size pt)") (auto simp: size_elem_type)

declare convertAssign.simps [simp del]

text \<open>The exported \<open>ConvertAssign\<close>: \<open>dest\<close> is any value.\<close>

definition ConvertAssign :: "'e conv_env_scheme \<Rightarrow> converters \<Rightarrow> rvalue \<Rightarrow> rvalue \<Rightarrow> rvalue \<times> unit outcome" where
  "ConvertAssign E cs dest src =
     (case dest of
        RV pt (DPtr d) \<Rightarrow>
          (if kind pt \<noteq> KPtr then (dest, Err err_dest)
           else (case convertAssign E cs pt d src (Some (defaultConfig (ge_unicode E) :: unit config)) of
                   (d', r) \<Rightarrow> (RV pt (DPtr d'), r)))
      | _ \<Rightarrow> (dest, Err err_dest))"

end
