(* ===== verification/RowSource.thy ===== *)
theory RowSource
  imports Convert
begin

text \<open>
  The data sources of the scan layer: the rows of \<open>database/sql\<close>, \<^verbatim>\<open>cachedRowSource\<close> and
  \<^verbatim>\<open>recordingRowSource\<close> of \<^verbatim>\<open>cache/source.go\<close>, and \<^verbatim>\<open>valueRows\<close> of \<^verbatim>\<open>scan.go\<close>. A recorder is a
  pointer shared by the source that fills it and the context that hands it to \<open>After\<close>: recorders
  live in a heap, a source holds the address.

  The rows a driver delivers are data of the model (\<open>db_rows\<close>): the columns, the rows, and the error
  that ended them, if any. How \<open>database/sql\<close> stores a value in a typed destination is the parameter
  \<open>ce_sql_assign\<close>; into an \<open>*any\<close> it stores the value itself.
\<close>

section \<open>Recorders\<close>

record recorder =
  rec_key :: string
  rec_ttl :: int
  rec_cols :: "string list"
  rec_rows :: "rvalue list list"

type_synonym rec_heap = "nat \<Rightarrow> recorder"

definition RecordRow :: "rvalue list \<Rightarrow> recorder \<Rightarrow> recorder" where
  "RecordRow values r = r\<lparr>rec_rows := rec_rows r @ [values]\<rparr>"

section \<open>Sources\<close>

record db_rows =
  dr_cols :: "string list outcome"
  dr_rows :: "rvalue list list"
  dr_cur :: "rvalue list option"
  dr_done :: bool
  dr_err :: "goerr option"
  dr_close :: "goerr option"

datatype row_source =
    DBRows db_rows
  | Recording row_source nat
  | Cached row_data nat
  | ValueRows "string list" "rvalue list list" nat

fun rs_Columns :: "row_source \<Rightarrow> rec_heap \<Rightarrow> string list outcome \<times> rec_heap" where
  "rs_Columns (DBRows r) h = (dr_cols r, h)"
| "rs_Columns (Recording rs a) h =
     (case rs_Columns rs h of
        (Ok cols, h') \<Rightarrow> (Ok cols, h'(a := (h' a)\<lparr>rec_cols := cols\<rparr>))
      | (Err e, h') \<Rightarrow> (Err e, h')
      | (Panic m, h') \<Rightarrow> (Panic m, h'))"
| "rs_Columns (Cached data i) h = (Ok (rd_columns data), h)"
| "rs_Columns (ValueRows cols rows i) h = (Ok cols, h)"

fun rs_Next :: "row_source \<Rightarrow> bool \<times> row_source" where
  "rs_Next (DBRows r) =
     (case dr_rows r of
        [] \<Rightarrow> (False, DBRows (r\<lparr>dr_cur := None, dr_done := True\<rparr>))
      | row # rest \<Rightarrow> (True, DBRows (r\<lparr>dr_cur := Some row, dr_rows := rest\<rparr>)))"
| "rs_Next (Recording rs a) = (case rs_Next rs of (b, rs') \<Rightarrow> (b, Recording rs' a))"
| "rs_Next (Cached data i) =
     (if i < length (rd_rows data) then (True, Cached data (i + 1)) else (False, Cached data i))"
| "rs_Next (ValueRows cols rows i) =
     (if i < length rows then (True, ValueRows cols rows (i + 1)) else (False, ValueRows cols rows i))"

fun rs_Err :: "row_source \<Rightarrow> goerr option" where
  "rs_Err (DBRows r) = (if dr_done r then dr_err r else None)"
| "rs_Err (Recording rs a) = rs_Err rs"
| "rs_Err (Cached data i) = None"
| "rs_Err (ValueRows cols rows i) = None"

fun rs_Close :: "row_source \<Rightarrow> goerr option" where
  "rs_Close (DBRows r) = dr_close r"
| "rs_Close (Recording rs a) = rs_Close rs"
| "rs_Close (Cached data i) = None"
| "rs_Close (ValueRows cols rows i) = None"

text \<open>The optional interfaces \<open>RowRecorder\<close> and \<open>ValueRowSource\<close>.\<close>

fun is_recorder :: "row_source \<Rightarrow> bool" where
  "is_recorder (Recording rs a) = True"
| "is_recorder (ValueRows cols rows i) = True"
| "is_recorder _ = False"

fun rs_RecordRow :: "row_source \<Rightarrow> rvalue list \<Rightarrow> rec_heap \<Rightarrow> rec_heap" where
  "rs_RecordRow (Recording rs a) values h = h(a := RecordRow values (h a))"
| "rs_RecordRow _ values h = h"

fun RowValues :: "row_source \<Rightarrow> (string list \<times> rvalue list list) option" where
  "RowValues (Cached data i) = Some (rd_columns data, rd_rows data)"
| "RowValues _ = None"

definition newValueRows :: "string list \<Rightarrow> rvalue list list \<Rightarrow> row_source" where
  "newValueRows cols rows = ValueRows cols rows 0"

section \<open>Scan\<close>

text \<open>Destinations are the types and present contents of the locations pointed to. The loops stop at
  the first error; the contents written before it stay.\<close>

definition box :: "rvalue \<Rightarrow> gdata" where
  "box v = (case v of Invalid \<Rightarrow> DNil | RV t d \<Rightarrow> DIface t d)"

definition unbox :: "gdata \<Rightarrow> rvalue" where
  "unbox d = (case d of DIface t x \<Rightarrow> RV t x | _ \<Rightarrow> Invalid)"

fun scan_cells ::
  "(gtype \<Rightarrow> gdata \<Rightarrow> rvalue \<Rightarrow> gdata \<times> unit outcome) \<Rightarrow> (gtype \<times> gdata) list \<Rightarrow> rvalue list \<Rightarrow> gdata list \<times> unit outcome"
  where
  "scan_cells put [] row = ([], Ok ())"
| "scan_cells put ((t, d) # dests) [] = (d # map snd dests, Ok ())"
| "scan_cells put ((t, d) # dests) (v # row) =
     (case put t d v of
        (d', Ok u) \<Rightarrow> (case scan_cells put dests row of (ds, r) \<Rightarrow> (d' # ds, r))
      | (d', r) \<Rightarrow> (d' # map snd dests, r))"

definition sql_assign :: "'e conv_env_scheme \<Rightarrow> gtype \<Rightarrow> gdata \<Rightarrow> rvalue \<Rightarrow> gdata \<times> unit outcome" where
  "sql_assign E t d v = (if t = TAny then (box v, Ok ()) else ce_sql_assign E t d v)"

definition value_assign :: "'e conv_env_scheme \<Rightarrow> gtype \<Rightarrow> gdata \<Rightarrow> rvalue \<Rightarrow> gdata \<times> unit outcome" where
  "value_assign E t d v =
     (case v of
        Invalid \<Rightarrow> (zero_of d, Ok ())
      | RV st sd \<Rightarrow>
          (if assignable E st t then (set_value t st sd, Ok ())
           else (d, Err (ErrOther ''valueRows: cannot assign''))))"

definition cached_assign ::
  "'e conv_env_scheme \<Rightarrow> converters \<Rightarrow> gtype \<Rightarrow> gdata \<Rightarrow> rvalue \<Rightarrow> gdata \<times> unit outcome" where
  "cached_assign E cs t d v = convertAssign E cs (TPtr t) d v (Some (defaultConfig (ge_unicode E) :: unit config))"

definition current_row :: "rvalue list list \<Rightarrow> nat \<Rightarrow> rvalue list outcome" where
  "current_row rows i = (if i = 0 then Panic ''index out of range [-1]'' else Ok (rows ! (i - 1)))"

fun rs_Scan ::
  "'e conv_env_scheme \<Rightarrow> converters \<Rightarrow> row_source \<Rightarrow> (gtype \<times> gdata) list \<Rightarrow> gdata list \<times> unit outcome" where
  "rs_Scan E cs (DBRows r) dests =
     (case dr_cur r of
        None \<Rightarrow> (map snd dests, Err (ErrOther ''sql: Scan called without calling Next''))
      | Some row \<Rightarrow>
          (if length dests \<noteq> length row then (map snd dests, Err (ErrOther ''sql: expected destination arguments''))
           else scan_cells (sql_assign E) dests row))"
| "rs_Scan E cs (Recording rs a) dests = rs_Scan E cs rs dests"
| "rs_Scan E cs (Cached data i) dests =
     (case current_row (rd_rows data) i of
        Ok row \<Rightarrow> scan_cells (cached_assign E cs) dests row
      | Err e \<Rightarrow> (map snd dests, Err e)
      | Panic m \<Rightarrow> (map snd dests, Panic m))"
| "rs_Scan E cs (ValueRows cols rows i) dests =
     (case current_row rows i of
        Ok row \<Rightarrow> scan_cells (value_assign E) dests row
      | Err e \<Rightarrow> (map snd dests, Err e)
      | Panic m \<Rightarrow> (map snd dests, Panic m))"

section \<open>Lemmas\<close>

lemma unbox_box [simp]: "unbox (box v) = v"
  by (cases v) (simp_all add: box_def unbox_def)

text \<open>The rows a source still has to deliver.\<close>

fun rs_left :: "row_source \<Rightarrow> nat" where
  "rs_left (DBRows r) = length (dr_rows r)"
| "rs_left (Recording rs a) = rs_left rs"
| "rs_left (Cached data i) = length (rd_rows data) - i"
| "rs_left (ValueRows cols rows i) = length rows - i"

lemma rs_Next_left: "rs_Next rs = (True, rs') \<Longrightarrow> rs_left rs' < rs_left rs"
  by (induction rs arbitrary: rs') (auto split: list.splits if_splits prod.splits)

lemma scan_cells_box:
  assumes "\<And>d v. put TAny d v = (box v, Ok ())"
  shows "length row = n \<Longrightarrow> scan_cells put (replicate n (TAny, DNil)) row = (map box row, Ok ())"
  by (induction row arbitrary: n) (auto simp: assms)

lemma sql_assign_any: "sql_assign E TAny d v = (box v, Ok ())"
  by (simp add: sql_assign_def)

lemma scan_cells_value_any:
  "length row = n \<Longrightarrow> scan_cells (value_assign E) (replicate n (TAny, DNil)) row = (map box row, Ok ())"
proof (induction row arbitrary: n)
  case (Cons v row)
  have "value_assign E TAny DNil v = (box v, Ok ())"
    by (simp add: value_assign_def box_def assignable_def set_value_def split: rvalue.splits)
  with Cons show ?case by auto
qed simp

end
