(* ===== verification/Flight.thy ===== *)
theory Flight
  imports Prelude
begin

text \<open>
  \<^verbatim>\<open>cache/flight.go\<close>: one in-flight call per key. A call is a channel that its leader closes;
  channels are numbered. \<open>acquire\<close> and \<open>done\<close> hold the mutex, so each is one step. Closing a
  closed channel panics.
\<close>

record flight =
  fl_calls :: "string \<Rightarrow> nat option"
  fl_closed :: "nat set"
  fl_next :: nat

definition new_flight :: flight where
  "new_flight = \<lparr>fl_calls = (\<lambda>_. None), fl_closed = {}, fl_next = 0\<rparr>"

text \<open>The result of \<open>acquire\<close>: leadership, or the channel to wait for.\<close>

datatype ticket = Leader | WaitFor nat

definition acquire :: "string \<Rightarrow> flight \<Rightarrow> ticket \<times> flight" where
  "acquire key f =
     (case fl_calls f key of
        Some c \<Rightarrow> (WaitFor c, f)
      | None \<Rightarrow> (Leader, f\<lparr>fl_calls := (fl_calls f)(key \<mapsto> fl_next f), fl_next := fl_next f + 1\<rparr>))"

definition fl_done :: "string \<Rightarrow> flight \<Rightarrow> flight outcome" where
  "fl_done key f =
     (case fl_calls f key of
        None \<Rightarrow> Ok f
      | Some c \<Rightarrow>
          (if c \<in> fl_closed f then Panic ''close of closed channel''
           else Ok (f\<lparr>fl_closed := insert c (fl_closed f), fl_calls := (fl_calls f)(key := None)\<rparr>)))"

text \<open>Open calls are distinct, below the next number and not closed.\<close>

definition fl_wf :: "flight \<Rightarrow> bool" where
  "fl_wf f =
     ((\<forall>k c. fl_calls f k = Some c \<longrightarrow> c < fl_next f \<and> c \<notin> fl_closed f)
      \<and> (\<forall>k k' c. fl_calls f k = Some c \<longrightarrow> fl_calls f k' = Some c \<longrightarrow> k = k')
      \<and> (\<forall>c \<in> fl_closed f. c < fl_next f))"

lemma fl_wf_new: "fl_wf new_flight"
  by (simp add: fl_wf_def new_flight_def)

lemma fl_wfD:
  assumes "fl_wf f" "fl_calls f k = Some c"
  shows "c < fl_next f" "c \<notin> fl_closed f"
  using assms by (auto simp: fl_wf_def)

lemma acquire_wf: "fl_wf f \<Longrightarrow> fl_wf (snd (acquire k f))"
proof (cases "fl_calls f k")
  case None
  assume wf: "fl_wf f"
  then have lt: "fl_calls f k' = Some c \<Longrightarrow> c < fl_next f \<and> c \<notin> fl_closed f" for k' c
    by (auto simp: fl_wf_def)
  then have new: "fl_calls f k' \<noteq> Some (fl_next f)" for k' by blast
  have closed: "\<forall>c \<in> fl_closed f. c < fl_next f" using wf by (simp add: fl_wf_def)
  have inj: "fl_calls f k1 = Some c \<Longrightarrow> fl_calls f k2 = Some c \<Longrightarrow> k1 = k2" for k1 k2 c
    using wf by (simp add: fl_wf_def)
  have "fl_next f \<notin> fl_closed f" using closed by blast
  with None lt new closed inj show ?thesis
    unfolding fl_wf_def acquire_def by (auto simp: less_SucI)
qed (simp add: acquire_def)

lemma acquire_Leader:
  "acquire k f = (Leader, f') \<longleftrightarrow>
   fl_calls f k = None \<and> f' = f\<lparr>fl_calls := (fl_calls f)(k \<mapsto> fl_next f), fl_next := fl_next f + 1\<rparr>"
  by (auto simp: acquire_def split: option.splits)

lemma acquire_WaitFor: "acquire k f = (WaitFor c, f') \<longleftrightarrow> fl_calls f k = Some c \<and> f' = f"
  by (auto simp: acquire_def split: option.splits)

lemma fl_done_Ok:
  assumes "fl_wf f"
  shows "\<exists>f'. fl_done k f = Ok f' \<and> fl_wf f' \<and> fl_calls f' = (fl_calls f)(k := None)
    \<and> fl_next f' = fl_next f
    \<and> fl_closed f' = fl_closed f \<union> (case fl_calls f k of None \<Rightarrow> {} | Some c \<Rightarrow> {c})"
proof (cases "fl_calls f k")
  case None
  then have "(fl_calls f)(k := None) = fl_calls f" by (simp add: fun_upd_idem)
  with None assms show ?thesis by (simp add: fl_done_def)
next
  case (Some c)
  from fl_wfD [OF assms Some] have c: "c < fl_next f" "c \<notin> fl_closed f" .
  with Some assms have "fl_wf (f\<lparr>fl_closed := insert c (fl_closed f), fl_calls := (fl_calls f)(k := None)\<rparr>)"
    unfolding fl_wf_def by auto
  with Some c show ?thesis by (auto simp: fl_done_def)
qed

end
