(* ===== verification/Store.thy ===== *)
theory Store
  imports Prelude
begin

text \<open>
  \<^verbatim>\<open>cache/store.go\<close>: the \<open>Store\<close> interface as a record of operations and its contract as the
  locale \<open>kv_store\<close>, and \<open>MemoryStore\<close>: a map from keys to list elements, the elements on a
  heap, and the recency list of elements, front first. Each method holds the mutex, so it is one
  step. \<open>now\<close> is the value of \<open>time.Now()\<close> in nanoseconds; \<open>me_expires = None\<close> is the zero time.
\<close>

section \<open>The interface\<close>

text \<open>A miss is \<open>Ok None\<close>. An operation returns its outcome and the new state.\<close>

record 's store =
  st_Get :: "int \<Rightarrow> string \<Rightarrow> 's \<Rightarrow> string option outcome \<times> 's"
  st_Set :: "int \<Rightarrow> string \<Rightarrow> string \<Rightarrow> int \<Rightarrow> 's \<Rightarrow> unit outcome \<times> 's"
  st_Delete :: "string \<Rightarrow> 's \<Rightarrow> unit outcome \<times> 's"
  st_DeletePrefix :: "string \<Rightarrow> 's \<Rightarrow> unit outcome \<times> 's"
  st_Flush :: "'s \<Rightarrow> unit outcome \<times> 's"

text \<open>
  Two contracts, over what a \<open>Get\<close> at time \<open>now\<close> would find, \<open>lookup now k s\<close>, and the provider's
  invariant \<open>inv\<close>. The weak one, \<open>kv_safe\<close>, lets every operation fail and every entry vanish, as a
  store behind a network may: only values that were stored under a key are ever found there.
\<close>

locale kv_safe =
  fixes ops :: "'s store" and inv :: "'s \<Rightarrow> bool" and lookup :: "int \<Rightarrow> string \<Rightarrow> 's \<Rightarrow> string option"
  assumes get_found: "inv s \<Longrightarrow> fst (st_Get ops now k s) = Ok (Some v) \<Longrightarrow> lookup now k s = Some v"
    and get_inv: "inv s \<Longrightarrow> inv (snd (st_Get ops now k s))"
    and get_visible: "inv s \<Longrightarrow> now \<le> now' \<Longrightarrow> lookup now' k' (snd (st_Get ops now k s)) = Some w \<Longrightarrow>
          lookup now' k' s = Some w"
    and set_inv: "inv s \<Longrightarrow> inv (snd (st_Set ops now k v ttl s))"
    and set_visible: "inv s \<Longrightarrow> now \<le> now' \<Longrightarrow> lookup now' k' (snd (st_Set ops now k v ttl s)) = Some w \<Longrightarrow>
          (k' = k \<and> w = v) \<or> lookup now' k' s = Some w"
    and delete_inv: "inv s \<Longrightarrow> inv (snd (st_Delete ops k s))"
    and delete_visible: "inv s \<Longrightarrow> lookup now k' (snd (st_Delete ops k s)) = Some w \<Longrightarrow> lookup now k' s = Some w"
    and prefix_inv: "inv s \<Longrightarrow> inv (snd (st_DeletePrefix ops p s))"
    and prefix_visible: "inv s \<Longrightarrow> lookup now k' (snd (st_DeletePrefix ops p s)) = Some w \<Longrightarrow> lookup now k' s = Some w"
    and flush_inv: "inv s \<Longrightarrow> inv (snd (st_Flush ops s))"
    and flush_visible: "inv s \<Longrightarrow> lookup now k' (snd (st_Flush ops s)) = Some w \<Longrightarrow> lookup now k' s = Some w"
begin

end

text \<open>
  The strong one, \<open>kv_store\<close>, is what a healthy store promises: every operation succeeds and does
  exactly what it says. A store may drop other keys when it stores one (eviction), never change or
  invent one.
\<close>

locale kv_store =
  fixes ops :: "'s store" and inv :: "'s \<Rightarrow> bool" and lookup :: "int \<Rightarrow> string \<Rightarrow> 's \<Rightarrow> string option"
  assumes get_result: "inv s \<Longrightarrow> fst (st_Get ops now k s) = Ok (lookup now k s)"
    and get_inv: "inv s \<Longrightarrow> inv (snd (st_Get ops now k s))"
    and get_lookup: "inv s \<Longrightarrow> now \<le> now' \<Longrightarrow> lookup now' k' (snd (st_Get ops now k s)) = lookup now' k' s"
    and set_ok: "inv s \<Longrightarrow> fst (st_Set ops now k v ttl s) = Ok ()"
    and set_inv: "inv s \<Longrightarrow> inv (snd (st_Set ops now k v ttl s))"
    and set_same: "inv s \<Longrightarrow> lookup now k (snd (st_Set ops now k v ttl s)) = Some v"
    and set_later: "inv s \<Longrightarrow> lookup now' k (snd (st_Set ops now k v ttl s)) \<in> {Some v, None}"
    and set_other: "inv s \<Longrightarrow> k' \<noteq> k \<Longrightarrow>
          lookup now' k' (snd (st_Set ops now k v ttl s)) \<in> {lookup now' k' s, None}"
    and delete_ok: "inv s \<Longrightarrow> fst (st_Delete ops k s) = Ok ()"
    and delete_inv: "inv s \<Longrightarrow> inv (snd (st_Delete ops k s))"
    and delete_lookup: "inv s \<Longrightarrow>
          lookup now k' (snd (st_Delete ops k s)) = (if k' = k then None else lookup now k' s)"
    and prefix_ok: "inv s \<Longrightarrow> fst (st_DeletePrefix ops p s) = Ok ()"
    and prefix_inv: "inv s \<Longrightarrow> inv (snd (st_DeletePrefix ops p s))"
    and prefix_lookup: "inv s \<Longrightarrow>
          lookup now k' (snd (st_DeletePrefix ops p s)) = (if has_prefix k' p then None else lookup now k' s)"
    and flush_ok: "inv s \<Longrightarrow> fst (st_Flush ops s) = Ok ()"
    and flush_inv: "inv s \<Longrightarrow> inv (snd (st_Flush ops s))"
    and flush_lookup: "inv s \<Longrightarrow> lookup now k' (snd (st_Flush ops s)) = None"
begin

text \<open>The operations of a run, and what a run can make visible: every value a lookup returns was
  stored under that key earlier in the run, or was visible at its start.\<close>

lemma get_same: "inv s \<Longrightarrow> fst (st_Get ops now k (snd (st_Set ops now k v ttl s))) = Ok (Some v)"
  by (simp add: get_result set_inv set_same)

lemma set_seen:
  "inv s \<Longrightarrow> lookup now' k' (snd (st_Set ops now k v ttl s)) = Some w \<Longrightarrow>
   (k' = k \<and> w = v) \<or> lookup now' k' s = Some w"
  using set_later [of s now' k now v ttl] set_other [of s k' k now' now v ttl]
  by (cases "k' = k") auto

end

text \<open>The strong contract gives the weak one.\<close>

sublocale kv_store \<subseteq> safe: kv_safe ops inv lookup
  by unfold_locales
    (auto simp: get_result get_inv get_lookup set_inv delete_inv delete_lookup prefix_inv prefix_lookup
      flush_inv flush_lookup split: if_splits dest: set_seen)

section \<open>MemoryStore\<close>

record mem_entry =
  me_key :: string
  me_val :: string
  me_expires :: "int option"

record mem_store =
  ms_cap :: int
  ms_ttl :: int
  ms_items :: "string \<Rightarrow> nat option"
  ms_lru :: "nat list"
  ms_heap :: "nat \<Rightarrow> mem_entry"
  ms_next :: nat

definition no_entry :: mem_entry where
  "no_entry = \<lparr>me_key = [], me_val = [], me_expires = None\<rparr>"

definition NewMemoryStore :: "int \<Rightarrow> int \<Rightarrow> mem_store" where
  "NewMemoryStore capacity defaultTTL =
     \<lparr>ms_cap = capacity, ms_ttl = defaultTTL, ms_items = (\<lambda>_. None), ms_lru = [],
      ms_heap = (\<lambda>_. no_entry), ms_next = 0\<rparr>"

text \<open>\<open>remove\<close>: unlink the element, then delete the key the element holds.\<close>

definition ms_remove :: "nat \<Rightarrow> mem_store \<Rightarrow> mem_store" where
  "ms_remove el s =
     s\<lparr>ms_lru := filter (\<lambda>x. x \<noteq> el) (ms_lru s),
       ms_items := (ms_items s)(me_key (ms_heap s el) := None)\<rparr>"

definition ms_evict :: "mem_store \<Rightarrow> mem_store" where
  "ms_evict s = (case rev (ms_lru s) of [] \<Rightarrow> s | back # _ \<Rightarrow> ms_remove back s)"

definition move_to_front :: "nat \<Rightarrow> nat list \<Rightarrow> nat list" where
  "move_to_front el xs = el # filter (\<lambda>x. x \<noteq> el) xs"

definition expired :: "int \<Rightarrow> int option \<Rightarrow> bool" where
  "expired now x = (case x of None \<Rightarrow> False | Some t \<Rightarrow> now > t)"

definition ms_Get :: "int \<Rightarrow> string \<Rightarrow> mem_store \<Rightarrow> string option outcome \<times> mem_store" where
  "ms_Get now key s =
     (case ms_items s key of
        None \<Rightarrow> (Ok None, s)
      | Some el \<Rightarrow>
          (let e = ms_heap s el in
           if expired now (me_expires e) then (Ok None, ms_remove el s)
           else (Ok (Some (me_val e)), s\<lparr>ms_lru := move_to_front el (ms_lru s)\<rparr>)))"

definition ms_expires :: "int \<Rightarrow> int \<Rightarrow> mem_store \<Rightarrow> int option" where
  "ms_expires now ttl s =
     (if ttl > 0 then Some (now + ttl) else if ms_ttl s > 0 then Some (now + ms_ttl s) else None)"

definition ms_Set :: "int \<Rightarrow> string \<Rightarrow> string \<Rightarrow> int \<Rightarrow> mem_store \<Rightarrow> unit outcome \<times> mem_store" where
  "ms_Set now key value ttl s =
     (let expires = ms_expires now ttl s in
      case ms_items s key of
        Some el \<Rightarrow>
          (Ok (), s\<lparr>ms_heap := (ms_heap s)(el := (ms_heap s el)\<lparr>me_val := value, me_expires := expires\<rparr>),
                    ms_lru := move_to_front el (ms_lru s)\<rparr>)
      | None \<Rightarrow>
          (let s = (if ms_cap s > 0 \<and> int (length (ms_lru s)) \<ge> ms_cap s then ms_evict s else s);
               el = ms_next s
           in (Ok (), s\<lparr>ms_heap := (ms_heap s)(el := \<lparr>me_key = key, me_val = value, me_expires = expires\<rparr>),
                        ms_next := el + 1,
                        ms_items := (ms_items s)(key \<mapsto> el),
                        ms_lru := el # ms_lru s\<rparr>)))"

definition ms_Delete :: "string \<Rightarrow> mem_store \<Rightarrow> unit outcome \<times> mem_store" where
  "ms_Delete key s = (case ms_items s key of Some el \<Rightarrow> (Ok (), ms_remove el s) | None \<Rightarrow> (Ok (), s))"

text \<open>\<open>DeletePrefix\<close> ranges over the map, in an order the runtime chooses: \<open>order\<close> gives the keys
  in the order the range visits them (a key already deleted is not visited).\<close>

definition delete_visit :: "string \<Rightarrow> string \<Rightarrow> mem_store \<Rightarrow> mem_store" where
  "delete_visit prefix key s =
     (case ms_items s key of
        None \<Rightarrow> s
      | Some el \<Rightarrow> if has_prefix key prefix then ms_remove el s else s)"

definition delete_range :: "string list \<Rightarrow> string \<Rightarrow> mem_store \<Rightarrow> mem_store" where
  "delete_range order prefix s = fold (delete_visit prefix) order s"

definition ms_DeletePrefix :: "(mem_store \<Rightarrow> string list) \<Rightarrow> string \<Rightarrow> mem_store \<Rightarrow> unit outcome \<times> mem_store" where
  "ms_DeletePrefix order prefix s = (Ok (), delete_range (order s) prefix s)"

definition ms_Flush :: "mem_store \<Rightarrow> unit outcome \<times> mem_store" where
  "ms_Flush s = (Ok (), s\<lparr>ms_items := (\<lambda>_. None), ms_lru := []\<rparr>)"

definition mem_ops :: "(mem_store \<Rightarrow> string list) \<Rightarrow> mem_store store" where
  "mem_ops order =
     \<lparr>st_Get = ms_Get, st_Set = ms_Set, st_Delete = ms_Delete,
      st_DeletePrefix = ms_DeletePrefix order, st_Flush = ms_Flush\<rparr>"

section \<open>Invariant\<close>

text \<open>The map and the recency list hold the same elements, every element is filed under its own
  key, new elements are fresh, and a positive capacity is respected.\<close>

definition ms_wf :: "mem_store \<Rightarrow> bool" where
  "ms_wf s =
     (distinct (ms_lru s)
      \<and> (\<forall>k el. ms_items s k = Some el \<longleftrightarrow> el \<in> set (ms_lru s) \<and> me_key (ms_heap s el) = k)
      \<and> (\<forall>el \<in> set (ms_lru s). el < ms_next s)
      \<and> (ms_cap s > 0 \<longrightarrow> int (length (ms_lru s)) \<le> ms_cap s))"

lemma ms_wf_new: "ms_wf (NewMemoryStore c t)"
  by (simp add: ms_wf_def NewMemoryStore_def)

lemma ms_wfD:
  assumes "ms_wf s"
  shows "distinct (ms_lru s)"
    and "ms_items s k = Some el \<longleftrightarrow> el \<in> set (ms_lru s) \<and> me_key (ms_heap s el) = k"
    and "el \<in> set (ms_lru s) \<Longrightarrow> el < ms_next s"
    and "ms_cap s > 0 \<Longrightarrow> int (length (ms_lru s)) \<le> ms_cap s"
  using assms by (auto simp: ms_wf_def)

lemma key_inj:
  assumes "ms_wf s" "x \<in> set (ms_lru s)" "y \<in> set (ms_lru s)" "me_key (ms_heap s x) = me_key (ms_heap s y)"
  shows "x = y"
  using ms_wfD(2) [OF assms(1)] assms(2-4) by (metis option.inject)

lemma items_None: "ms_wf s \<Longrightarrow> ms_items s k = None \<longleftrightarrow> (\<forall>el \<in> set (ms_lru s). me_key (ms_heap s el) \<noteq> k)"
  using ms_wfD(2) [of s k] by (metis not_Some_eq)

lemma ms_remove_wf:
  assumes "ms_wf s" "el \<in> set (ms_lru s)"
  shows "ms_wf (ms_remove el s)"
proof -
  have "int (length (filter (\<lambda>x. x \<noteq> el) (ms_lru s))) \<le> int (length (ms_lru s))" by simp
  then have "ms_cap s > 0 \<Longrightarrow> int (length (filter (\<lambda>x. x \<noteq> el) (ms_lru s))) \<le> ms_cap s"
    using ms_wfD(4) [OF assms(1)] by linarith
  then show ?thesis
    using assms ms_wfD(1-3) [OF assms(1)] key_inj [OF assms(1)]
    by (auto simp: ms_wf_def ms_remove_def)
qed

lemma length_filter_neq: "distinct xs \<Longrightarrow> el \<in> set xs \<Longrightarrow> Suc (length (filter (\<lambda>x. x \<noteq> el) xs)) = length xs"
proof (induction xs)
  case (Cons a xs)
  show ?case
  proof (cases "a = el")
    case True
    with Cons.prems have "filter (\<lambda>x. x \<noteq> el) xs = xs" by (auto simp: filter_id_conv)
    with True show ?thesis by simp
  qed (use Cons in auto)
qed simp

lemma length_move_to_front: "distinct xs \<Longrightarrow> el \<in> set xs \<Longrightarrow> length (move_to_front el xs) = length xs"
  using length_filter_neq by (simp add: move_to_front_def)

lemma set_move_to_front: "el \<in> set xs \<Longrightarrow> set (move_to_front el xs) = set xs"
  by (auto simp: move_to_front_def)

lemma distinct_move_to_front: "distinct xs \<Longrightarrow> distinct (move_to_front el xs)"
  by (simp add: move_to_front_def)

lemmas move_simps = length_move_to_front set_move_to_front distinct_move_to_front

lemma ms_Get_wf: "ms_wf s \<Longrightarrow> ms_wf (snd (ms_Get now k s))"
proof -
  assume wf: "ms_wf s"
  show ?thesis
  proof (cases "ms_items s k")
    case (Some el)
    with wf have el: "el \<in> set (ms_lru s)" using ms_wfD(2) by blast
    have "ms_wf (s\<lparr>ms_lru := move_to_front el (ms_lru s)\<rparr>)"
      using wf el by (simp add: ms_wf_def move_simps)
    with Some ms_remove_wf [OF wf el] show ?thesis by (simp add: ms_Get_def Let_def)
  qed (simp add: ms_Get_def wf)
qed

lemma ms_evict_wf: "ms_wf s \<Longrightarrow> ms_wf (ms_evict s)"
  by (auto simp: ms_evict_def split: list.splits intro!: ms_remove_wf)

text \<open>Eviction removes exactly the back of the recency list.\<close>

lemma ms_evict_lru:
  assumes "ms_wf s" "ms_lru s \<noteq> []"
  shows "ms_lru (ms_evict s) = butlast (ms_lru s)"
proof -
  obtain xs el where xs: "ms_lru s = xs @ [el]" using assms(2) by (metis append_butlast_last_id)
  then have "el \<notin> set xs" using ms_wfD(1) [OF assms(1)] by simp
  then have "filter (\<lambda>x. x \<noteq> el) xs = xs" by (auto simp: filter_id_conv)
  with xs show ?thesis by (simp add: ms_evict_def ms_remove_def)
qed

lemma ms_evict_fields [simp]:
  "ms_cap (ms_evict s) = ms_cap s" "ms_ttl (ms_evict s) = ms_ttl s" "ms_heap (ms_evict s) = ms_heap s"
  "ms_next (ms_evict s) = ms_next s"
  by (simp_all add: ms_evict_def ms_remove_def split: list.splits)

lemma evict_None: "ms_items s k = None \<Longrightarrow> ms_items (ms_evict s) k = None"
  by (auto simp: ms_evict_def ms_remove_def split: list.splits)

text \<open>The two branches of \<open>Set\<close>.\<close>

definition ms_room :: "mem_store \<Rightarrow> mem_store" where
  "ms_room s = (if ms_cap s > 0 \<and> int (length (ms_lru s)) \<ge> ms_cap s then ms_evict s else s)"

lemma ms_Set_old:
  "ms_items s key = Some el \<Longrightarrow>
   ms_Set now key value ttl s =
     (Ok (), s\<lparr>ms_heap := (ms_heap s)(el := (ms_heap s el)\<lparr>me_val := value, me_expires := ms_expires now ttl s\<rparr>),
               ms_lru := move_to_front el (ms_lru s)\<rparr>)"
  by (simp add: ms_Set_def Let_def)

lemma ms_Set_new:
  "ms_items s key = None \<Longrightarrow>
   ms_Set now key value ttl s =
     (Ok (), (ms_room s)\<lparr>ms_heap := (ms_heap s)(ms_next s := \<lparr>me_key = key, me_val = value, me_expires = ms_expires now ttl s\<rparr>),
               ms_next := ms_next s + 1, ms_items := (ms_items (ms_room s))(key \<mapsto> ms_next s),
               ms_lru := ms_next s # ms_lru (ms_room s)\<rparr>)"
  by (simp add: ms_Set_def Let_def ms_room_def)

lemma ms_room_fields [simp]:
  "ms_cap (ms_room s) = ms_cap s" "ms_ttl (ms_room s) = ms_ttl s" "ms_heap (ms_room s) = ms_heap s"
  "ms_next (ms_room s) = ms_next s"
  by (simp_all add: ms_room_def)

lemma ms_room_wf: "ms_wf s \<Longrightarrow> ms_wf (ms_room s)"
  by (simp add: ms_room_def ms_evict_wf)

lemma ms_room_room:
  assumes "ms_wf s" "ms_cap s > 0"
  shows "int (length (ms_lru (ms_room s))) < ms_cap s"
proof (cases "int (length (ms_lru s)) \<ge> ms_cap s")
  case True
  with assms(2) have ne: "ms_lru s \<noteq> []" by auto
  with ms_evict_lru [OF assms(1) ne] ms_wfD(4) [OF assms] True assms(2) show ?thesis
    by (cases "ms_lru s" rule: rev_cases) (simp_all add: ms_room_def)
qed (simp add: ms_room_def)

lemma ms_Set_wf:
  assumes "ms_wf s"
  shows "ms_wf (snd (ms_Set now key value ttl s))"
proof (cases "ms_items s key")
  case (Some el)
  then have "el \<in> set (ms_lru s)" using ms_wfD(2) [OF assms] by blast
  with assms show ?thesis
    unfolding ms_Set_old [OF Some] by (simp add: ms_wf_def move_simps)
next
  case None
  note wf = ms_room_wf [OF assms]
  have "ms_items (ms_room s) key = None" using None evict_None by (simp add: ms_room_def)
  then have keys: "\<forall>el \<in> set (ms_lru (ms_room s)). me_key (ms_heap s el) \<noteq> key"
    using items_None [OF wf] by simp
  have lt: "\<forall>el \<in> set (ms_lru (ms_room s)). el < ms_next s" using ms_wfD(3) [OF wf] by simp
  then have fresh: "ms_next s \<notin> set (ms_lru (ms_room s))" by blast
  have room: "ms_cap s > 0 \<longrightarrow> int (length (ms_lru (ms_room s))) + 1 \<le> ms_cap s"
    using ms_room_room [OF assms] by auto
  have items: "ms_items (ms_room s) k = Some el \<longleftrightarrow> el \<in> set (ms_lru (ms_room s)) \<and> me_key (ms_heap s el) = k" for k el
    using ms_wfD(2) [OF wf] by simp
  show ?thesis
    unfolding ms_Set_new [OF None] ms_wf_def
    using ms_wfD(1) [OF wf] fresh keys lt room items by (auto simp: less_Suc_eq)
qed

lemma delete_visit_wf: "ms_wf s \<Longrightarrow> ms_wf (delete_visit p k s)"
  by (auto simp: delete_visit_def ms_wfD(2) split: option.splits intro: ms_remove_wf)

lemma delete_range_wf: "ms_wf s \<Longrightarrow> ms_wf (delete_range order p s)"
  unfolding delete_range_def by (induction order arbitrary: s) (simp_all add: delete_visit_wf)

lemma ms_Delete_wf: "ms_wf s \<Longrightarrow> ms_wf (snd (ms_Delete k s))"
  by (auto simp: ms_Delete_def ms_wfD(2) split: option.splits intro: ms_remove_wf)

lemma ms_Flush_wf: "ms_wf s \<Longrightarrow> ms_wf (snd (ms_Flush s))"
  by (simp add: ms_Flush_def ms_wf_def)

section \<open>Refinement of a recency-ordered association list\<close>

type_synonym lru_list = "(string \<times> string \<times> int option) list"

definition drop_key :: "string \<Rightarrow> lru_list \<Rightarrow> lru_list" where
  "drop_key k l = filter (\<lambda>e. fst e \<noteq> k) l"

definition spec_get :: "int \<Rightarrow> string \<Rightarrow> lru_list \<Rightarrow> string option \<times> lru_list" where
  "spec_get now k l =
     (case map_of l k of
        None \<Rightarrow> (None, l)
      | Some (v, x) \<Rightarrow> if expired now x then (None, drop_key k l) else (Some v, (k, v, x) # drop_key k l))"

definition spec_set :: "int \<Rightarrow> string \<Rightarrow> string \<Rightarrow> int option \<Rightarrow> lru_list \<Rightarrow> lru_list" where
  "spec_set cap k v x l =
     (if map_of l k = None \<and> cap > 0 \<and> int (length l) \<ge> cap then (k, v, x) # butlast l
      else (k, v, x) # drop_key k l)"

definition ms_entry :: "mem_store \<Rightarrow> nat \<Rightarrow> string \<times> string \<times> int option" where
  "ms_entry s el = (me_key (ms_heap s el), me_val (ms_heap s el), me_expires (ms_heap s el))"

definition ms_abs :: "mem_store \<Rightarrow> lru_list" where
  "ms_abs s = map (ms_entry s) (ms_lru s)"

lemma ms_entry_evict [simp]: "ms_entry (ms_evict s) = ms_entry s"
  by (rule ext) (simp add: ms_entry_def)

lemma map_of_filter_keys: "map_of (filter (\<lambda>e. P (fst e)) l) k = (if P k then map_of l k else None)"
  by (induction l) auto

lemma map_of_drop_key: "map_of (drop_key k l) k' = (if k' = k then None else map_of l k')"
  using map_of_filter_keys [of "\<lambda>x. x \<noteq> k" l k'] by (simp add: drop_key_def)

lemma fst_ms_entry [simp]: "fst (ms_entry s el) = me_key (ms_heap s el)"
  by (simp add: ms_entry_def)

lemma map_of_entries:
  "inj_on (\<lambda>el. me_key (ms_heap s el)) (set els) \<Longrightarrow> el \<in> set els \<Longrightarrow>
   map_of (map (ms_entry s) els) (me_key (ms_heap s el)) = Some (me_val (ms_heap s el), me_expires (ms_heap s el))"
proof (induction els)
  case (Cons a els)
  show ?case
  proof (cases "me_key (ms_heap s a) = me_key (ms_heap s el)")
    case True
    with Cons.prems have "a = el" by (auto dest: inj_onD)
    then show ?thesis by (simp add: ms_entry_def)
  qed (use Cons in \<open>auto simp: ms_entry_def\<close>)
qed simp

lemma ms_abs_lookup:
  assumes "ms_wf s"
  shows "map_of (ms_abs s) k =
    (case ms_items s k of None \<Rightarrow> None | Some el \<Rightarrow> Some (me_val (ms_heap s el), me_expires (ms_heap s el)))"
proof (cases "ms_items s k")
  case None
  with items_None [OF assms] have "k \<notin> fst ` set (ms_abs s)" by (auto simp: ms_abs_def)
  with None show ?thesis by (simp add: map_of_eq_None_iff)
next
  case (Some el)
  then have el: "el \<in> set (ms_lru s)" "me_key (ms_heap s el) = k" using ms_wfD(2) [OF assms] by blast+
  have "inj_on (\<lambda>el. me_key (ms_heap s el)) (set (ms_lru s))" by (auto intro: inj_onI key_inj [OF assms])
  from map_of_entries [OF this el(1)] el(2) Some show ?thesis by (simp add: ms_abs_def)
qed

lemma drop_key_abs:
  assumes "ms_wf s" "ms_items s k = Some el"
  shows "drop_key k (ms_abs s) = map (ms_entry s) (filter (\<lambda>x. x \<noteq> el) (ms_lru s))"
proof -
  have "me_key (ms_heap s x) \<noteq> k \<longleftrightarrow> x \<noteq> el" if "x \<in> set (ms_lru s)" for x
    using assms ms_wfD(2) [OF assms(1), of k] that by (metis option.inject)
  then show ?thesis
    by (simp add: drop_key_def ms_abs_def filter_map comp_def cong: filter_cong)
qed

lemma drop_key_none: "map_of l k = None \<Longrightarrow> drop_key k l = l"
  by (auto simp: drop_key_def filter_id_conv map_of_eq_None_iff)

lemma ms_remove_abs:
  "ms_wf s \<Longrightarrow> ms_items s k = Some el \<Longrightarrow> ms_abs (ms_remove el s) = drop_key k (ms_abs s)"
  by (simp add: drop_key_abs) (simp add: ms_abs_def ms_remove_def ms_entry_def)

lemma ms_Get_abs:
  assumes "ms_wf s"
  shows "fst (ms_Get now k s) = Ok (fst (spec_get now k (ms_abs s)))
    \<and> ms_abs (snd (ms_Get now k s)) = snd (spec_get now k (ms_abs s))"
proof (cases "ms_items s k")
  case None
  with ms_abs_lookup [OF assms, of k] show ?thesis by (simp add: ms_Get_def spec_get_def)
next
  case (Some el)
  then have key: "me_key (ms_heap s el) = k" using ms_wfD(2) [OF assms] by blast
  have "ms_abs (s\<lparr>ms_lru := move_to_front el (ms_lru s)\<rparr>)
      = (k, me_val (ms_heap s el), me_expires (ms_heap s el)) # drop_key k (ms_abs s)"
    unfolding drop_key_abs [OF assms Some] using key
    by (simp add: ms_abs_def move_to_front_def ms_entry_def)
  with Some ms_abs_lookup [OF assms, of k] ms_remove_abs [OF assms Some] show ?thesis
    by (simp add: ms_Get_def spec_get_def Let_def)
qed

lemma length_ms_abs [simp]: "length (ms_abs s) = length (ms_lru s)"
  by (simp add: ms_abs_def)

lemma ms_room_abs:
  assumes "ms_wf s"
  shows "ms_abs (ms_room s) = (if ms_cap s > 0 \<and> int (length (ms_abs s)) \<ge> ms_cap s then butlast (ms_abs s) else ms_abs s)"
proof (cases "ms_cap s > 0 \<and> int (length (ms_abs s)) \<ge> ms_cap s")
  case True
  then have ne: "ms_lru s \<noteq> []" by auto
  with True ms_evict_lru [OF assms ne] show ?thesis
    by (simp add: ms_abs_def ms_room_def ms_entry_def map_butlast)
qed (auto simp: ms_room_def)

lemma ms_Set_abs:
  assumes "ms_wf s"
  shows "ms_abs (snd (ms_Set now k v ttl s)) = spec_set (ms_cap s) k v (ms_expires now ttl s) (ms_abs s)"
proof (cases "ms_items s k")
  case (Some el)
  then have key: "me_key (ms_heap s el) = k" using ms_wfD(2) [OF assms] by blast
  with Some show ?thesis
    using ms_abs_lookup [OF assms, of k]
    by (simp add: ms_Set_old spec_set_def drop_key_abs [OF assms Some])
      (simp add: ms_abs_def move_to_front_def ms_entry_def)
next
  case None
  have fresh: "ms_next s \<notin> set (ms_lru (ms_room s))" using ms_wfD(3) [OF ms_room_wf [OF assms]] by fastforce
  have look: "map_of (ms_abs s) k = None" using None ms_abs_lookup [OF assms, of k] by simp
  have "ms_abs (snd (ms_Set now k v ttl s)) = (k, v, ms_expires now ttl s) # ms_abs (ms_room s)"
    unfolding ms_Set_new [OF None] using fresh by (auto simp: ms_abs_def ms_entry_def)
  with look show ?thesis by (simp add: ms_room_abs [OF assms] spec_set_def drop_key_none)
qed

lemma ms_Delete_abs: "ms_wf s \<Longrightarrow> ms_abs (snd (ms_Delete k s)) = drop_key k (ms_abs s)"
  using ms_abs_lookup [of s k]
  by (cases "ms_items s k") (simp_all add: ms_Delete_def drop_key_none ms_remove_abs)

lemma delete_visit_abs:
  "ms_wf s \<Longrightarrow> ms_abs (delete_visit p k s) = filter (\<lambda>e. \<not> (fst e = k \<and> has_prefix k p)) (ms_abs s)"
proof -
  assume wf: "ms_wf s"
  show ?thesis
  proof (cases "ms_items s k")
    case None
    then have "map_of (ms_abs s) k = None" using ms_abs_lookup [OF wf, of k] by simp
    with None show ?thesis
      by (auto simp: delete_visit_def map_of_eq_None_iff intro!: filter_True [symmetric])
  next
    case (Some el)
    with ms_remove_abs [OF wf Some] show ?thesis by (simp add: delete_visit_def drop_key_def)
  qed
qed

lemma delete_range_abs:
  "ms_wf s \<Longrightarrow> ms_abs (delete_range order p s) = filter (\<lambda>e. \<not> (fst e \<in> set order \<and> has_prefix (fst e) p)) (ms_abs s)"
proof (induction order arbitrary: s)
  case (Cons k order)
  from Cons.IH [OF delete_visit_wf [OF Cons.prems]] delete_visit_abs [OF Cons.prems, of p k]
  show ?case by (simp add: delete_range_def) (rule filter_cong, auto)
qed (simp add: delete_range_def)

lemma ms_DeletePrefix_abs:
  assumes "ms_wf s" "set (order s) = dom (ms_items s)"
  shows "ms_abs (snd (ms_DeletePrefix order p s)) = filter (\<lambda>e. \<not> has_prefix (fst e) p) (ms_abs s)"
proof -
  have "fst e \<in> set (order s)" if "e \<in> set (ms_abs s)" for e
    using that ms_abs_lookup [OF assms(1), of "fst e"] assms(2)
    by (cases "ms_items s (fst e)") (auto simp: map_of_eq_None_iff)
  then show ?thesis
    by (simp add: ms_DeletePrefix_def delete_range_abs [OF assms(1)] cong: filter_cong)
qed

lemma ms_Flush_abs: "ms_abs (snd (ms_Flush s)) = []"
  by (simp add: ms_Flush_def ms_abs_def)

section \<open>MemoryStore fulfils the contract\<close>

definition ms_lookup :: "int \<Rightarrow> string \<Rightarrow> mem_store \<Rightarrow> string option" where
  "ms_lookup now k s = fst (spec_get now k (ms_abs s))"

lemma spec_get_lookup:
  "now \<le> now' \<Longrightarrow> fst (spec_get now' k' (snd (spec_get now k l))) = fst (spec_get now' k' l)"
  by (auto simp: spec_get_def map_of_drop_key expired_def split: option.splits)

lemma lookup_cong: "map_of l k = map_of l' k \<Longrightarrow> fst (spec_get now k l) = fst (spec_get now k l')"
  by (simp add: spec_get_def split: option.splits prod.splits)

lemma spec_set_same: "map_of (spec_set cap k v x l) k = Some (v, x)"
  by (simp add: spec_set_def)

lemma map_of_butlast: "distinct (map fst l) \<Longrightarrow> map_of (butlast l) k \<in> {map_of l k, None}"
proof (induction l rule: rev_induct)
  case (snoc e l)
  then show ?case by (auto simp: map_add_def map_of_eq_None_iff split: option.splits)
qed simp

lemma distinct_abs: "ms_wf s \<Longrightarrow> distinct (map fst (ms_abs s))"
  by (auto simp: ms_abs_def comp_def distinct_map ms_wfD(1) intro: inj_onI key_inj)

lemma spec_set_other:
  "distinct (map fst l) \<Longrightarrow> k' \<noteq> k \<Longrightarrow> map_of (spec_set cap k v x l) k' \<in> {map_of l k', None}"
  using map_of_butlast [of l k'] by (auto simp: spec_set_def map_of_drop_key)

lemma lookup_None: "map_of l k = None \<Longrightarrow> fst (spec_get now k l) = None"
  by (simp add: spec_get_def)

lemma spec_set_other_lookup:
  assumes "distinct (map fst l)" "k' \<noteq> k"
  shows "fst (spec_get now' k' (spec_set cap k v x l)) \<in> {fst (spec_get now' k' l), None}"
  using spec_set_other [OF assms, of cap v x] lookup_cong [of "spec_set cap k v x l" k' l now']
    lookup_None [of "spec_set cap k v x l" k' now'] by blast

text \<open>One order in which the map may be visited; by \<open>ms_DeletePrefix_abs\<close> the choice does not
  matter.\<close>

definition lru_keys :: "mem_store \<Rightarrow> string list" where
  "lru_keys s = map (\<lambda>el. me_key (ms_heap s el)) (ms_lru s)"

lemma set_lru_keys: "ms_wf s \<Longrightarrow> set (lru_keys s) = dom (ms_items s)"
  by (auto simp: lru_keys_def ms_wfD(2))

lemma not_expired_new: "\<not> expired now (ms_expires now ttl s)"
  by (simp add: expired_def ms_expires_def)

interpretation mem: kv_store "mem_ops lru_keys" ms_wf ms_lookup
proof (unfold_locales, simp_all only: mem_ops_def store.simps)
  fix s now now' k k' v ttl p
  assume wf: "ms_wf s"
  note get = ms_Get_abs [OF wf] and set = ms_Set_abs [OF wf]
  show "fst (ms_Get now k s) = Ok (ms_lookup now k s)" using get by (simp add: ms_lookup_def)
  show "ms_wf (snd (ms_Get now k s))" by (rule ms_Get_wf [OF wf])
  show "now \<le> now' \<Longrightarrow> ms_lookup now' k' (snd (ms_Get now k s)) = ms_lookup now' k' s"
    using get by (simp add: ms_lookup_def spec_get_lookup)
  show "fst (ms_Set now k v ttl s) = Ok ()" by (simp add: ms_Set_def Let_def split: option.splits)
  show "ms_wf (snd (ms_Set now k v ttl s))" by (rule ms_Set_wf [OF wf])
  show "ms_lookup now k (snd (ms_Set now k v ttl s)) = Some v"
    using not_expired_new by (simp add: ms_lookup_def set spec_get_def spec_set_same)
  show "ms_lookup now' k (snd (ms_Set now k v ttl s)) \<in> {Some v, None}"
    by (simp add: ms_lookup_def set spec_get_def spec_set_same)
  show "k' \<noteq> k \<Longrightarrow> ms_lookup now' k' (snd (ms_Set now k v ttl s)) \<in> {ms_lookup now' k' s, None}"
    unfolding ms_lookup_def set using spec_set_other_lookup [OF distinct_abs [OF wf]] .
  show "fst (ms_Delete k s) = Ok ()" by (simp add: ms_Delete_def split: option.splits)
  show "ms_wf (snd (ms_Delete k s))" by (rule ms_Delete_wf [OF wf])
  show "ms_lookup now k' (snd (ms_Delete k s)) = (if k' = k then None else ms_lookup now k' s)"
    by (simp add: ms_lookup_def ms_Delete_abs [OF wf] spec_get_def map_of_drop_key split: option.splits)
  show "fst (ms_DeletePrefix lru_keys p s) = Ok ()" by (simp add: ms_DeletePrefix_def)
  show "ms_wf (snd (ms_DeletePrefix lru_keys p s))" by (simp add: ms_DeletePrefix_def delete_range_wf wf)
  show "ms_lookup now k' (snd (ms_DeletePrefix lru_keys p s)) = (if has_prefix k' p then None else ms_lookup now k' s)"
    using map_of_filter_keys [of "\<lambda>k. \<not> has_prefix k p" "ms_abs s" k']
    by (simp add: ms_lookup_def ms_DeletePrefix_abs [of s lru_keys, OF wf set_lru_keys [OF wf]] spec_get_def
        split: option.splits)
  show "fst (ms_Flush s) = Ok ()" by (simp add: ms_Flush_def)
  show "ms_wf (snd (ms_Flush s))" by (rule ms_Flush_wf [OF wf])
  show "ms_lookup now k' (snd (ms_Flush s)) = None" by (simp add: ms_lookup_def ms_Flush_abs spec_get_def)
qed

section \<open>Runs\<close>

datatype mem_op =
    MGet int string
  | MSet int string string int
  | MDelete string
  | MDeletePrefix string
  | MFlush

fun mem_step :: "(mem_store \<Rightarrow> string list) \<Rightarrow> mem_op \<Rightarrow> mem_store \<Rightarrow> mem_store" where
  "mem_step order (MGet now k) s = snd (ms_Get now k s)"
| "mem_step order (MSet now k v ttl) s = snd (ms_Set now k v ttl s)"
| "mem_step order (MDelete k) s = snd (ms_Delete k s)"
| "mem_step order (MDeletePrefix p) s = snd (ms_DeletePrefix order p s)"
| "mem_step order MFlush s = snd (ms_Flush s)"

lemma mem_step_wf: "ms_wf s \<Longrightarrow> ms_wf (mem_step order oper s)"
  by (cases oper)
    (simp_all add: ms_Get_wf ms_Set_wf ms_Delete_wf ms_DeletePrefix_def delete_range_wf ms_Flush_wf)

lemma delete_range_fields: "ms_cap (delete_range xs p s) = ms_cap s \<and> ms_ttl (delete_range xs p s) = ms_ttl s"
  unfolding delete_range_def
  by (induction xs arbitrary: s) (simp_all add: delete_visit_def ms_remove_def split: option.splits)

lemma mem_step_cap: "ms_cap (mem_step order oper s) = ms_cap s"
  by (cases oper)
    (auto simp: ms_Get_def ms_Set_def ms_Delete_def ms_DeletePrefix_def ms_Flush_def Let_def ms_remove_def
        delete_range_fields split: option.splits)

lemma mem_run_wf: "ms_wf s \<Longrightarrow> ms_wf (fold (mem_step order) opers s) \<and> ms_cap (fold (mem_step order) opers s) = ms_cap s"
  by (induction opers arbitrary: s) (simp_all add: mem_step_wf mem_step_cap)

section \<open>Properties\<close>

text \<open>C12: every operation of \<open>MemoryStore\<close> refines its specification on a recency-ordered
  association list, results included: a \<open>Get\<close> of a live key moves it to the front, a \<open>Get\<close> of an
  expired one deletes it, a \<open>Set\<close> of a new key at full capacity drops exactly the least recently
  used one, and \<open>DeletePrefix\<close> drops the keys with the prefix whatever the order of the map range.\<close>

theorem MemoryStore_refines:
  assumes "ms_wf s" "set (order s) = dom (ms_items s)"
  shows "fst (ms_Get now k s) = Ok (fst (spec_get now k (ms_abs s)))
    \<and> ms_abs (snd (ms_Get now k s)) = snd (spec_get now k (ms_abs s))
    \<and> ms_abs (snd (ms_Set now k v ttl s)) = spec_set (ms_cap s) k v (ms_expires now ttl s) (ms_abs s)
    \<and> ms_abs (snd (ms_Delete k s)) = filter (\<lambda>e. fst e \<noteq> k) (ms_abs s)
    \<and> ms_abs (snd (ms_DeletePrefix order p s)) = filter (\<lambda>e. \<not> has_prefix (fst e) p) (ms_abs s)
    \<and> ms_abs (snd (ms_Flush s)) = []"
  using ms_Get_abs [OF assms(1)] ms_Set_abs [OF assms(1)] ms_Delete_abs [OF assms(1)]
    ms_DeletePrefix_abs [of s order, OF assms] ms_Flush_abs [of s]
  by (simp add: drop_key_def)

definition demo_store :: mem_store where
  "demo_store = snd (ms_Set 5 ''b'' ''2'' 0 (snd (ms_Set 5 ''a'' ''1'' 3 (NewMemoryStore 2 0))))"

lemma demo_store_wf: "ms_wf demo_store"
  unfolding demo_store_def by (intro ms_Set_wf ms_wf_new)

theorem MemoryStore_refines_witness:
  "ms_abs demo_store = [(''b'', ''2'', None), (''a'', ''1'', Some 8)]
   \<and> ms_abs (snd (ms_Set 6 ''c'' ''3'' 0 demo_store)) = [(''c'', ''3'', None), (''b'', ''2'', None)]
   \<and> fst (ms_Get 9 ''a'' demo_store) = Ok None"
proof -
  have d: "ms_abs demo_store = [(''b'', ''2'', None), (''a'', ''1'', Some 8)]" "ms_cap demo_store = 2"
    "ms_expires 6 0 demo_store = None" by code_simp+
  note r = MemoryStore_refines [OF demo_store_wf, of lru_keys, OF set_lru_keys [OF demo_store_wf]]
  have "ms_abs (snd (ms_Set 6 ''c'' ''3'' 0 demo_store)) = spec_set 2 ''c'' ''3'' None (ms_abs demo_store)"
    using r [of 6 "''c''" "''3''" 0] d by simp
  moreover have "fst (ms_Get 9 ''a'' demo_store) = Ok (fst (spec_get 9 ''a'' (ms_abs demo_store)))"
    using r [of 9 "''a''"] by blast
  ultimately show ?thesis unfolding d(1) by (simp add: spec_set_def spec_get_def expired_def)
qed

text \<open>C35: after any sequence of operations on a new store, with any order of the map ranges, the map
  and the recency list are consistent (so no key is stored twice and none is lost in one of them),
  and a positive capacity is never exceeded.\<close>

theorem MemoryStore_invariant:
  "let s = fold (mem_step order) opers (NewMemoryStore capacity defaultTTL) in
     ms_wf s \<and> distinct (map fst (ms_abs s))
     \<and> (capacity \<le> 0 \<or> int (card (dom (ms_items s))) \<le> capacity)"
proof -
  let ?s = "fold (mem_step order) opers (NewMemoryStore capacity defaultTTL)"
  have wf: "ms_wf ?s" and cap: "ms_cap ?s = capacity"
    using mem_run_wf [OF ms_wf_new] by (auto simp: NewMemoryStore_def)
  have "card (set (lru_keys ?s)) \<le> length (lru_keys ?s)" by (rule card_length)
  then have "card (dom (ms_items ?s)) \<le> length (ms_lru ?s)"
    unfolding set_lru_keys [OF wf] by (simp add: lru_keys_def)
  moreover have "capacity > 0 \<Longrightarrow> int (length (ms_lru ?s)) \<le> capacity" using ms_wfD(4) [OF wf] cap by simp
  ultimately have "capacity \<le> 0 \<or> int (card (dom (ms_items ?s))) \<le> capacity" by linarith
  with wf distinct_abs [OF wf] show ?thesis by (simp only: Let_def simp_thms)
qed

text \<open>reading after writing: right after a \<open>Set\<close> the key holds the value, whatever the ttl; no
  other key's visible value changes except by disappearing; a deleted key or prefix is gone and the
  other keys keep their visible value.\<close>

lemma MemoryStore_read_write:
  assumes "ms_wf s"
  shows "fst (ms_Get now k (snd (ms_Set now k v ttl s))) = Ok (Some v)
    \<and> (k' = k \<or> ms_lookup now' k' (snd (ms_Set now k v ttl s)) \<in> {ms_lookup now' k' s, None})
    \<and> ms_lookup now' k' (snd (ms_Delete k s)) = (if k' = k then None else ms_lookup now' k' s)
    \<and> ms_lookup now' k' (snd (ms_DeletePrefix lru_keys p s)) = (if has_prefix k' p then None else ms_lookup now' k' s)"
  using mem.get_same [OF assms] mem.set_other [OF assms] mem.delete_lookup [OF assms] mem.prefix_lookup [OF assms]
  by (cases "k' = k") (simp_all add: mem_ops_def)

lemma MemoryStore_read_write_witness:
  "fst (ms_Get 9 ''c'' (snd (ms_Set 9 ''c'' ''3'' 0 demo_store))) = Ok (Some ''3'')
   \<and> ms_lookup 6 ''b'' (snd (ms_DeletePrefix lru_keys ''a'' demo_store)) = Some ''2''"
proof -
  have "ms_lookup 6 ''b'' demo_store = Some ''2''" by code_simp
  then show ?thesis
    using MemoryStore_read_write [OF demo_store_wf, of 9 "''c''" "''3''" 0 "''b''" 6 "''a''"] by simp
qed

end
