(* ===== verification/Cache.thy ===== *)
theory Cache
  imports RowSource Flight Store Bind
begin

text \<open>
  \<^verbatim>\<open>cache/cache.go\<close>: the cache plugin. Its options, the logical and store keys, the
  invalidation calls, \<open>Before\<close> and \<open>After\<close>. \<open>Before\<close> can block, so it is a small machine whose
  steps are the atomic pieces of the code (an \<open>acquire\<close>, a \<open>wait\<close>, a look into the store); any
  number of goroutines run it against one store and one \<open>flight\<close>, interleaved by the step relation
  \<open>cache_step\<close>. The hash and \<open>json.Marshal\<close> are parameters.
\<close>

section \<open>Options and configuration\<close>

record cache_config =
  cch_defaultTTL :: int
  cch_invalidateOnWrite :: bool
  cch_singleflight :: bool
  cch_keyPrefix :: string
  cch_codec :: codec

datatype cache_option =
    WithDefaultTTL int
  | WithInvalidateOnWrite
  | WithSingleflight bool
  | WithKeyPrefix string
  | WithCodec codec

fun apply_cache_option :: "cache_config \<Rightarrow> cache_option \<Rightarrow> cache_config" where
  "apply_cache_option c (WithDefaultTTL d) = c\<lparr>cch_defaultTTL := d\<rparr>"
| "apply_cache_option c WithInvalidateOnWrite = c\<lparr>cch_invalidateOnWrite := True\<rparr>"
| "apply_cache_option c (WithSingleflight b) = c\<lparr>cch_singleflight := b\<rparr>"
| "apply_cache_option c (WithKeyPrefix p) = c\<lparr>cch_keyPrefix := p\<rparr>"
| "apply_cache_option c (WithCodec cd) = c\<lparr>cch_codec := cd\<rparr>"

definition New_cache :: "nat \<Rightarrow> cache_option list \<Rightarrow> cache_config" where
  "New_cache mem opts =
     foldl apply_cache_option
       \<lparr>cch_defaultTTL = 0, cch_invalidateOnWrite = False, cch_singleflight = True,
        cch_keyPrefix = [], cch_codec = binaryCodec mem\<rparr> opts"

text \<open>Call options.\<close>

definition WithTTL :: "int \<Rightarrow> call_option" where
  "WithTTL d = CallOption TTLKey (VDuration d)"

definition WithNamespace :: "string \<Rightarrow> call_option" where
  "WithNamespace ns = CallOption NamespaceKey (VStr ns)"

definition WithCache :: call_option where
  "WithCache = CallOption CacheEnableKey (VBool True)"

definition WithNoCache :: call_option where
  "WithNoCache = CallOption NoCacheKey (VBool True)"

definition WithInvalidateNamespace :: "string \<Rightarrow> call_option" where
  "WithInvalidateNamespace ns = CallOption InvalidateNSKey (VStr ns)"

record call_opts =
  co_ttl :: int
  co_namespace :: string
  co_noCache :: bool
  co_invalidate :: string

definition apply_cache_call :: "call_opts \<Rightarrow> call_option \<Rightarrow> call_opts" where
  "apply_cache_call o' opt =
     (case CallOptionKeyValue opt of
        (TTLKey, v) \<Rightarrow> (case v of VDuration d \<Rightarrow> o'\<lparr>co_ttl := d\<rparr> | _ \<Rightarrow> o')\<lparr>co_noCache := False\<rparr>
      | (NamespaceKey, v) \<Rightarrow> (case v of VStr s \<Rightarrow> o'\<lparr>co_namespace := s\<rparr> | _ \<Rightarrow> o')\<lparr>co_noCache := False\<rparr>
      | (CacheEnableKey, v) \<Rightarrow> o'\<lparr>co_noCache := False\<rparr>
      | (NoCacheKey, v) \<Rightarrow> o'\<lparr>co_noCache := True\<rparr>
      | (InvalidateNSKey, v) \<Rightarrow> (case v of VStr s \<Rightarrow> o'\<lparr>co_invalidate := s\<rparr> | _ \<Rightarrow> o')
      | _ \<Rightarrow> o')"

definition cacheOpts :: "call_option list \<Rightarrow> call_opts" where
  "cacheOpts opts =
     foldl apply_cache_call \<lparr>co_ttl = 0, co_namespace = [], co_noCache = True, co_invalidate = []\<rparr> opts"

section \<open>Keys\<close>

record hash_env =
  he_sha256 :: "string \<Rightarrow> string"
  he_marshal :: "rvalue list \<Rightarrow> string outcome"

definition hex_digit :: "nat \<Rightarrow> char" where
  "hex_digit n = (if n < 10 then char_of (48 + n) else char_of (87 + n))"

definition hex_encode :: "string \<Rightarrow> string" where
  "hex_encode s = concat (map (\<lambda>c. [hex_digit (of_char c div 16), hex_digit (of_char c mod 16)]) s)"

definition NUL :: char where
  "NUL = CHR 0x00"

text \<open>\<open>computeKey\<close> ignores the error of \<open>json.Marshal\<close>; the payload is then empty.\<close>

definition key_payload :: "hash_env \<Rightarrow> rvalue list \<Rightarrow> string" where
  "key_payload H args = (case he_marshal H args of Ok b \<Rightarrow> b | _ \<Rightarrow> [])"

definition computeKey :: "hash_env \<Rightarrow> string \<Rightarrow> string \<Rightarrow> rvalue list \<Rightarrow> string" where
  "computeKey H ns bindSQL bindArgs =
     ns @ [NUL] @ hex_encode (he_sha256 H (ns @ [NUL] @ bindSQL @ [NUL] @ key_payload H bindArgs))"

definition CacheKey ::
  "'e genv_scheme \<Rightarrow> hash_env \<Rightarrow> type_cache \<Rightarrow> string \<Rightarrow> string \<Rightarrow> rvalue \<Rightarrow> string outcome \<times> type_cache" where
  "CacheKey E H tc ns query arg =
     (case BindNamed E tc query arg of
        (r, tc') \<Rightarrow> (and_then r (\<lambda>(bindSQL, args). Ok (computeKey H ns bindSQL args)), tc'))"

definition storeKey :: "cache_config \<Rightarrow> string \<Rightarrow> string" where
  "storeKey c key = cch_keyPrefix c @ key"

section \<open>Invalidation\<close>

definition Invalidate :: "cache_config \<Rightarrow> 's store \<Rightarrow> string \<Rightarrow> 's \<Rightarrow> unit outcome \<times> 's" where
  "Invalidate c ops key s = st_Delete ops (storeKey c key) s"

definition InvalidateQuery ::
  "'e genv_scheme \<Rightarrow> hash_env \<Rightarrow> cache_config \<Rightarrow> 's store \<Rightarrow> type_cache \<Rightarrow> string \<Rightarrow> string \<Rightarrow> rvalue \<Rightarrow> 's
   \<Rightarrow> unit outcome \<times> type_cache \<times> 's" where
  "InvalidateQuery E H c ops tc ns query arg s =
     (case CacheKey E H tc ns query arg of
        (Ok key, tc') \<Rightarrow> (case st_Delete ops (storeKey c key) s of (r, s') \<Rightarrow> (r, tc', s'))
      | (Err e, tc') \<Rightarrow> (Err e, tc', s)
      | (Panic m, tc') \<Rightarrow> (Panic m, tc', s))"

definition InvalidateNamespace :: "cache_config \<Rightarrow> 's store \<Rightarrow> string \<Rightarrow> 's \<Rightarrow> unit outcome \<times> 's" where
  "InvalidateNamespace c ops ns s = st_DeletePrefix ops (cch_keyPrefix c @ ns @ [NUL]) s"

definition Flush :: "'s store \<Rightarrow> 's \<Rightarrow> unit outcome \<times> 's" where
  "Flush ops s = st_Flush ops s"

section \<open>Before\<close>

text \<open>\<open>tryHit\<close>: a store error, a miss and undecodable data all count as no hit; a decoder that
  panics panics here.\<close>

definition tryHit :: "cache_config \<Rightarrow> 's store \<Rightarrow> int \<Rightarrow> string \<Rightarrow> 's \<Rightarrow> row_data option outcome \<times> 's" where
  "tryHit c ops now key s =
     (case st_Get ops now (storeKey c key) s of
        (Ok (Some data), s') \<Rightarrow>
          (case cd_Decode (cch_codec c) data of
             Ok rd \<Rightarrow> (Ok (Some rd), s')
           | Err e \<Rightarrow> (Ok None, s')
           | Panic m \<Rightarrow> (Panic m, s'))
      | (Panic m, s') \<Rightarrow> (Panic m, s')
      | (_, s') \<Rightarrow> (Ok None, s'))"

text \<open>What \<open>Before\<close> returns: the context unchanged, unchanged with the rows replayed from the
  cache, or a context with a recorder for the key and ttl.\<close>

datatype before_result = Unchanged | Hit string row_data | Miss string int

datatype before_pc =
    BAcquire string int
  | BLead string int
  | BWait string int nat
  | BRecheck string int
  | BPlain string int
  | BDone before_result
  | BPanic string

definition before_start :: "hash_env \<Rightarrow> cache_config \<Rightarrow> 'r exec_info \<Rightarrow> before_pc" where
  "before_start H c info =
     (if ei_inTx info then BDone Unchanged
      else if ei_op info \<noteq> OpGet \<and> ei_op info \<noteq> OpSelect then BDone Unchanged
      else
        (let o' = cacheOpts (ei_options info) in
         if co_noCache o' then BDone Unchanged
         else
           (let ttl = (if co_ttl o' \<le> 0 then cch_defaultTTL c else co_ttl o');
                key = computeKey H (co_namespace o') (ei_bindSQL info) (ei_bindArgs info)
            in if cch_singleflight c then BAcquire key ttl else BPlain key ttl)))"

text \<open>One atomic step; \<open>None\<close> when the goroutine is blocked in \<open>wait\<close> or has returned.\<close>

fun before_step ::
  "cache_config \<Rightarrow> 's store \<Rightarrow> int \<Rightarrow> before_pc \<Rightarrow> 's \<Rightarrow> flight \<Rightarrow> (before_pc \<times> 's \<times> flight) option" where
  "before_step c ops now (BAcquire k ttl) s f =
     (case acquire k f of
        (Leader, f') \<Rightarrow> Some (BLead k ttl, s, f')
      | (WaitFor ch, f') \<Rightarrow> Some (BWait k ttl ch, s, f'))"
| "before_step c ops now (BLead k ttl) s f =
     (case tryHit c ops now k s of
        (Ok (Some rd), s') \<Rightarrow>
          (case fl_done k f of
             Ok f' \<Rightarrow> Some (BDone (Hit k rd), s', f')
           | Err e \<Rightarrow> Some (BPanic [], s', f)
           | Panic m \<Rightarrow> Some (BPanic m, s', f))
      | (Ok None, s') \<Rightarrow> Some (BDone (Miss k ttl), s', f)
      | (Err e, s') \<Rightarrow> Some (BPanic [], s', f)
      | (Panic m, s') \<Rightarrow> Some (BPanic m, s', f))"
| "before_step c ops now (BWait k ttl ch) s f =
     (if ch \<in> fl_closed f then Some (BRecheck k ttl, s, f) else None)"
| "before_step c ops now (BRecheck k ttl) s f =
     (case tryHit c ops now k s of
        (Ok (Some rd), s') \<Rightarrow> Some (BDone (Hit k rd), s', f)
      | (Ok None, s') \<Rightarrow> Some (BAcquire k ttl, s', f)
      | (Err e, s') \<Rightarrow> Some (BPanic [], s', f)
      | (Panic m, s') \<Rightarrow> Some (BPanic m, s', f))"
| "before_step c ops now (BPlain k ttl) s f =
     (case tryHit c ops now k s of
        (Ok (Some rd), s') \<Rightarrow> Some (BDone (Hit k rd), s', f)
      | (Ok None, s') \<Rightarrow> Some (BDone (Miss k ttl), s', f)
      | (Err e, s') \<Rightarrow> Some (BPanic [], s', f)
      | (Panic m, s') \<Rightarrow> Some (BPanic m, s', f))"
| "before_step c ops now (BDone r) s f = None"
| "before_step c ops now (BPanic m) s f = None"

text \<open>The steps, one case each.\<close>

lemma before_stepE:
  assumes "before_step c ops now p s f = Some (p', s', f')"
  obtains (lead) k ttl where "p = BAcquire k ttl" "acquire k f = (Leader, f')" "p' = BLead k ttl" "s' = s"
    | (queue) k ttl ch where "p = BAcquire k ttl" "acquire k f = (WaitFor ch, f')" "p' = BWait k ttl ch" "s' = s"
    | (lead_hit) k ttl rd where "p = BLead k ttl" "tryHit c ops now k s = (Ok (Some rd), s')" "fl_done k f = Ok f'"
        "p' = BDone (Hit k rd)"
    | (lead_miss) k ttl where "p = BLead k ttl" "tryHit c ops now k s = (Ok None, s')" "f' = f" "p' = BDone (Miss k ttl)"
    | (woken) k ttl ch where "p = BWait k ttl ch" "ch \<in> fl_closed f" "p' = BRecheck k ttl" "s' = s" "f' = f"
    | (recheck_hit) k ttl rd where "p = BRecheck k ttl" "tryHit c ops now k s = (Ok (Some rd), s')" "f' = f"
        "p' = BDone (Hit k rd)"
    | (recheck_miss) k ttl where "p = BRecheck k ttl" "tryHit c ops now k s = (Ok None, s')" "f' = f" "p' = BAcquire k ttl"
    | (plain_hit) k ttl rd where "p = BPlain k ttl" "tryHit c ops now k s = (Ok (Some rd), s')" "f' = f"
        "p' = BDone (Hit k rd)"
    | (plain_miss) k ttl where "p = BPlain k ttl" "tryHit c ops now k s = (Ok None, s')" "f' = f" "p' = BDone (Miss k ttl)"
    | (panic) k m where "p' = BPanic m" "f' = f" "snd (tryHit c ops now k s) = s'"
proof (cases p)
  case (BAcquire k ttl)
  with assms lead queue show thesis by (cases "acquire k f"; cases "fst (acquire k f)") auto
next
  case (BLead k ttl)
  with assms lead_hit lead_miss panic [where k = k] show thesis
    by (cases "tryHit c ops now k s") (auto split: outcome.splits option.splits)
next
  case (BWait k ttl ch)
  with assms woken show thesis by (auto split: if_splits)
next
  case (BRecheck k ttl)
  with assms recheck_hit recheck_miss panic [where k = k] show thesis
    by (cases "tryHit c ops now k s") (auto split: outcome.splits option.splits)
next
  case (BPlain k ttl)
  with assms plain_hit plain_miss panic [where k = k] show thesis
    by (cases "tryHit c ops now k s") (auto split: outcome.splits option.splits)
qed (use assms in simp_all)

section \<open>After\<close>

text \<open>The data \<open>After\<close> stores for a recorder, if any: the scan must have been clean and the data
  encodable.\<close>

definition recorded :: "recorder \<Rightarrow> row_data" where
  "recorded r = \<lparr>rd_columns = rec_cols r, rd_rows = rec_rows r\<rparr>"

definition commits :: "cache_config \<Rightarrow> 'r exec_info \<Rightarrow> recorder \<Rightarrow> string option outcome" where
  "commits c info r =
     (if ei_err info \<noteq> None then Ok None
      else (case cd_Encode (cch_codec c) (recorded r) of
              Ok data \<Rightarrow> Ok (Some data)
            | Err e \<Rightarrow> Ok None
            | Panic m \<Rightarrow> Panic m))"

text \<open>\<open>After\<close>. Errors of the store are dropped; \<open>done\<close> is deferred, so it runs whatever happens
  before it. \<open>rec\<close> is the recorder in the context.\<close>

definition After ::
  "cache_config \<Rightarrow> 's store \<Rightarrow> int \<Rightarrow> 'r exec_info \<Rightarrow> recorder option \<Rightarrow> 's \<Rightarrow> flight \<Rightarrow> unit outcome \<times> 's \<times> flight" where
  "After c ops now info rec s f =
     (if ei_op info = OpExec then
        (if cch_invalidateOnWrite c then (Ok (), snd (st_Flush ops s), f)
         else
           (let ns = co_invalidate (cacheOpts (ei_options info)) in
            if ns \<noteq> [] then (Ok (), snd (st_DeletePrefix ops (cch_keyPrefix c @ ns @ [NUL]) s), f)
            else (Ok (), s, f)))
      else if ei_inTx info then (Ok (), s, f)
      else if ei_op info \<noteq> OpGet \<and> ei_op info \<noteq> OpSelect then (Ok (), s, f)
      else
        (case rec of
           None \<Rightarrow> (Ok (), s, f)
         | Some r \<Rightarrow>
             (let (res, s') =
                    (case commits c info r of
                       Ok (Some data) \<Rightarrow> (Ok (), snd (st_Set ops now (storeKey c (rec_key r)) data (rec_ttl r) s))
                     | Panic m \<Rightarrow> (Panic m, s)
                     | _ \<Rightarrow> (Ok (), s))
              in (case fl_done (rec_key r) f of
                    Ok f' \<Rightarrow> (res, s', f')
                  | Err e \<Rightarrow> (Err e, s', f)
                  | Panic m \<Rightarrow> (Panic m, s', f)))))"

section \<open>Goroutines\<close>

text \<open>Each goroutine is idle, in \<open>Before\<close>, finished, or dead. Between \<open>BDone\<close> and \<open>After\<close> the query
  runs; a miss fills its recorder meanwhile, with whatever rows the query produced. A panic there (of the
  driver, or of the scan) ends the goroutine without its \<open>After\<close>.\<close>

datatype 'r thread = TIdle | TBefore "'r exec_info" before_pc | TDone before_result | TDead before_result

record ('s, 'r) cache_sys =
  sy_store :: 's
  sy_flight :: flight
  sy_pc :: "nat \<Rightarrow> 'r thread"
  sy_now :: int
  sy_hist :: "(string \<times> row_data) list"

definition new_sys :: "'s \<Rightarrow> int \<Rightarrow> ('s, 'r) cache_sys" where
  "new_sys s now = \<lparr>sy_store = s, sy_flight = new_flight, sy_pc = (\<lambda>_. TIdle), sy_now = now, sy_hist = []\<rparr>"

text \<open>The recorder \<open>After\<close> finds for what \<open>Before\<close> returned.\<close>

definition recorder_for :: "before_result \<Rightarrow> string list \<Rightarrow> rvalue list list \<Rightarrow> recorder option" where
  "recorder_for r cols rows =
     (case r of
        Miss k ttl \<Rightarrow> Some \<lparr>rec_key = k, rec_ttl = ttl, rec_cols = cols, rec_rows = rows\<rparr>
      | _ \<Rightarrow> None)"

text \<open>The history: what was stored, under which logical key.\<close>

definition history_entry :: "cache_config \<Rightarrow> 'r exec_info \<Rightarrow> recorder option \<Rightarrow> (string \<times> row_data) list" where
  "history_entry c info rec =
     (case rec of
        None \<Rightarrow> []
      | Some r \<Rightarrow> (case commits c info r of Ok (Some data) \<Rightarrow> [(rec_key r, recorded r)] | _ \<Rightarrow> []))"

inductive cache_step ::
  "hash_env \<Rightarrow> cache_config \<Rightarrow> 's store \<Rightarrow> ('s, 'r) cache_sys \<Rightarrow> ('s, 'r) cache_sys \<Rightarrow> bool"
  for H :: hash_env and c :: cache_config and ops :: "'s store"
  where
  call: "sy_pc y t = TIdle \<Longrightarrow> ei_err info = None \<Longrightarrow>
    cache_step H c ops y (y\<lparr>sy_pc := (sy_pc y)(t := TBefore info (before_start H c info))\<rparr>)"
| before: "sy_pc y t = TBefore info p \<Longrightarrow>
    before_step c ops (sy_now y) p (sy_store y) (sy_flight y) = Some (p', s', f') \<Longrightarrow>
    cache_step H c ops y (y\<lparr>sy_pc := (sy_pc y)(t := TBefore info p'), sy_store := s', sy_flight := f'\<rparr>)"
| after: "sy_pc y t = TBefore info (BDone r) \<Longrightarrow>
    After c ops (sy_now y) (info\<lparr>ei_err := err\<rparr>) (recorder_for r cols rows) (sy_store y) (sy_flight y)
      = (res, s', f') \<Longrightarrow>
    cache_step H c ops y (y\<lparr>sy_pc := (sy_pc y)(t := TDone r), sy_store := s', sy_flight := f',
      sy_hist := history_entry c (info\<lparr>ei_err := err\<rparr>) (recorder_for r cols rows) @ sy_hist y\<rparr>)"
| die: "sy_pc y t = TBefore info (BDone r) \<Longrightarrow> cache_step H c ops y (y\<lparr>sy_pc := (sy_pc y)(t := TDead r)\<rparr>)"
| invalidate: "cache_step H c ops y (y\<lparr>sy_store := snd (Invalidate c ops key (sy_store y))\<rparr>)"
| invalidate_ns: "cache_step H c ops y (y\<lparr>sy_store := snd (InvalidateNamespace c ops ns (sy_store y))\<rparr>)"
| flush: "cache_step H c ops y (y\<lparr>sy_store := snd (Flush ops (sy_store y))\<rparr>)"
| tick: "sy_now y \<le> now' \<Longrightarrow> cache_step H c ops y (y\<lparr>sy_now := now'\<rparr>)"

inductive cache_reach ::
  "hash_env \<Rightarrow> cache_config \<Rightarrow> 's store \<Rightarrow> 's \<Rightarrow> int \<Rightarrow> ('s, 'r) cache_sys \<Rightarrow> bool"
  for H c ops s0 now0
  where
  start: "cache_reach H c ops s0 now0 (new_sys s0 now0)"
| step: "cache_reach H c ops s0 now0 y \<Longrightarrow> cache_step H c ops y z \<Longrightarrow> cache_reach H c ops s0 now0 z"

section \<open>Single flight\<close>

text \<open>The key a goroutine leads (a leader that died leads for ever), the channel it waits for, and whether
  its \<open>Before\<close> panicked.\<close>

fun lead_key :: "'r thread \<Rightarrow> string option" where
  "lead_key (TBefore info (BLead k ttl)) = Some k"
| "lead_key (TBefore info (BDone (Miss k ttl))) = Some k"
| "lead_key (TDead (Miss k ttl)) = Some k"
| "lead_key _ = None"

fun_cases lead_keyE: "lead_key q = Some k"

fun wait_on :: "'r thread \<Rightarrow> (string \<times> nat) option" where
  "wait_on (TBefore info (BWait k ttl ch)) = Some (k, ch)"
| "wait_on _ = None"

fun panicked :: "'r thread \<Rightarrow> bool" where
  "panicked (TBefore info (BPanic m)) = True"
| "panicked _ = False"

text \<open>The invariant of the flight against the goroutines: every leader has an open call, no key has
  two leaders, a waited-for channel is closed or is the open call of its key, and an open call has a
  leader unless some goroutine panicked.\<close>

definition fl_inv :: "flight \<Rightarrow> (nat \<Rightarrow> 'r thread) \<Rightarrow> bool" where
  "fl_inv f pc =
     (fl_wf f
      \<and> (\<forall>t k. lead_key (pc t) = Some k \<longrightarrow> fl_calls f k \<noteq> None)
      \<and> (\<forall>t t' k. lead_key (pc t) = Some k \<longrightarrow> lead_key (pc t') = Some k \<longrightarrow> t = t')
      \<and> (\<forall>t k ch. wait_on (pc t) = Some (k, ch) \<longrightarrow> ch \<in> fl_closed f \<or> fl_calls f k = Some ch)
      \<and> (\<forall>k. fl_calls f k \<noteq> None \<longrightarrow> (\<exists>t. lead_key (pc t) = Some k) \<or> (\<exists>t. panicked (pc t))))"

lemma fl_invD:
  assumes "fl_inv f pc"
  shows "fl_wf f"
    and "lead_key (pc t) = Some k \<Longrightarrow> fl_calls f k \<noteq> None"
    and "lead_key (pc t) = Some k \<Longrightarrow> lead_key (pc t') = Some k \<Longrightarrow> t = t'"
    and "wait_on (pc t) = Some (k, ch) \<Longrightarrow> ch \<in> fl_closed f \<or> fl_calls f k = Some ch"
    and "fl_calls f k \<noteq> None \<Longrightarrow> (\<exists>t. lead_key (pc t) = Some k) \<or> (\<exists>t. panicked (pc t))"
  using assms unfolding fl_inv_def by blast+

lemma fl_inv_same:
  assumes "fl_inv f pc" "lead_key q = lead_key (pc t)" "panicked (pc t) \<Longrightarrow> panicked q"
    "\<And>k ch. wait_on q = Some (k, ch) \<Longrightarrow> ch \<in> fl_closed f \<or> fl_calls f k = Some ch"
  shows "fl_inv f (pc(t := q))"
proof -
  have lk: "lead_key ((pc(t := q)) x) = lead_key (pc x)" for x using assms(2) by simp
  have pk: "panicked ((pc(t := q)) x)" if "panicked (pc x)" for x
    using assms(3) that by (cases "x = t") auto
  have w: "wait_on ((pc(t := q)) x) = Some (k, ch) \<Longrightarrow> ch \<in> fl_closed f \<or> fl_calls f k = Some ch" for x k ch
    using assms(4) fl_invD(4) [OF assms(1)] by (cases "x = t") auto
  show ?thesis
    unfolding fl_inv_def lk using fl_invD(1-3,5) [OF assms(1)] w pk by blast
qed

lemma fl_inv_panic:
  assumes "fl_inv f pc" "lead_key q = None" "wait_on q = None" "panicked q"
  shows "fl_inv f (pc(t := q))"
proof -
  have lk: "lead_key ((pc(t := q)) x) = Some k \<Longrightarrow> x \<noteq> t \<and> lead_key (pc x) = Some k" for x k
    using assms(2) by (cases "x = t") auto
  have w: "wait_on ((pc(t := q)) x) = Some (k, ch) \<Longrightarrow> wait_on (pc x) = Some (k, ch)" for x k ch
    using assms(3) by (cases "x = t") auto
  have "panicked ((pc(t := q)) t)" using assms(4) by simp
  then show ?thesis
    unfolding fl_inv_def using fl_invD(1-4) [OF assms(1)] lk w by blast
qed

lemma fl_inv_acquire:
  assumes "fl_inv f pc" "acquire k f = (Leader, f')" "lead_key (pc t) = None" "\<not> panicked (pc t)"
    "lead_key q = Some k" "wait_on q = None"
  shows "fl_inv f' (pc(t := q))"
proof -
  have a: "fl_calls f k = None"
    "f' = f\<lparr>fl_calls := (fl_calls f)(k \<mapsto> fl_next f), fl_next := fl_next f + 1\<rparr>"
    using assms(2) by (simp_all add: acquire_Leader)
  have wf: "fl_wf f'" using acquire_wf [OF fl_invD(1) [OF assms(1)], of k] assms(2) by simp
  have none: "lead_key (pc x) \<noteq> Some k" for x using fl_invD(2) [OF assms(1)] a(1) by blast
  have lk: "lead_key ((pc(t := q)) x) = (if x = t then Some k else lead_key (pc x))" for x
    using assms(5) by simp
  have w: "wait_on ((pc(t := q)) x) = Some (k', ch) \<Longrightarrow> wait_on (pc x) = Some (k', ch)" for x k' ch
    using assms(6) by (cases "x = t") auto
  have pk: "panicked (pc x) \<Longrightarrow> panicked ((pc(t := q)) x)" for x using assms(4) by (cases "x = t") auto
  have led: "\<exists>x. lead_key ((pc(t := q)) x) = Some k'" if "lead_key (pc x) = Some k'" for x k'
    using that assms(3) lk by (metis option.distinct(1))
  have calls: "fl_calls f' k' = (if k' = k then Some (fl_next f) else fl_calls f k')" for k'
    by (simp add: a(2))
  have closed: "fl_closed f' = fl_closed f" by (simp add: a(2))
  show ?thesis
    unfolding fl_inv_def
  proof (intro conjI allI impI)
    show "fl_calls f' k' \<noteq> None" if "lead_key ((pc(t := q)) x) = Some k'" for x k'
      using that [unfolded lk] fl_invD(2) [OF assms(1), of x k'] by (auto simp: calls split: if_splits)
    show "x = y" if "lead_key ((pc(t := q)) x) = Some k'" "lead_key ((pc(t := q)) y) = Some k'" for x y k'
      using that [unfolded lk] fl_invD(3) [OF assms(1), of x k' y] none by (auto split: if_splits)
    show "ch \<in> fl_closed f' \<or> fl_calls f' k' = Some ch" if "wait_on ((pc(t := q)) x) = Some (k', ch)" for x k' ch
      using fl_invD(4) [OF assms(1) w [OF that]] a(1) by (auto simp: calls closed)
    show "(\<exists>x. lead_key ((pc(t := q)) x) = Some k') \<or> (\<exists>x. panicked ((pc(t := q)) x))"
      if "fl_calls f' k' \<noteq> None" for k'
    proof (cases "k' = k")
      case True
      then show ?thesis using lk by metis
    next
      case False
      with that have "fl_calls f k' \<noteq> None" by (simp add: calls)
      from fl_invD(5) [OF assms(1) this] led pk show ?thesis by blast
    qed
  qed (rule wf)
qed

lemma fl_inv_done:
  assumes "fl_inv f pc" "lead_key (pc t) = Some k" "fl_done k f = Ok f'" "lead_key q = None" "wait_on q = None"
  shows "fl_inv f' (pc(t := q))"
proof -
  obtain f'' where d: "fl_done k f = Ok f''" "fl_wf f''" "fl_calls f'' = (fl_calls f)(k := None)"
    "fl_closed f'' = fl_closed f \<union> (case fl_calls f k of None \<Rightarrow> {} | Some c \<Rightarrow> {c})"
    using fl_done_Ok [OF fl_invD(1) [OF assms(1)], of k] by blast
  with assms(3) have f': "fl_wf f'" "fl_calls f' = (fl_calls f)(k := None)"
    "fl_closed f' = fl_closed f \<union> (case fl_calls f k of None \<Rightarrow> {} | Some c \<Rightarrow> {c})" by simp_all
  have notpk: "\<not> panicked (pc t)" using assms(2) by (auto elim: lead_keyE)
  have lk: "lead_key ((pc(t := q)) x) = (if x = t then None else lead_key (pc x))" for x
    using assms(4) by simp
  have w: "wait_on ((pc(t := q)) x) = Some (k', ch) \<Longrightarrow> wait_on (pc x) = Some (k', ch)" for x k' ch
    using assms(5) by (cases "x = t") auto
  have pk: "panicked (pc x) \<Longrightarrow> panicked ((pc(t := q)) x)" for x using notpk by (cases "x = t") auto
  have other: "lead_key (pc x) = Some k' \<Longrightarrow> x \<noteq> t \<Longrightarrow> k' \<noteq> k" for x k'
    using fl_invD(3) [OF assms(1) assms(2)] by blast
  show ?thesis
    unfolding fl_inv_def
  proof (intro conjI allI impI)
    show "fl_calls f' k' \<noteq> None" if "lead_key ((pc(t := q)) x) = Some k'" for x k'
      using that [unfolded lk] fl_invD(2) [OF assms(1), of x k'] other by (auto simp: f'(2) split: if_splits)
    show "x = y" if "lead_key ((pc(t := q)) x) = Some k'" "lead_key ((pc(t := q)) y) = Some k'" for x y k'
      using that [unfolded lk] fl_invD(3) [OF assms(1), of x k' y] by (auto split: if_splits)
    show "ch \<in> fl_closed f' \<or> fl_calls f' k' = Some ch" if "wait_on ((pc(t := q)) x) = Some (k', ch)" for x k' ch
      using fl_invD(4) [OF assms(1) w [OF that]] by (auto simp: f'(2,3))
    show "(\<exists>x. lead_key ((pc(t := q)) x) = Some k') \<or> (\<exists>x. panicked ((pc(t := q)) x))"
      if "fl_calls f' k' \<noteq> None" for k'
    proof -
      have "k' \<noteq> k" "fl_calls f k' \<noteq> None" using that by (auto simp: f'(2) split: if_splits)
      with fl_invD(5) [OF assms(1), of k'] consider x where "lead_key (pc x) = Some k'" | x where "panicked (pc x)"
        by blast
      then show ?thesis
      proof cases
        case 1
        then have "x \<noteq> t" using assms(2) \<open>k' \<noteq> k\<close> by auto
        with 1 have "lead_key ((pc(t := q)) x) = Some k'" unfolding lk by simp
        then show ?thesis by blast
      next
        case 2
        with pk show ?thesis by blast
      qed
    qed
  qed (rule f'(1))
qed

text \<open>What a goroutine's state says about its call, when single flight is on.\<close>

fun pc_ok :: "'r thread \<Rightarrow> bool" where
  "pc_ok (TBefore info (BPlain k ttl)) = False"
| "pc_ok (TBefore info (BDone (Miss k ttl))) = (\<not> ei_inTx info \<and> (ei_op info = OpGet \<or> ei_op info = OpSelect))"
| "pc_ok (TBefore info (BDone r)) = True"
| "pc_ok (TBefore info (BPanic m)) = True"
| "pc_ok (TBefore info p) = (\<not> ei_inTx info \<and> (ei_op info = OpGet \<or> ei_op info = OpSelect))"
| "pc_ok _ = True"

definition sys_inv :: "('s, 'r) cache_sys \<Rightarrow> bool" where
  "sys_inv y = (fl_inv (sy_flight y) (sy_pc y) \<and> (\<forall>t. pc_ok (sy_pc y t)))"

lemma before_start_cases:
  assumes "cch_singleflight c"
  shows "before_start H c info = BDone Unchanged
    \<or> (\<exists>k ttl. before_start H c info = BAcquire k ttl \<and> \<not> ei_inTx info
          \<and> (ei_op info = OpGet \<or> ei_op info = OpSelect))"
  using assms by (simp add: before_start_def Let_def)

lemma fl_done_lead: "fl_inv f pc \<Longrightarrow> \<exists>f'. fl_done k f = Ok f'"
  using fl_done_Ok fl_invD(1) by blast

lemma before_step_inv:
  assumes "fl_inv f pc" "pc_ok (TBefore info p)" "pc t = TBefore info p"
    "before_step c ops now p s f = Some (p', s', f')"
  shows "fl_inv f' (pc(t := TBefore info p')) \<and> pc_ok (TBefore info p')"
  using assms(4)
proof (cases rule: before_stepE)
  case (lead k ttl)
  with fl_inv_acquire [OF assms(1), of k f' t "TBefore info p'"] assms(2,3) show ?thesis by simp
next
  case (queue k ttl ch)
  then have "fl_calls f k = Some ch \<and> f' = f" by (simp add: acquire_WaitFor)
  with queue fl_inv_same [OF assms(1), of "TBefore info p'" t] assms(2,3) show ?thesis by simp
next
  case (lead_hit k ttl rd)
  then have "lead_key (pc t) = Some k" using assms(3) by simp
  from fl_inv_done [OF assms(1) this lead_hit(3), of "TBefore info p'"] lead_hit show ?thesis by simp
next
  case (panic k m)
  with fl_inv_panic [OF assms(1), of "TBefore info p'" t] show ?thesis by simp
qed (use fl_inv_same [OF assms(1), of "TBefore info p'" t] assms(2,3) in auto)

lemma After_flight:
  assumes "After c ops now info (recorder_for r cols rows) s f = (res, s', f')"
    "\<And>k ttl. r = Miss k ttl \<Longrightarrow> \<not> ei_inTx info \<and> (ei_op info = OpGet \<or> ei_op info = OpSelect)"
    "\<exists>g. fl_done k0 f = Ok g"
  shows "case r of Miss k ttl \<Rightarrow> k = k0 \<longrightarrow> fl_done k f = Ok f' | _ \<Rightarrow> f' = f"
  using assms
  by (cases r)
    (auto simp: After_def recorder_for_def Let_def split: if_splits prod.splits outcome.splits option.splits)

lemma cache_step_inv:
  assumes "cache_step H c ops y z" "cch_singleflight c" "sys_inv y"
  shows "sys_inv z"
  using assms(1)
proof cases
  case (call t info)
  with before_start_cases [OF assms(2), of H info] assms(3)
    fl_inv_same [of "sy_flight y" "sy_pc y" "TBefore info (before_start H c info)" t]
  show ?thesis by (auto simp: sys_inv_def)
next
  case (die t info r)
  have "lead_key (TDead r) = lead_key (sy_pc y t)" using die(2) by (cases r) simp_all
  with die assms(3) fl_inv_same [of "sy_flight y" "sy_pc y" "TDead r" t] show ?thesis by (simp add: sys_inv_def)
next
  case (before t info p p' s' f')
  have inv: "fl_inv (sy_flight y) (sy_pc y)" "pc_ok (TBefore info p)" "\<And>t. pc_ok (sy_pc y t)"
    using assms(3) before(2) unfolding sys_inv_def by metis+
  from before_step_inv [OF inv(1,2) before(2,3)] inv(3) before(1) show ?thesis
    by (simp add: sys_inv_def)
next
  case (after t info r err cols rows res s' f')
  let ?i = "info\<lparr>ei_err := err\<rparr>"
  have inv: "fl_inv (sy_flight y) (sy_pc y)" and ok: "pc_ok (TBefore info (BDone r))"
    using assms(3) after(2) unfolding sys_inv_def by metis+
  have fl: "case r of Miss k ttl \<Rightarrow> k = k0 \<longrightarrow> fl_done k (sy_flight y) = Ok f' | _ \<Rightarrow> f' = sy_flight y" for k0
    by (rule After_flight [OF after(3) _ fl_done_lead [OF inv]]) (use ok in auto)
  have "fl_inv f' ((sy_pc y)(t := TDone r))"
  proof (cases r)
    case (Miss k ttl)
    with fl [of k] after(2) fl_inv_done [OF inv, of t k f' "TDone r"] show ?thesis by simp
  qed (use fl after(2) fl_inv_same [OF inv, of "TDone r" t] in simp_all)
  with assms(3) after(1) show ?thesis by (simp add: sys_inv_def)
qed (use assms(3) in \<open>simp_all add: sys_inv_def\<close>)

lemma sys_inv_new: "sys_inv (new_sys s now)"
  by (simp add: sys_inv_def new_sys_def fl_inv_def fl_wf_new) (simp add: new_flight_def)

lemma cache_reach_inv: "cache_reach H c ops s0 now0 y \<Longrightarrow> cch_singleflight c \<Longrightarrow> sys_inv y"
  by (induction rule: cache_reach.induct) (auto intro: sys_inv_new cache_step_inv)

text \<open>Building a run step by step.\<close>

lemma reach_call:
  "cache_reach H c ops s0 now0 y \<Longrightarrow> sy_pc y t = TIdle \<Longrightarrow> ei_err info = None \<Longrightarrow>
   cache_reach H c ops s0 now0 (y\<lparr>sy_pc := (sy_pc y)(t := TBefore info (before_start H c info))\<rparr>)"
  by (rule cache_reach.step [OF _ cache_step.call])

lemma reach_before:
  "cache_reach H c ops s0 now0 y \<Longrightarrow> sy_pc y t = TBefore info p \<Longrightarrow>
   before_step c ops (sy_now y) p (sy_store y) (sy_flight y) = Some (p', s', f') \<Longrightarrow>
   cache_reach H c ops s0 now0 (y\<lparr>sy_pc := (sy_pc y)(t := TBefore info p'), sy_store := s', sy_flight := f'\<rparr>)"
  by (rule cache_reach.step [OF _ cache_step.before])

end
