(* ===== verification/Coherence.thy ===== *)
theory Coherence
  imports Cache
begin

text \<open>
  Coherence of the cache plugin against the weak contract of its store: whatever the store loses and
  whichever of its operations fail, a hit replays what a clean call committed under the key of the call.
  The locale \<open>safe_backend\<close> joins the weak store contract, the codec contract and a configuration that
  uses the codec.
\<close>

section \<open>The logical key of a call\<close>

definition call_key :: "hash_env \<Rightarrow> 'r exec_info \<Rightarrow> string" where
  "call_key H info = computeKey H (co_namespace (cacheOpts (ei_options info))) (ei_bindSQL info) (ei_bindArgs info)"

fun pc_key :: "before_pc \<Rightarrow> string option" where
  "pc_key (BAcquire k ttl) = Some k"
| "pc_key (BLead k ttl) = Some k"
| "pc_key (BWait k ttl ch) = Some k"
| "pc_key (BRecheck k ttl) = Some k"
| "pc_key (BPlain k ttl) = Some k"
| "pc_key (BDone (Hit k rd)) = Some k"
| "pc_key (BDone (Miss k ttl)) = Some k"
| "pc_key _ = None"

fun hit_of :: "before_pc \<Rightarrow> (string \<times> row_data) option" where
  "hit_of (BDone (Hit k rd)) = Some (k, rd)"
| "hit_of _ = None"

lemma before_start_key: "pc_key (before_start H c info) = Some k \<Longrightarrow> k = call_key H info"
  by (simp add: before_start_def call_key_def Let_def split: if_splits)

lemma before_start_no_hit: "hit_of (before_start H c info) = None"
  by (simp add: before_start_def Let_def)

lemma before_step_key:
  "before_step c ops now p s f = Some (p', s', f') \<Longrightarrow> pc_key p' = Some k \<Longrightarrow> pc_key p = Some k"
  by (erule before_stepE) auto

lemma cache_reach_run: "cache_reach H c ops s0 now0 y \<Longrightarrow> (cache_step H c ops)\<^sup>*\<^sup>* (new_sys s0 now0) y"
  by (induction rule: cache_reach.induct) (auto intro: rtranclp.rtrancl_into_rtrancl)

lemma cache_reach_key:
  assumes "cache_reach H c ops s0 now0 y" "sy_pc y t = TBefore info p" "pc_key p = Some k"
  shows "k = call_key H info"
proof -
  have "\<forall>t info p k. sy_pc y t = TBefore info p \<longrightarrow> pc_key p = Some k \<longrightarrow> k = call_key H info"
    using assms(1)
  proof (induction rule: cache_reach.induct)
    case (step y z)
    from step(2) step(3) show ?case
      by cases (auto dest: before_start_key before_step_key split: if_splits)
  qed (simp add: new_sys_def)
  with assms(2,3) show ?thesis by blast
qed

text \<open>What \<open>Before\<close> has returned stays until \<open>After\<close> or a panic; a goroutine that is finished or dead stays so.\<close>

lemma run_hit_stays:
  assumes "(cache_step H c ops)\<^sup>*\<^sup>* y z" "sy_pc y t = TBefore info (BDone r)"
  shows "sy_pc z t = TBefore info (BDone r) \<or> sy_pc z t = TDone r \<or> sy_pc z t = TDead r"
  using assms(1)
proof (induction rule: rtranclp_induct)
  case (step u z)
  from step(2,3) show ?case by cases auto
qed (use assms(2) in simp)

text \<open>The store changes only by a look-up, and a hit is what a look-up found.\<close>

lemma before_step_store:
  "before_step c ops now p s f = Some (p', s', f') \<Longrightarrow> s' = s \<or> (\<exists>k. s' = snd (tryHit c ops now k s))"
  by (erule before_stepE) (metis snd_conv)+

lemma before_step_hit:
  "before_step c ops now p s f = Some (p', s', f') \<Longrightarrow> hit_of p' = Some (k, rd) \<Longrightarrow>
   fst (tryHit c ops now k s) = Ok (Some rd)"
  by (erule before_stepE) auto

text \<open>What \<open>After\<close> can do to the store.\<close>

lemma After_store:
  assumes "After c ops now info rec s f = (res, s', f')"
  shows "s' = s \<or> s' = snd (st_Flush ops s) \<or> (\<exists>p. s' = snd (st_DeletePrefix ops p s))
    \<or> (\<exists>r data. rec = Some r \<and> commits c info r = Ok (Some data)
          \<and> s' = snd (st_Set ops now (storeKey c (rec_key r)) data (rec_ttl r) s))"
  using assms
  by (auto simp: After_def Let_def split: if_splits option.splits outcome.splits)

lemma commits_encodes:
  "commits c info r = Ok (Some data) \<Longrightarrow> ei_err info = None \<and> cd_Encode (cch_codec c) (recorded r) = Ok data"
  by (auto simp: commits_def split: if_splits outcome.splits)

lemma history_commits:
  "commits c info r = Ok (Some data) \<Longrightarrow> history_entry c info (Some r) = [(rec_key r, recorded r)]"
  by (simp add: history_entry_def)

lemma After_query:
  assumes "ei_op info = OpGet \<or> ei_op info = OpSelect" "\<not> ei_inTx info"
    "After c ops now info (Some r) s f = (res, s', f')"
  shows "s' = (case commits c info r of
      Ok (Some data) \<Rightarrow> snd (st_Set ops now (storeKey c (rec_key r)) data (rec_ttl r) s) | _ \<Rightarrow> s)"
  using assms by (auto simp: After_def Let_def split: outcome.splits option.splits if_splits)

section \<open>The contract\<close>

locale safe_backend = kv_safe ops inv lookup + row_codec cod fits norm
  for ops :: "'s store" and inv :: "'s \<Rightarrow> bool" and lookup :: "int \<Rightarrow> string \<Rightarrow> 's \<Rightarrow> string option"
    and cod :: codec and fits :: "row_data \<Rightarrow> string \<Rightarrow> bool" and norm :: "row_data \<Rightarrow> row_data" +
  fixes c :: cache_config
  assumes codec: "cch_codec c = cod"
begin

lemma tryHit_state: "snd (tryHit c ops now k s) = snd (st_Get ops now (storeKey c k) s)"
  by (auto simp: tryHit_def split: prod.splits outcome.splits option.splits)

text \<open>A hit decodes what the store showed.\<close>

lemma tryHit_Hit:
  assumes "inv s" "fst (tryHit c ops now k s) = Ok (Some rd)"
  shows "\<exists>b. lookup now (storeKey c k) s = Some b \<and> cd_Decode cod b = Ok rd"
proof -
  obtain b where "fst (st_Get ops now (storeKey c k) s) = Ok (Some b)" "cd_Decode cod b = Ok rd"
    using assms(2) by (auto simp: tryHit_def codec split: prod.splits outcome.splits option.splits)
  with get_found [OF assms(1)] show ?thesis by blast
qed

text \<open>What is visible in the store under the store keys \<open>K\<close> was stored by a clean call of \<open>hist\<close> under that
  key.\<close>

definition visible_ok :: "string set \<Rightarrow> int \<Rightarrow> (string \<times> row_data) list \<Rightarrow> 's \<Rightarrow> bool" where
  "visible_ok K now hist s =
     (inv s \<and> (\<forall>n k' b. k' \<in> K \<longrightarrow> now \<le> n \<longrightarrow> lookup n k' s = Some b \<longrightarrow>
        (\<exists>k d. (k, d) \<in> set hist \<and> k' = storeKey c k \<and> cd_Encode cod d = Ok b)))"

definition replayed :: "(string \<times> row_data) list \<Rightarrow> string \<Rightarrow> row_data \<Rightarrow> bool" where
  "replayed hist k rd = (\<exists>d b. (k, d) \<in> set hist \<and> cd_Encode cod d = Ok b \<and> cd_Decode cod b = Ok rd)"

lemma visible_okD:
  "visible_ok K now hist s \<Longrightarrow> inv s"
  "visible_ok K now hist s \<Longrightarrow> k' \<in> K \<Longrightarrow> now \<le> n \<Longrightarrow> lookup n k' s = Some b \<Longrightarrow>
     \<exists>k d. (k, d) \<in> set hist \<and> k' = storeKey c k \<and> cd_Encode cod d = Ok b"
  by (auto simp: visible_ok_def)

text \<open>A state with fewer visible entries, a longer history and a later time is still fine.\<close>

lemma visible_ok_mono:
  assumes "visible_ok K now hist s" "inv s'" "now \<le> now'" "set hist \<subseteq> set hist'"
    "\<And>n k' b. now' \<le> n \<Longrightarrow> lookup n k' s' = Some b \<Longrightarrow> lookup n k' s = Some b"
  shows "visible_ok K now' hist' s'"
  unfolding visible_ok_def
proof (intro conjI allI impI)
  fix n k' b assume k: "k' \<in> K" and n: "now' \<le> n" and b: "lookup n k' s' = Some b"
  have "lookup n k' s = Some b" by (rule assms(5) [OF n b])
  with visible_okD(2) [OF assms(1) k, of n b] n assms(3,4)
  show "\<exists>k d. (k, d) \<in> set hist' \<and> k' = storeKey c k \<and> cd_Encode cod d = Ok b" by fastforce
qed (rule assms(2))

lemma visible_tryHit: "visible_ok K now hist s \<Longrightarrow> visible_ok K now hist (snd (tryHit c ops now k s))"
  unfolding tryHit_state
  by (frule visible_okD(1), erule visible_ok_mono) (auto simp: get_inv dest: get_visible)

lemma visible_delete: "visible_ok K now hist s \<Longrightarrow> visible_ok K now hist (snd (st_Delete ops k s))"
  by (frule visible_okD(1), erule visible_ok_mono) (auto simp: delete_inv dest: delete_visible)

lemma visible_prefix: "visible_ok K now hist s \<Longrightarrow> visible_ok K now hist (snd (st_DeletePrefix ops p s))"
  by (frule visible_okD(1), erule visible_ok_mono) (auto simp: prefix_inv dest: prefix_visible)

lemma visible_flush: "visible_ok K now hist s \<Longrightarrow> visible_ok K now hist (snd (st_Flush ops s))"
  by (frule visible_okD(1), erule visible_ok_mono) (auto simp: flush_inv dest: flush_visible)

lemma visible_set:
  assumes "visible_ok K now hist s" "cd_Encode cod d = Ok b"
  shows "visible_ok K now ((k, d) # hist) (snd (st_Set ops now (storeKey c k) b ttl s))"
  unfolding visible_ok_def
proof (intro conjI allI impI)
  note i = visible_okD(1) [OF assms(1)]
  show "inv (snd (st_Set ops now (storeKey c k) b ttl s))" by (rule set_inv [OF i])
  fix n k' w assume k': "k' \<in> K" and n: "now \<le> n"
    and w: "lookup n k' (snd (st_Set ops now (storeKey c k) b ttl s)) = Some w"
  from set_visible [OF i n w] show "\<exists>j d'. (j, d') \<in> set ((k, d) # hist) \<and> k' = storeKey c j \<and> cd_Encode cod d' = Ok w"
  proof
    assume "k' = storeKey c k \<and> w = b"
    with assms(2) show ?thesis by auto
  next
    assume "lookup n k' s = Some w"
    from visible_okD(2) [OF assms(1) k' n this] show ?thesis by auto
  qed
qed

lemma visible_After:
  assumes "visible_ok K now hist s" "After c ops now info rec s f = (res, s', f')"
  shows "visible_ok K now (history_entry c info rec @ hist) s'"
proof -
  have more: "visible_ok K now (h @ hist) x" if "visible_ok K now hist x" for h x
    by (rule visible_ok_mono [OF that]) (use visible_okD(1) [OF that] in auto)
  consider "s' = s" | "s' = snd (st_Flush ops s)" | p where "s' = snd (st_DeletePrefix ops p s)"
    | r data where "rec = Some r" "commits c info r = Ok (Some data)"
        "s' = snd (st_Set ops now (storeKey c (rec_key r)) data (rec_ttl r) s)"
    using After_store [OF assms(2)] by blast
  then show ?thesis
  proof cases
    case 4
    with commits_encodes [OF 4(2)] visible_set [OF assms(1)] history_commits [OF 4(2)] show ?thesis
      by (simp add: codec)
  qed (use more assms(1) visible_prefix visible_flush in auto)
qed

lemma visible_hit:
  assumes "visible_ok K now hist s" "storeKey c k \<in> K" "fst (tryHit c ops now k s) = Ok (Some rd)"
  shows "replayed hist k rd"
proof -
  obtain b where b: "lookup now (storeKey c k) s = Some b" "cd_Decode cod b = Ok rd"
    using tryHit_Hit [OF visible_okD(1) [OF assms(1)] assms(3)] by blast
  from visible_okD(2) [OF assms(1,2) order_refl b(1)] obtain k' d where
    "(k', d) \<in> set hist" "storeKey c k = storeKey c k'" "cd_Encode cod d = Ok b" by blast
  with b(2) show ?thesis unfolding replayed_def by (auto simp: storeKey_def)
qed

lemma replayed_mono: "replayed hist k rd \<Longrightarrow> set hist \<subseteq> set hist' \<Longrightarrow> replayed hist' k rd"
  by (auto simp: replayed_def)

text \<open>The invariant of a run: of the keys \<open>K\<close>, the store and the hits of the goroutines \<open>T\<close> show only
  what the calls of \<open>hist\<close> committed.\<close>

definition coherent :: "string set \<Rightarrow> nat set \<Rightarrow> (string \<times> row_data) list \<Rightarrow> ('s, 'r) cache_sys \<Rightarrow> bool" where
  "coherent K T hist y =
     (visible_ok K (sy_now y) hist (sy_store y)
      \<and> (\<forall>t info p k rd. t \<in> T \<longrightarrow> sy_pc y t = TBefore info p \<longrightarrow> hit_of p = Some (k, rd) \<longrightarrow> storeKey c k \<in> K \<longrightarrow>
           replayed hist k rd))"

lemma coherentD:
  assumes "coherent K T hist y"
  shows "visible_ok K (sy_now y) hist (sy_store y)"
    and "t \<in> T \<Longrightarrow> sy_pc y t = TBefore info p \<Longrightarrow> hit_of p = Some (k, rd) \<Longrightarrow> storeKey c k \<in> K \<Longrightarrow> replayed hist k rd"
  using assms by (auto simp: coherent_def)

lemma coherent_same_pc:
  assumes "coherent K T hist y" "visible_ok K (sy_now z) hist (sy_store z)" "sy_pc z = sy_pc y"
  shows "coherent K T hist z"
  using assms by (simp add: coherent_def)

lemma coherent_update:
  assumes "coherent K T hist y" "visible_ok K (sy_now z) (new @ hist) (sy_store z)" "sy_pc z = (sy_pc y)(t := th)"
    "\<And>info p k rd. th = TBefore info p \<Longrightarrow> hit_of p = Some (k, rd) \<Longrightarrow> storeKey c k \<in> K \<Longrightarrow> replayed (new @ hist) k rd"
  shows "coherent K T (new @ hist) z"
  using assms(2,4) replayed_mono [OF coherentD(2) [OF assms(1)], of _ _ _ _ _ "new @ hist"]
  unfolding coherent_def assms(3) by (auto split: if_splits)

lemmas coherent_move = coherent_update [of _ _ _ _ _ "[]", unfolded append_Nil]

lemma coherent_step:
  assumes "cache_step H c ops y z" "coherent K T hist y"
  shows "\<exists>new. sy_hist z = new @ sy_hist y \<and> coherent K T (new @ hist) z"
proof -
  note v = coherentD(1) [OF assms(2)]
  have same: ?thesis if "sy_hist z = sy_hist y" "coherent K T hist z" using that by (intro exI [of _ "[]"]) simp
  from assms(1) show ?thesis
  proof cases
    case (call t info)
    with v before_start_no_hit [of H c info] show ?thesis by (intro same coherent_move [OF assms(2)]) auto
  next
    case (before t info p p' s' f')
    have "visible_ok K (sy_now y) hist s'"
      using before_step_store [OF before(3)] visible_tryHit v by auto
    with before visible_hit [OF v _ before_step_hit [OF before(3)]] show ?thesis
      by (intro same coherent_move [OF assms(2)]) auto
  next
    case (die t info r)
    with v show ?thesis by (intro same coherent_move [OF assms(2)]) auto
  next
    case (after t info r err cols rows res s' f')
    let ?new = "history_entry c (info\<lparr>ei_err := err\<rparr>) (recorder_for r cols rows)"
    have "coherent K T (?new @ hist) z"
      using after visible_After [OF v after(3)] by (intro coherent_update [OF assms(2)]) auto
    with after(1) show ?thesis by auto
  next
    case (invalidate key)
    with visible_delete [OF v] coherent_same_pc [OF assms(2)] show ?thesis
      by (intro same) (simp_all add: Invalidate_def)
  next
    case (invalidate_ns ns)
    with visible_prefix [OF v] coherent_same_pc [OF assms(2)] show ?thesis
      by (intro same) (simp_all add: InvalidateNamespace_def)
  next
    case flush
    with visible_flush [OF v] coherent_same_pc [OF assms(2)] show ?thesis
      by (intro same) (simp_all add: Flush_def)
  next
    case (tick now')
    have "visible_ok K now' hist (sy_store y)"
      by (rule visible_ok_mono [OF v visible_okD(1) [OF v] tick(2)]) auto
    with tick(1) coherent_same_pc [OF assms(2)] show ?thesis by (intro same) simp_all
  qed
qed

lemma coherent_run:
  assumes "(cache_step H c ops)\<^sup>*\<^sup>* y z" "coherent K T hist y"
  shows "\<exists>new. sy_hist z = new @ sy_hist y \<and> coherent K T (new @ hist) z"
  using assms(1)
proof (induction rule: rtranclp_induct)
  case base
  show ?case using assms(2) by (intro exI [of _ "[]"]) simp
next
  case (step u z)
  then obtain new where new: "sy_hist u = new @ sy_hist y" "coherent K T (new @ hist) u" by blast
  with coherent_step [OF step(2) new(2)] show ?case by (metis append.assoc)
qed

lemma hit_coherent:
  assumes "cache_reach H c ops s0 now0 y" "inv s0" "\<And>n k. lookup n k s0 = None"
    "sy_pc y t = TBefore info (BDone (Hit k rd))"
  shows "k = call_key H info
    \<and> (\<exists>d b. (k, d) \<in> set (sy_hist y) \<and> cd_Encode cod d = Ok b \<and> cd_Decode cod b = Ok rd \<and> (fits d b \<longrightarrow> rd = norm d))"
proof -
  have "coherent UNIV UNIV [] (new_sys s0 now0 :: ('s, 'a) cache_sys)"
    using assms(2,3) by (simp add: coherent_def new_sys_def visible_ok_def)
  from coherent_run [OF cache_reach_run [OF assms(1)] this] have "coherent UNIV UNIV (sy_hist y) y"
    by (auto simp: new_sys_def)
  from coherentD(2) [OF this _ assms(4)] have "replayed (sy_hist y) k rd" by simp
  then obtain d b where d: "(k, d) \<in> set (sy_hist y)" "cd_Encode cod d = Ok b" "cd_Decode cod b = Ok rd"
    unfolding replayed_def by blast
  moreover have "fits d b \<longrightarrow> rd = norm d" using roundtrip [OF d(2)] d(3) by auto
  ultimately show ?thesis using cache_reach_key [OF assms(1,4)] by (auto intro!: exI [of _ d] exI [of _ b])
qed

lemma reach_store_inv:
  assumes "cache_reach H c ops s0 now0 y" "inv s0"
  shows "inv (sy_store y)"
proof -
  have "coherent {} {} [] (new_sys s0 now0 :: ('s, 'a) cache_sys)"
    using assms(2) by (simp add: coherent_def new_sys_def visible_ok_def)
  from coherent_run [OF cache_reach_run [OF assms(1)] this] show ?thesis
    using visible_okD(1) [OF coherentD(1)] by blast
qed

text \<open>Once no entry of the keys \<open>K\<close> is visible, a goroutine that had no hit yet hits only what was committed
  later.\<close>

lemma hit_fresh:
  assumes "(cache_step H c ops)\<^sup>*\<^sup>* y z" "inv (sy_store y)"
    "\<And>n k. k \<in> K \<Longrightarrow> sy_now y \<le> n \<Longrightarrow> lookup n k (sy_store y) = None"
    "sy_pc z t = TBefore info (BDone (Hit k rd))" "storeKey c k \<in> K"
    "sy_pc y t \<noteq> TBefore info (BDone (Hit k rd))"
  shows "\<exists>new. sy_hist z = new @ sy_hist y \<and> replayed new k rd"
proof -
  let ?T = "{u. u = t \<and> (\<forall>j k rd. sy_pc y u \<noteq> TBefore j (BDone (Hit k rd)))}"
  have "hit_of p \<noteq> None \<Longrightarrow> \<exists>k rd. p = BDone (Hit k rd)" for p by (cases p rule: hit_of.cases) auto
  then have "coherent K ?T [] y"
    using assms(2,3) by (fastforce simp: coherent_def visible_ok_def)
  from coherent_run [OF assms(1) this] obtain new where
    new: "sy_hist z = new @ sy_hist y" "coherent K ?T new z" by auto
  have "\<forall>j k rd. sy_pc y t \<noteq> TBefore j (BDone (Hit k rd))"
    using run_hit_stays [OF assms(1)] assms(4,6) by fastforce
  with coherentD(2) [OF new(2) _ assms(4) _ assms(5)] new(1) show ?thesis by auto
qed

end

section \<open>A run with a hit\<close>

abbreviation cache_run :: "hash_env \<Rightarrow> cache_config \<Rightarrow> 's store \<Rightarrow> ('s, 'r) cache_sys \<Rightarrow> ('s, 'r) cache_sys \<Rightarrow> bool" where
  "cache_run H c ops \<equiv> (cache_step H c ops)\<^sup>*\<^sup>*"

lemma run_step: "cache_step H c ops y z \<Longrightarrow> cache_run H c ops y z"
  by (rule r_into_rtranclp)

lemma run_reach: "cache_run H c ops y z \<Longrightarrow> cache_reach H c ops s0 now0 y \<Longrightarrow> cache_reach H c ops s0 now0 z"
  by (induction rule: rtranclp_induct) (auto intro: cache_reach.step)

lemma run_inv: "cache_run H c ops y z \<Longrightarrow> cch_singleflight c \<Longrightarrow> sys_inv y \<Longrightarrow> sys_inv z"
  by (induction rule: rtranclp_induct) (auto intro: cache_step_inv)

text \<open>An idle goroutine can come to lead a free key, and then look it up.\<close>

lemma run_lead:
  assumes "sy_pc y t = TIdle" "ei_err info = None" "before_start H c info = BAcquire k ttl" "fl_calls (sy_flight y) k = None"
  shows "\<exists>z. cache_run H c ops y z \<and> sy_pc z = (sy_pc y)(t := TBefore info (BLead k ttl))
    \<and> sy_store z = sy_store y \<and> sy_now z = sy_now y \<and> sy_hist z = sy_hist y"
proof -
  define y1 where "y1 = y\<lparr>sy_pc := (sy_pc y)(t := TBefore info (BAcquire k ttl))\<rparr>"
  have y1: "cache_step H c ops y y1" using cache_step.call [OF assms(1,2), of H c ops] by (simp add: y1_def assms(3))
  obtain f' where "acquire k (sy_flight y) = (Leader, f')" using assms(4) by (simp add: acquire_def)
  then have "before_step c ops (sy_now y1) (BAcquire k ttl) (sy_store y1) (sy_flight y1) = Some (BLead k ttl, sy_store y1, f')"
    by (simp add: y1_def)
  note r = cache_step.before [OF _ this, of t info H]
  show ?thesis by (rule exI, rule conjI, rule converse_rtranclp_into_rtranclp [OF y1 run_step [OF r]])
      (simp_all add: y1_def)
qed

lemma run_look:
  assumes "sys_inv y" "sy_pc y t = TBefore info (BLead k ttl)" "tryHit c ops (sy_now y) k (sy_store y) = (Ok o', s')"
  shows "\<exists>z. cache_run H c ops y z \<and> sy_store z = s' \<and> sy_now z = sy_now y \<and> sy_hist z = sy_hist y
    \<and> sy_pc z = (sy_pc y)(t := TBefore info (BDone (case o' of None \<Rightarrow> Miss k ttl | Some rd \<Rightarrow> Hit k rd)))"
proof -
  have "fl_inv (sy_flight y) (sy_pc y)" using assms(1) by (simp add: sys_inv_def)
  then obtain f' where d: "fl_done k (sy_flight y) = Ok f'" using fl_done_lead by blast
  let ?f = "case o' of None \<Rightarrow> sy_flight y | Some rd \<Rightarrow> f'"
  let ?p = "BDone (case o' of None \<Rightarrow> Miss k ttl | Some rd \<Rightarrow> Hit k rd)"
  have "before_step c ops (sy_now y) (BLead k ttl) (sy_store y) (sy_flight y) = Some (?p, s', ?f)"
    using assms(3) d by (cases o') simp_all
  note r = cache_step.before [OF assms(2) this]
  show ?thesis by (rule exI, rule conjI, rule run_step [OF r]) simp
qed

text \<open>A goroutine that looked the key up before can commit what its query gave, whatever happened meanwhile.\<close>

lemma run_commit:
  fixes d :: row_data
  assumes "sys_inv y" "sy_pc y t = TBefore info (BDone (Miss k ttl))" "ei_err info = None"
    "ei_op info = OpGet \<or> ei_op info = OpSelect" "\<not> ei_inTx info"
    "commits c info \<lparr>rec_key = k, rec_ttl = ttl, rec_cols = rd_columns d, rec_rows = rd_rows d\<rparr> = Ok (Some data)"
  shows "\<exists>z. cache_run H c ops y z \<and> sy_pc z = (sy_pc y)(t := TDone (Miss k ttl)) \<and> sy_now z = sy_now y
    \<and> sy_store z = snd (st_Set ops (sy_now y) (storeKey c k) data ttl (sy_store y))
    \<and> sy_hist z = (k, d) # sy_hist y \<and> fl_calls (sy_flight z) k = None"
proof -
  let ?r = "recorder_for (Miss k ttl) (rd_columns d) (rd_rows d)"
  have i: "info\<lparr>ei_err := None\<rparr> = info" using assms(3) by simp
  have inv: "fl_inv (sy_flight y) (sy_pc y)" using assms(1) by (simp add: sys_inv_def)
  obtain res s' f' where a: "After c ops (sy_now y) (info\<lparr>ei_err := None\<rparr>) ?r (sy_store y) (sy_flight y) = (res, s', f')"
    by (metis prod_cases3)
  note after = cache_step.after [OF assms(2) a]
  have "s' = snd (st_Set ops (sy_now y) (storeKey c k) data ttl (sy_store y))"
    using After_query [OF assms(4,5) a [unfolded i recorder_for_def before_result.case]] assms(6) by simp
  moreover have "fl_calls f' k = None"
    using After_flight [OF a _ fl_done_lead [OF inv], of k] fl_done_Ok [OF fl_invD(1) [OF inv], of k] assms(2,4,5) by auto
  moreover have "history_entry c (info\<lparr>ei_err := None\<rparr>) ?r = [(k, d)]"
    using assms(6) unfolding i recorder_for_def by (simp add: history_commits recorded_def)
  ultimately show ?thesis by - (rule exI, rule conjI, rule run_step [OF after], simp)
qed

text \<open>One goroutine misses and runs its query; when it commits, a second one then finds what it has stored.\<close>

lemma run_miss:
  assumes "sys_inv y" "cch_singleflight c" "sy_pc y t = TIdle" "ei_err info = None"
    "before_start H c info = BAcquire k ttl" "fl_calls (sy_flight y) k = None"
    "tryHit c ops (sy_now y) k (sy_store y) = (Ok None, s')"
  shows "\<exists>z. cache_run H c ops y z \<and> sy_pc z = (sy_pc y)(t := TBefore info (BDone (Miss k ttl)))
    \<and> sy_store z = s' \<and> sy_now z = sy_now y \<and> sy_hist z = sy_hist y"
proof -
  obtain u where u: "cache_run H c ops y u" "sy_pc u = (sy_pc y)(t := TBefore info (BLead k ttl))"
    "sy_store u = sy_store y" "sy_now u = sy_now y" "sy_hist u = sy_hist y"
    using run_lead [OF assms(3-6)] by blast
  then have "sy_pc u t = TBefore info (BLead k ttl)" "tryHit c ops (sy_now u) k (sy_store u) = (Ok None, s')"
    using assms(7) by simp_all
  from run_look [OF run_inv [OF u(1) assms(2,1)] this, where H = H] obtain z where
    "cache_run H c ops u z" "sy_store z = s'" "sy_now z = sy_now u" "sy_hist z = sy_hist u"
    "sy_pc z = (sy_pc u)(t := TBefore info (BDone (Miss k ttl)))" by auto
  with u show ?thesis using rtranclp_trans [OF u(1)] by (intro exI [of _ z]) simp
qed

lemma run_second_hit:
  fixes d :: row_data
  assumes "sys_inv y" "cch_singleflight c" "sy_pc y t = TBefore info (BDone (Miss k ttl))" "sy_pc y u = TIdle"
    "ei_err info = None" "before_start H c info = BAcquire k ttl" "ei_op info = OpGet \<or> ei_op info = OpSelect" "\<not> ei_inTx info"
    "commits c info \<lparr>rec_key = k, rec_ttl = ttl, rec_cols = rd_columns d, rec_rows = rd_rows d\<rparr> = Ok (Some data)"
    "tryHit c ops (sy_now y) k (snd (st_Set ops (sy_now y) (storeKey c k) data ttl (sy_store y))) = (Ok (Some rd), s')"
  shows "\<exists>z. cache_run H c ops y z \<and> sy_pc z u = TBefore info (BDone (Hit k rd)) \<and> sy_hist z = (k, d) # sy_hist y"
proof -
  have tu: "t \<noteq> u" using assms(3,4) by auto
  obtain a where a: "cache_run H c ops y a" "sy_pc a = (sy_pc y)(t := TDone (Miss k ttl))" "sy_now a = sy_now y"
    "sy_store a = snd (st_Set ops (sy_now y) (storeKey c k) data ttl (sy_store y))"
    "sy_hist a = (k, d) # sy_hist y" "fl_calls (sy_flight a) k = None"
    using run_commit [OF assms(1,3,5,7,8,9)] by blast
  obtain b where b: "cache_run H c ops a b" "sy_pc b u = TBefore info (BLead k ttl)"
    "sy_store b = sy_store a" "sy_now b = sy_now a" "sy_hist b = sy_hist a"
    using run_lead [of a u info H c k ttl ops] a assms(4-6) tu by auto
  note ab = rtranclp_trans [OF a(1) b(1)]
  have "tryHit c ops (sy_now b) k (sy_store b) = (Ok (Some rd), s')" using assms(10) a(3,4) b(3,4) by simp
  from run_look [OF run_inv [OF ab assms(2,1)] b(2) this, where H = H] obtain z where
    "cache_run H c ops b z" "sy_hist z = sy_hist b" "sy_pc z = (sy_pc b)(u := TBefore info (BDone (Hit k rd)))" by auto
  then show ?thesis using rtranclp_trans [OF ab] a(5) b(5) by (intro exI [of _ z]) simp
qed

lemma reach_hit:
  fixes s0 :: 's and d :: row_data and info :: "'r exec_info"
  assumes "cch_singleflight c" "before_start H c info = BAcquire k ttl" "ei_err info = None"
    "ei_op info = OpGet \<or> ei_op info = OpSelect" "\<not> ei_inTx info" "tryHit c ops now0 k s0 = (Ok None, s1)"
    "commits c info \<lparr>rec_key = k, rec_ttl = ttl, rec_cols = rd_columns d, rec_rows = rd_rows d\<rparr> = Ok (Some data)"
    "tryHit c ops now0 k (snd (st_Set ops now0 (storeKey c k) data ttl s1)) = (Ok (Some rd), s2)"
  shows "\<exists>y :: ('s, 'r) cache_sys. cache_reach H c ops s0 now0 y \<and> sy_pc y 1 = TBefore info (BDone (Hit k rd))"
proof -
  let ?y = "new_sys s0 now0 :: ('s, 'r) cache_sys"
  have n: "sy_pc ?y = (\<lambda>_. TIdle)" "fl_calls (sy_flight ?y) k = None" "sy_store ?y = s0" "sy_now ?y = now0"
    by (simp_all add: new_sys_def new_flight_def)
  obtain z where z: "cache_run H c ops ?y z" "sy_pc z = (sy_pc ?y)(0 := TBefore info (BDone (Miss k ttl)))"
    "sy_store z = s1" "sy_now z = now0"
    using run_miss [OF sys_inv_new assms(1), of s0 now0 0 info H k ttl ops s1] n assms(2,3,6) by auto
  obtain w where w: "cache_run H c ops z w" "sy_pc w 1 = TBefore info (BDone (Hit k rd))"
    using run_second_hit [OF run_inv [OF z(1) assms(1) sys_inv_new] assms(1), of 0 info k ttl 1 H d data ops rd s2]
      z n assms(2-5,7,8) by auto
  with run_reach [OF rtranclp_trans [OF z(1) w(1)] cache_reach.start] show ?thesis by blast
qed

end
