(* ===== verification/CacheProps.thy ===== *)
theory CacheProps
  imports Coherence
begin

text \<open>
  The \<open>flight\<close> against all goroutines. One goroutine per key runs the query and the others wait; from every
  reachable state each \<open>Before\<close> can finish, unless the goroutine that leads its key died between its \<open>Before\<close>
  and its \<open>After\<close>, in which case it never does.
\<close>

section \<open>Single flight\<close>

text \<open>C9: Single flight. In every reachable state at most one goroutine leads a key, that is, looks the
  key up or runs the query behind it; a goroutine that waits waits for a call that is closed, or for the
  open call of its key, which is led by a goroutine (alive, or dead before its \<open>After\<close>) as long as no
  \<open>Before\<close> panicked; and no \<open>done\<close> ever closes a channel twice.\<close>

theorem cache_single_flight:
  fixes y :: "('s, 'r) cache_sys"
  assumes "cache_reach H c ops s0 now0 y" "cch_singleflight c"
  shows "(\<forall>t t' k. lead_key (sy_pc y t) = Some k \<longrightarrow> lead_key (sy_pc y t') = Some k \<longrightarrow> t = t')
    \<and> (\<forall>t k ch. wait_on (sy_pc y t) = Some (k, ch) \<longrightarrow>
         ch \<in> fl_closed (sy_flight y)
         \<or> (fl_calls (sy_flight y) k = Some ch
             \<and> ((\<exists>t'. lead_key (sy_pc y t') = Some k) \<or> (\<exists>t'. panicked (sy_pc y t')))))
    \<and> (\<forall>k. \<exists>f'. fl_done k (sy_flight y) = Ok f')"
proof -
  have inv: "fl_inv (sy_flight y) (sy_pc y)"
    using cache_reach_inv [OF assms] by (simp add: sys_inv_def)
  have "\<exists>f'. fl_done k (sy_flight y) = Ok f'" for k using fl_done_lead [OF inv] .
  moreover have "t = t'" if "lead_key (sy_pc y t) = Some k" "lead_key (sy_pc y t') = Some k" for t t' k
    using fl_invD(3) [OF inv that] .
  moreover have "ch \<in> fl_closed (sy_flight y)
         \<or> (fl_calls (sy_flight y) k = Some ch
             \<and> ((\<exists>t'. lead_key (sy_pc y t') = Some k) \<or> (\<exists>t'. panicked (sy_pc y t'))))"
    if "wait_on (sy_pc y t) = Some (k, ch)" for t k ch
    using fl_invD(4) [OF inv that] fl_invD(5) [OF inv, of k] by auto
  ultimately show ?thesis by blast
qed

section \<open>No lost wake-up\<close>

definition quiet :: "('s, 'r) cache_sys \<Rightarrow> bool" where
  "quiet y = (\<forall>t. \<not> panicked (sy_pc y t))"

text \<open>A key is abandoned when the goroutine that leads it died.\<close>

definition abandoned :: "('s, 'r) cache_sys \<Rightarrow> string \<Rightarrow> bool" where
  "abandoned y k = (\<exists>t ttl. sy_pc y t = TDead (Miss k ttl))"

definition calm :: "string \<Rightarrow> ('s, 'r) cache_sys \<Rightarrow> bool" where
  "calm k y = (sys_inv y \<and> quiet y \<and> \<not> abandoned y k)"

lemma calmD:
  assumes "calm k y"
  shows "fl_inv (sy_flight y) (sy_pc y)" "sys_inv y" "pc_ok (sy_pc y t)" "\<not> panicked (sy_pc y t)"
    "sy_pc y t \<noteq> TDead (Miss k ttl)"
  using assms by (auto simp: calm_def sys_inv_def quiet_def abandoned_def)

text \<open>The goroutine \<open>t\<close> can finish its \<open>Before\<close>, or some goroutine panics on the way.\<close>

definition returns :: "hash_env \<Rightarrow> cache_config \<Rightarrow> 's store \<Rightarrow> ('s, 'r) cache_sys \<Rightarrow> nat \<Rightarrow> 'r exec_info \<Rightarrow> bool" where
  "returns H c ops y t info =
     (\<exists>z. cache_run H c ops y z \<and> ((\<exists>r. sy_pc z t = TBefore info (BDone r)) \<or> \<not> quiet z))"

lemma returns_run: "cache_run H c ops y z \<Longrightarrow> returns H c ops z t info \<Longrightarrow> returns H c ops y t info"
  unfolding returns_def by (meson rtranclp_trans)

lemma returns_now: "sy_pc y t = TBefore info (BDone r) \<or> \<not> quiet y \<Longrightarrow> returns H c ops y t info"
  unfolding returns_def by blast

text \<open>One step of \<open>Before\<close>: the goroutine panics, or the system stays calm.\<close>

lemma calm_before:
  assumes "calm k y" "cch_singleflight c" "sy_pc y t = TBefore info p"
    "before_step c ops (sy_now y) p (sy_store y) (sy_flight y) = Some (p', s', f')"
  shows "\<exists>z. cache_step H c ops y z \<and> sy_pc z = (sy_pc y)(t := TBefore info p') \<and> sy_flight z = f'
    \<and> (if panicked (TBefore info p') then \<not> quiet z else calm k z)"
proof -
  define z where "z = y\<lparr>sy_pc := (sy_pc y)(t := TBefore info p'), sy_store := s', sy_flight := f'\<rparr>"
  have st: "cache_step H c ops y z" unfolding z_def by (rule cache_step.before [OF assms(3,4)])
  have inv: "sys_inv z" by (rule cache_step_inv [OF st assms(2) calmD(2) [OF assms(1)]])
  have "quiet z \<longleftrightarrow> \<not> panicked (TBefore info p')"
    using calmD(4) [OF assms(1)] unfolding quiet_def z_def
    by (auto simp del: panicked.simps)
  moreover have "\<not> abandoned z k" using calmD(5) [OF assms(1)] by (simp add: abandoned_def z_def)
  ultimately show ?thesis using st inv
    by (intro exI [of _ z]) (simp add: z_def calm_def del: panicked.simps)
qed

lemma returns_before:
  assumes "calm k y" "cch_singleflight c" "sy_pc y t = TBefore info p"
    "before_step c ops (sy_now y) p (sy_store y) (sy_flight y) = Some (p', s', f')"
    "\<And>z. calm k z \<Longrightarrow> sy_pc z t = TBefore info p' \<Longrightarrow> sy_flight z = f' \<Longrightarrow> returns H c ops z t info"
  shows "returns H c ops y t info"
proof -
  obtain z where z: "cache_step H c ops y z" "sy_pc z = (sy_pc y)(t := TBefore info p')" "sy_flight z = f'"
    "if panicked (TBefore info p') then \<not> quiet z else calm k z"
    using calm_before [OF assms(1-4), of H] by blast
  have "returns H c ops z t info"
  proof (cases "panicked (TBefore info p')")
    case False
    with z have "calm k z" "sy_pc z t = TBefore info p'" by simp_all
    from assms(5) [OF this z(3)] show ?thesis .
  next
    case True
    with z(4) show ?thesis by (intro returns_now) simp
  qed
  with run_step [OF z(1)] show ?thesis by (rule returns_run)
qed

text \<open>What a goroutine that looks does next, by \<open>tryHit\<close>.\<close>

lemma tryHit_no_Err: "tryHit c ops now k s \<noteq> (Err e, s')"
  by (auto simp: tryHit_def split: prod.splits outcome.splits option.splits)

lemma lead_before_step:
  assumes "fl_inv f pc"
  obtains s' where "before_step c ops now (BLead k ttl) s f = Some (BDone (Miss k ttl), s', f)"
  | s' rd f' where "before_step c ops now (BLead k ttl) s f = Some (BDone (Hit k rd), s', f')" "fl_done k f = Ok f'"
  | s' m where "before_step c ops now (BLead k ttl) s f = Some (BPanic m, s', f)"
proof -
  obtain f' where "fl_done k f = Ok f'" using fl_done_lead [OF assms] by blast
  moreover obtain r s' where "tryHit c ops now k s = (r, s')" by fastforce
  ultimately show thesis
  proof (cases r)
    case (Ok o')
    with \<open>fl_done k f = Ok f'\<close> \<open>tryHit c ops now k s = (r, s')\<close> show thesis
      by (cases o') (auto intro: that(1,2))
  next
    case (Err e)
    with \<open>tryHit c ops now k s = (r, s')\<close> tryHit_no_Err [of c ops now k s e s'] show thesis by simp
  next
    case (Panic m)
    with \<open>tryHit c ops now k s = (r, s')\<close> show thesis by (auto intro: that(3))
  qed
qed

text \<open>A leader can finish, whatever its query returned, unless a goroutine panics; its call is then
  closed and the other goroutines are where they were.\<close>

definition finished :: "('s, 'r) cache_sys \<Rightarrow> ('s, 'r) cache_sys \<Rightarrow> nat \<Rightarrow> string \<Rightarrow> bool" where
  "finished y z t k =
     (calm k z \<and> fl_calls (sy_flight z) k = None
      \<and> (\<forall>ch. fl_calls (sy_flight y) k = Some ch \<longrightarrow> ch \<in> fl_closed (sy_flight z))
      \<and> (\<forall>x. x \<noteq> t \<longrightarrow> sy_pc z x = sy_pc y x))"

lemma done_closes:
  assumes "fl_inv f pc" "fl_done k f = Ok f'"
  shows "fl_calls f' k = None" "fl_calls f k = Some ch \<Longrightarrow> ch \<in> fl_closed f'"
  using fl_done_Ok [OF fl_invD(1) [OF assms(1)], of k] assms(2) by auto

lemma miss_finishes:
  assumes "calm k y" "cch_singleflight c" "sy_pc y t = TBefore info (BDone (Miss k ttl))"
  shows "\<exists>z. cache_step H c ops y z \<and> finished y z t k"
proof -
  let ?r = "recorder_for (Miss k ttl) [] []"
  let ?i = "info\<lparr>ei_err := None\<rparr>"
  obtain res s' f' where a: "After c ops (sy_now y) ?i ?r (sy_store y) (sy_flight y) = (res, s', f')"
    by (metis prod_cases3)
  have ok: "\<not> ei_inTx ?i \<and> (ei_op ?i = OpGet \<or> ei_op ?i = OpSelect)"
    using calmD(3) [OF assms(1), of t] assms(3) by simp
  have d: "fl_done k (sy_flight y) = Ok f'"
    using After_flight [OF a, of k] ok fl_done_lead [OF calmD(1) [OF assms(1)]] by simp
  define z where "z = y\<lparr>sy_pc := (sy_pc y)(t := TDone (Miss k ttl)), sy_store := s', sy_flight := f',
      sy_hist := history_entry c ?i ?r @ sy_hist y\<rparr>"
  have st: "cache_step H c ops y z" unfolding z_def by (rule cache_step.after [OF assms(3) a])
  have "quiet z" using calmD(4) [OF assms(1)] by (simp add: quiet_def z_def)
  moreover have "\<not> abandoned z k" using calmD(5) [OF assms(1)] by (simp add: abandoned_def z_def)
  ultimately have "calm k z" using cache_step_inv [OF st assms(2) calmD(2) [OF assms(1)]] by (simp add: calm_def)
  with st done_closes [OF calmD(1) [OF assms(1)] d] show ?thesis
    by (intro exI [of _ z]) (simp add: finished_def z_def)
qed

lemma lead_finishes:
  assumes "calm k y" "cch_singleflight c" "lead_key (sy_pc y t) = Some k"
  shows "\<exists>z. cache_run H c ops y z \<and> (finished y z t k \<or> \<not> quiet z)"
proof -
  consider info ttl where "sy_pc y t = TBefore info (BDone (Miss k ttl))" | info ttl where "sy_pc y t = TBefore info (BLead k ttl)"
    using assms(3) calmD(5) [OF assms(1), of t] by (cases "sy_pc y t" rule: lead_key.cases) auto
  then show ?thesis
  proof cases
    case 1
    from miss_finishes [OF assms(1,2) 1] run_step show ?thesis by blast
  next
    case 2
    note step = calm_before [OF assms(1,2) 2, where H = H]
    show ?thesis
    proof (rule lead_before_step [OF calmD(1) [OF assms(1)], of c ops "sy_now y" k ttl "sy_store y"])
      fix s' assume "before_step c ops (sy_now y) (BLead k ttl) (sy_store y) (sy_flight y) = Some (BDone (Miss k ttl), s', sy_flight y)"
      from step [OF this] obtain z where z: "cache_step H c ops y z" "calm k z" "sy_flight z = sy_flight y"
        "sy_pc z = (sy_pc y)(t := TBefore info (BDone (Miss k ttl)))" by auto
      then have "sy_pc z t = TBefore info (BDone (Miss k ttl))" by simp
      from miss_finishes [OF z(2) assms(2) this] obtain z' where z': "cache_step H c ops z z'" "finished z z' t k" by blast
      have "finished y z' t k" using z'(2) z(3,4) by (simp add: finished_def)
      with rtranclp_trans [OF run_step [OF z(1)] run_step [OF z'(1)]] show ?thesis by blast
    next
      fix s' rd f' assume b: "before_step c ops (sy_now y) (BLead k ttl) (sy_store y) (sy_flight y) = Some (BDone (Hit k rd), s', f')"
        and d: "fl_done k (sy_flight y) = Ok f'"
      from step [OF b] obtain z where z: "cache_step H c ops y z" "calm k z" "sy_flight z = f'"
        "sy_pc z = (sy_pc y)(t := TBefore info (BDone (Hit k rd)))" by auto
      with done_closes [OF calmD(1) [OF assms(1)] d] have "finished y z t k" by (simp add: finished_def)
      with run_step [OF z(1)] show ?thesis by blast
    next
      fix s' m assume "before_step c ops (sy_now y) (BLead k ttl) (sy_store y) (sy_flight y) = Some (BPanic m, s', sy_flight y)"
      from step [OF this] obtain z where "cache_step H c ops y z" "\<not> quiet z" by auto
      with run_step show ?thesis by blast
    qed
  qed
qed

text \<open>Free a key: let its leader, if it has one, finish.\<close>

lemma returns_when_free:
  assumes "calm k y" "cch_singleflight c" "lead_key (sy_pc y t) = None"
    "\<And>z. calm k z \<Longrightarrow> fl_calls (sy_flight z) k = None \<Longrightarrow> sy_pc z t = sy_pc y t \<Longrightarrow>
       (\<And>ch. fl_calls (sy_flight y) k = Some ch \<Longrightarrow> ch \<in> fl_closed (sy_flight z)) \<Longrightarrow> returns H c ops z t info"
  shows "returns H c ops y t info"
proof (cases "fl_calls (sy_flight y) k")
  case None
  with assms(1,4) show ?thesis by simp
next
  case (Some ch)
  then obtain t' where t': "lead_key (sy_pc y t') = Some k"
    using fl_invD(5) [OF calmD(1) [OF assms(1)], of k] calmD(4) [OF assms(1)] by auto
  obtain z where z: "cache_run H c ops y z" "finished y z t' k \<or> \<not> quiet z"
    using lead_finishes [OF assms(1,2) t'] by blast
  have "t \<noteq> t'" using t' assms(3) by auto
  have "returns H c ops z t info"
  proof (cases "quiet z")
    case True
    with z(2) have "finished y z t' k" by simp
    with \<open>t \<noteq> t'\<close> show ?thesis unfolding finished_def by (intro assms(4)) auto
  qed (intro returns_now disjI2)
  with z(1) show ?thesis by (rule returns_run)
qed

text \<open>The states of \<open>Before\<close>, from the last to the first.\<close>

lemma returns_lead:
  assumes "calm k y" "cch_singleflight c" "sy_pc y t = TBefore info (BLead k ttl)"
  shows "returns H c ops y t info"
proof (rule lead_before_step [OF calmD(1) [OF assms(1)], of c ops "sy_now y" k ttl "sy_store y"])
  fix s'
  assume "before_step c ops (sy_now y) (BLead k ttl) (sy_store y) (sy_flight y) = Some (BDone (Miss k ttl), s', sy_flight y)"
  from returns_before [OF assms this] returns_now show ?thesis by blast
next
  fix s' rd f'
  assume "before_step c ops (sy_now y) (BLead k ttl) (sy_store y) (sy_flight y) = Some (BDone (Hit k rd), s', f')"
  from returns_before [OF assms this] returns_now show ?thesis by blast
next
  fix s' m
  assume b: "before_step c ops (sy_now y) (BLead k ttl) (sy_store y) (sy_flight y) = Some (BPanic m, s', sy_flight y)"
  show ?thesis
  proof (rule returns_before [OF assms b])
    fix z :: "('a, 'b) cache_sys" assume "calm k z" "sy_pc z t = TBefore info (BPanic m)"
    with calmD(4) [OF this(1), of t] show "returns H c ops z t info" by simp
  qed
qed

lemma returns_acquire:
  assumes "calm k y" "cch_singleflight c" "sy_pc y t = TBefore info (BAcquire k ttl)"
  shows "returns H c ops y t info"
proof (rule returns_when_free [OF assms(1,2), of t])
  show "lead_key (sy_pc y t) = None" using assms(3) by simp
  fix z :: "('a, 'b) cache_sys"
  assume z: "calm k z" "fl_calls (sy_flight z) k = None" "sy_pc z t = sy_pc y t"
  obtain f' where "acquire k (sy_flight z) = (Leader, f')" using z(2) by (simp add: acquire_def)
  then have st: "before_step c ops (sy_now z) (BAcquire k ttl) (sy_store z) (sy_flight z)
      = Some (BLead k ttl, sy_store z, f')" by simp
  from z(3) assms(3) have "sy_pc z t = TBefore info (BAcquire k ttl)" by simp
  from returns_before [OF z(1) assms(2) this st] returns_lead [OF _ assms(2)]
  show "returns H c ops z t info" by blast
qed

lemma returns_recheck:
  assumes "calm k y" "cch_singleflight c" "sy_pc y t = TBefore info (BRecheck k ttl)"
  shows "returns H c ops y t info"
proof -
  obtain r s' where hit: "tryHit c ops (sy_now y) k (sy_store y) = (r, s')" by fastforce
  define p' where "p' = (case r of Ok (Some rd) \<Rightarrow> BDone (Hit k rd) | Ok None \<Rightarrow> BAcquire k ttl | Err e \<Rightarrow> BPanic [] | Panic m \<Rightarrow> BPanic m)"
  have st: "before_step c ops (sy_now y) (BRecheck k ttl) (sy_store y) (sy_flight y) = Some (p', s', sy_flight y)"
    using hit by (simp add: p'_def split: outcome.splits option.splits)
  show ?thesis
  proof (rule returns_before [OF assms st])
    fix z :: "('a, 'b) cache_sys" assume z: "calm k z" "sy_pc z t = TBefore info p'"
    with calmD(4) [OF z(1), of t] show "returns H c ops z t info"
      by (auto simp: p'_def intro: returns_now returns_acquire [OF z(1) assms(2)]
          split: outcome.splits option.splits)
  qed
qed

lemma returns_wait:
  assumes "calm k y" "cch_singleflight c" "sy_pc y t = TBefore info (BWait k ttl ch)"
  shows "returns H c ops y t info"
proof -
  have closed: "returns H c ops z t info"
    if z: "calm k z" "sy_pc z t = TBefore info (BWait k ttl ch)" "ch \<in> fl_closed (sy_flight z)" for z
  proof -
    from z(3) have st: "before_step c ops (sy_now z) (BWait k ttl ch) (sy_store z) (sy_flight z)
        = Some (BRecheck k ttl, sy_store z, sy_flight z)" by simp
    from returns_before [OF z(1) assms(2) z(2) st] returns_recheck [OF _ assms(2)] show ?thesis by blast
  qed
  from fl_invD(4) [OF calmD(1) [OF assms(1)], of t k ch] assms(3)
  consider "ch \<in> fl_closed (sy_flight y)" | "fl_calls (sy_flight y) k = Some ch" by auto
  then show ?thesis
  proof cases
    case 1
    with assms closed show ?thesis by blast
  next
    case 2
    show ?thesis
    proof (rule returns_when_free [OF assms(1,2), of t])
      show "lead_key (sy_pc y t) = None" using assms(3) by simp
    qed (use assms(3) 2 closed in auto)
  qed
qed

text \<open>Panics come from the store or the decoder only.\<close>

definition total_hit :: "cache_config \<Rightarrow> 's store \<Rightarrow> bool" where
  "total_hit c ops = (\<forall>now k s. \<exists>o'. fst (tryHit c ops now k s) = Ok o')"

lemma before_step_quiet:
  assumes "total_hit c ops" "fl_inv f pc" "before_step c ops now p s f = Some (p', s', f')"
  shows "\<not> panicked (TBefore info p')"
proof -
  have t: "\<exists>o' s1. tryHit c ops now k s = (Ok o', s1)" for k
    using assms(1) unfolding total_hit_def by (metis prod.collapse)
  have d: "\<exists>g. fl_done k f = Ok g" for k using fl_done_lead [OF assms(2)] .
  show ?thesis
  proof (cases "\<exists>k ttl. p = BLead k ttl \<or> p = BRecheck k ttl \<or> p = BPlain k ttl")
    case True
    then obtain k ttl where "p = BLead k ttl \<or> p = BRecheck k ttl \<or> p = BPlain k ttl" by blast
    with assms(3) t [of k] d [of k] show ?thesis by (auto split: option.splits)
  next
    case False
    with assms(3) show ?thesis by (cases p) (auto split: prod.splits ticket.splits if_splits)
  qed
qed

lemma reach_quiet:
  "cache_reach H c ops s0 now0 y \<Longrightarrow> cch_singleflight c \<Longrightarrow> total_hit c ops \<Longrightarrow> quiet y"
proof (induction rule: cache_reach.induct)
  case start
  show ?case by (simp add: quiet_def new_sys_def)
next
  case (step y z)
  then have q: "quiet y" by simp
  from step(2) show ?case
  proof cases
    case (call t info)
    with q before_start_cases [OF step(4), of H info] show ?thesis by (auto simp: quiet_def)
  next
    case (before t info p p' s' f')
    have "fl_inv (sy_flight y) (sy_pc y)" using cache_reach_inv [OF step(1,4)] by (simp add: sys_inv_def)
    from before_step_quiet [OF step(5) this before(3)] before(1) q show ?thesis
      by (auto simp: quiet_def simp del: panicked.simps)
  qed (use q in \<open>simp_all add: quiet_def\<close>)
qed

text \<open>When the leader of a key is dead, its call stays open, and whoever waits for it waits for ever.\<close>

definition parked :: "('s, 'r) cache_sys \<Rightarrow> nat \<Rightarrow> 'r exec_info \<Rightarrow> string \<Rightarrow> bool" where
  "parked y t info k =
     (\<exists>ttl ch. sy_pc y t = TBefore info (BAcquire k ttl)
        \<or> sy_pc y t = TBefore info (BWait k ttl ch) \<and> ch \<notin> fl_closed (sy_flight y))"

lemma abandoned_step:
  assumes "cache_step H c ops y z" "cch_singleflight c" "sys_inv y" "sy_pc y d = TDead (Miss k ttl)"
  shows "sy_pc z d = TDead (Miss k ttl) \<and> fl_calls (sy_flight z) k = fl_calls (sy_flight y) k"
proof -
  have inv: "fl_inv (sy_flight y) (sy_pc y)" and pc: "pc_ok (sy_pc y t)" for t
    using assms(3) by (simp_all add: sys_inv_def)
  have lead: "lead_key (sy_pc y d) = Some k" using assms(4) by simp
  have only: "k' \<noteq> k" if "lead_key (sy_pc y t) = Some k'" "t \<noteq> d" for t k'
    using fl_invD(3) [OF inv lead, of t] that by blast
  have other: "fl_calls f' k = fl_calls (sy_flight y) k" if "fl_done k' (sy_flight y) = Ok f'" "k' \<noteq> k" for k' f'
    using fl_done_Ok [OF fl_invD(1) [OF inv], of k'] that by auto
  from assms(1) show ?thesis
  proof cases
    case (before t info p p' s' f')
    have td: "t \<noteq> d" using before(2) assms(4) by auto
    have "fl_calls f' k = fl_calls (sy_flight y) k" using before(3)
    proof (cases rule: before_stepE)
      case (lead k' ttl')
      then show ?thesis using fl_invD(2) [OF inv \<open>lead_key (sy_pc y d) = Some k\<close>]
        by (auto simp: acquire_Leader)
    next
      case (queue k' ttl' ch)
      then show ?thesis by (simp add: acquire_WaitFor)
    next
      case (lead_hit k' ttl' rd)
      with before(2) have "lead_key (sy_pc y t) = Some k'" by simp
      from other [OF lead_hit(3) only [OF this td]] show ?thesis .
    qed simp_all
    with before(1) assms(4) td show ?thesis by simp
  next
    case (after t info r err cols rows res s' f')
    have td: "t \<noteq> d" using after(2) assms(4) by auto
    have "case r of Miss k ttl \<Rightarrow> k = k0 \<longrightarrow> fl_done k (sy_flight y) = Ok f' | _ \<Rightarrow> f' = sy_flight y" for k0
      by (rule After_flight [OF after(3) _ fl_done_lead [OF inv]]) (use pc [of t] after(2) in auto)
    then have "fl_calls f' k = fl_calls (sy_flight y) k"
      using only [of t] after(2) td other by (cases r) auto
    with after(1) assms(4) td show ?thesis by simp
  qed (use assms(4) in auto)
qed

lemma parked_step:
  assumes "cache_step H c ops y z" "cch_singleflight c" "sys_inv y" "sy_pc y d = TDead (Miss k ttl)" "parked y t info k"
  shows "parked z t info k"
proof -
  have inv: "fl_inv (sy_flight y) (sy_pc y)" "fl_inv (sy_flight z) (sy_pc z)"
    using assms(3) cache_step_inv [OF assms(1-3)] by (simp_all add: sys_inv_def)
  have "lead_key (sy_pc y d) = Some k" using assms(4) by simp
  from fl_invD(2) [OF inv(1) this] obtain c0 where c0: "fl_calls (sy_flight y) k = Some c0" by blast
  with abandoned_step [OF assms(1-4)] have z0: "fl_calls (sy_flight z) k = Some c0" by simp
  have open0: "c0 \<notin> fl_closed (sy_flight z)" using fl_invD(1) [OF inv(2)] z0 by (auto simp: fl_wf_def)
  have wait: "ch = c0" if "sy_pc y t = TBefore info (BWait k ttl' ch)" "ch \<notin> fl_closed (sy_flight y)" for ttl' ch
    using fl_invD(4) [OF inv(1), of t k ch] that c0 by simp
  have moved: "parked z t info k" if "sy_pc z t = sy_pc y t"
    using that assms(5) wait open0 unfolding parked_def by metis
  from assms(1) show ?thesis
  proof cases
    case (before u info' p p' s' f')
    show ?thesis
    proof (cases "u = t")
      case True
      from assms(5) before(2) True obtain ttl' ch where
        "info' = info" "p = BAcquire k ttl' \<or> p = BWait k ttl' ch \<and> ch \<notin> fl_closed (sy_flight y)"
        by (auto simp: parked_def)
      with before(3) c0 have "p' = BWait k ttl' c0" by (auto simp: acquire_def split: if_splits)
      with before(1) True \<open>info' = info\<close> open0 show ?thesis by (auto simp: parked_def)
    next
      case False
      with before(1) show ?thesis by (intro moved) simp
    qed
  next
    case (call u info')
    with assms(5) have "u \<noteq> t" by (auto simp: parked_def)
    with call(1) show ?thesis by (intro moved) simp
  next
    case (after u info' r err cols rows res s' f')
    with assms(5) have "u \<noteq> t" by (auto simp: parked_def)
    with after(1) show ?thesis by (intro moved) simp
  next
    case (die u info' r)
    with assms(5) have "u \<noteq> t" by (auto simp: parked_def)
    with die(1) show ?thesis by (intro moved) simp
  qed (intro moved, simp)+
qed

lemma parked_run:
  assumes "cache_run H c ops y z" "cch_singleflight c" "sys_inv y" "abandoned y k" "parked y t info k"
  shows "parked z t info k"
proof -
  obtain d ttl where d: "sy_pc y d = TDead (Miss k ttl)" using assms(4) by (auto simp: abandoned_def)
  from assms(1) have "sys_inv z \<and> sy_pc z d = TDead (Miss k ttl) \<and> parked z t info k"
  proof (induction rule: rtranclp_induct)
    case (step u z)
    with abandoned_step [OF step(2) assms(2), of d k ttl] parked_step [OF step(2) assms(2), of d k ttl t info]
      cache_step_inv [OF step(2) assms(2)] show ?case by blast
  qed (use assms(3,5) d in simp)
  then show ?thesis by blast
qed

text \<open>C10: Who can be stuck. Take any reachable state with single flight on and a goroutine inside \<open>Before\<close>.
  If no goroutine that led the key of its call died between its \<open>Before\<close> and its \<open>After\<close>, it can run to the
  end of its \<open>Before\<close>, wherever the others are, or some \<open>Before\<close> panics on the way; and when the store and the
  decoder never panic, it can run to the end. If the leader of its key did die, then a goroutine that waits
  for the open call of that key, or is about to ask for the key, never returns, whatever happens.\<close>

theorem cache_no_lost_wakeup:
  fixes y :: "('s, 'r) cache_sys"
  assumes "cache_reach H c ops s0 now0 y" "cch_singleflight c" "sy_pc y t = TBefore info p"
  shows "(\<not> abandoned y (call_key H info) \<longrightarrow>
           (\<exists>z. cache_run H c ops y z
              \<and> ((\<exists>r. sy_pc z t = TBefore info (BDone r)) \<or> (\<exists>t'. panicked (sy_pc z t')))))
    \<and> (\<not> abandoned y (call_key H info) \<and> total_hit c ops \<longrightarrow>
         (\<exists>z r. cache_run H c ops y z \<and> sy_pc z t = TBefore info (BDone r)))
    \<and> (abandoned y (call_key H info) \<and> (\<exists>k ttl ch. p = BAcquire k ttl \<or> p = BWait k ttl ch \<and> ch \<notin> fl_closed (sy_flight y)) \<longrightarrow>
         (\<forall>z r. cache_run H c ops y z \<longrightarrow> sy_pc z t \<noteq> TBefore info (BDone r) \<and> sy_pc z t \<noteq> TDone r))"
proof -
  let ?k = "call_key H info"
  note key = cache_reach_key [OF assms(1,3)]
  have inv: "sys_inv y" by (rule cache_reach_inv [OF assms(1,2)])
  have ret: "returns H c ops y t info" if "\<not> abandoned y ?k"
  proof (cases "quiet y")
    case True
    with inv that have calm: "calm ?k y" by (simp add: calm_def)
    from calmD(3,4) [OF calm, of t] assms(3) key show ?thesis
      by (cases p) (auto intro: returns_now returns_wait [OF calm assms(2)] returns_recheck [OF calm assms(2)]
          returns_acquire [OF calm assms(2)] returns_lead [OF calm assms(2)])
  qed (intro returns_now disjI2)
  have ends: "\<exists>z. cache_run H c ops y z
      \<and> ((\<exists>r. sy_pc z t = TBefore info (BDone r)) \<or> (\<exists>t'. panicked (sy_pc z t')))" if "\<not> abandoned y ?k"
    using ret [OF that] by (auto simp: returns_def quiet_def)
  moreover have "\<exists>z r. cache_run H c ops y z \<and> sy_pc z t = TBefore info (BDone r)"
    if "\<not> abandoned y ?k" "total_hit c ops"
    using ends [OF that(1)] reach_quiet [OF run_reach [OF _ assms(1)] assms(2) that(2)] unfolding quiet_def by blast
  moreover have "sy_pc z t \<noteq> TBefore info (BDone r) \<and> sy_pc z t \<noteq> TDone r"
    if "abandoned y ?k" "p = BAcquire k ttl \<or> p = BWait k ttl ch \<and> ch \<notin> fl_closed (sy_flight y)" "cache_run H c ops y z"
    for k ttl ch z r
  proof -
    have "parked y t info ?k" using that(2) key assms(3) unfolding parked_def by auto
    from parked_run [OF that(3) assms(2) inv that(1) this] show ?thesis by (auto simp: parked_def)
  qed
  ultimately show ?thesis by blast
qed

text \<open>Two goroutines with the same cached \<open>Get\<close>: the first leads, the second waits. The codec of
  this example never panics.\<close>

definition flight_hash :: hash_env where
  "flight_hash = \<lparr>he_sha256 = (\<lambda>s. s), he_marshal = (\<lambda>_. Ok ''[]'')\<rparr>"

definition flight_codec :: codec where
  "flight_codec = \<lparr>cd_Encode = (\<lambda>_. Ok []), cd_Decode = (\<lambda>_. Ok \<lparr>rd_columns = [], rd_rows = []\<rparr>)\<rparr>"

definition flight_cc :: cache_config where
  "flight_cc = New_cache 1000 [WithCodec flight_codec]"

definition flight_info :: "unit exec_info" where
  "flight_info =
     \<lparr>ei_op = OpGet, ei_query = ''q'', ei_arg = Invalid, ei_boundSQL = ''q'', ei_bindSQL = ''q'', ei_bindArgs = [],
      ei_boundArgs = [], ei_options = [WithCache], ei_inTx = False, ei_start = 0, ei_duration = 0,
      ei_rows = None, ei_result = None, ei_err = None\<rparr>"

definition flight_key :: string where
  "flight_key = computeKey flight_hash [] ''q'' []"

definition flight_sys :: "(mem_store, unit) cache_sys" where
  "flight_sys =
     (new_sys (NewMemoryStore 0 0) 0)
       \<lparr>sy_flight := \<lparr>fl_calls = [flight_key \<mapsto> 0], fl_closed = {}, fl_next = 1\<rparr>,
        sy_pc := (\<lambda>_. TIdle)(0 := TBefore flight_info (BLead flight_key 0), 1 := TBefore flight_info (BWait flight_key 0 0))\<rparr>"

lemma demo_start: "before_start flight_hash flight_cc flight_info = BAcquire flight_key 0"
  by (simp add: before_start_def flight_info_def flight_cc_def New_cache_def flight_key_def cacheOpts_def
      apply_cache_call_def WithCache_def Let_def)

lemma demo_reach: "cache_reach flight_hash flight_cc (mem_ops lru_keys) (NewMemoryStore 0 0) 0 flight_sys"
proof -
  let ?R = "cache_reach flight_hash flight_cc (mem_ops lru_keys) (NewMemoryStore 0 0) 0"
  let ?f = "\<lparr>fl_calls = [flight_key \<mapsto> 0], fl_closed = {}, fl_next = 1\<rparr> :: flight"
  have e: "ei_err flight_info = None" by (simp add: flight_info_def)
  define y0 where "y0 = (new_sys (NewMemoryStore 0 0) 0 :: (mem_store, unit) cache_sys)"
  have y0: "?R y0" "sy_pc y0 = (\<lambda>_. TIdle)" "sy_flight y0 = new_flight"
    unfolding y0_def by (rule cache_reach.start) (simp_all add: new_sys_def)
  define y1 where "y1 = y0\<lparr>sy_pc := (sy_pc y0)(0 := TBefore flight_info (BAcquire flight_key 0))\<rparr>"
  have y1: "?R y1" "sy_pc y1 1 = TIdle"
    using reach_call [OF y0(1) _ e, of 0] demo_start by (simp_all add: y0(2) y1_def)
  define y2 where "y2 = y1\<lparr>sy_pc := (sy_pc y1)(1 := TBefore flight_info (BAcquire flight_key 0))\<rparr>"
  have y2: "?R y2" "sy_pc y2 0 = TBefore flight_info (BAcquire flight_key 0)"
    using reach_call [OF y1(1,2) e] demo_start by (simp_all add: y2_def y1_def)
  define y3 where "y3 = y2\<lparr>sy_pc := (sy_pc y2)(0 := TBefore flight_info (BLead flight_key 0)), sy_store := sy_store y2, sy_flight := ?f\<rparr>"
  have f2: "sy_flight y2 = new_flight" by (simp add: y2_def y1_def y0(3))
  have y3: "?R y3" unfolding y3_def
    by (rule reach_before [OF y2]) (simp add: f2 acquire_def new_flight_def)
  have w3: "sy_pc y3 1 = TBefore flight_info (BAcquire flight_key 0)" by (simp add: y3_def y2_def)
  define y4 where "y4 = y3\<lparr>sy_pc := (sy_pc y3)(1 := TBefore flight_info (BWait flight_key 0 0)), sy_store := sy_store y3, sy_flight := ?f\<rparr>"
  have "?R y4" unfolding y4_def
    by (rule reach_before [OF y3 w3]) (simp add: y3_def acquire_def)
  moreover have "y4 = flight_sys"
    unfolding y4_def y3_def y2_def y1_def y0_def flight_sys_def by (simp add: new_sys_def fun_upd_twist)
  ultimately show ?thesis by simp
qed

lemma demo_total: "total_hit flight_cc (mem_ops lru_keys)"
  unfolding total_hit_def
proof (intro allI)
  fix now k s
  have "fst (ms_Get now j s) \<in> range Ok" for j by (auto simp: ms_Get_def Let_def split: option.splits)
  then obtain v s' where "ms_Get now (storeKey flight_cc k) s = (Ok v, s')" by (metis prod.collapse rangeE)
  then show "\<exists>o'. fst (tryHit flight_cc (mem_ops lru_keys) now k s) = Ok o'"
    by (cases v) (simp_all add: tryHit_def mem_ops_def flight_cc_def New_cache_def flight_codec_def)
qed

lemma demo_sf: "cch_singleflight flight_cc"
  by (simp add: flight_cc_def New_cache_def)

theorem cache_single_flight_witness:
  "fl_calls (sy_flight flight_sys) flight_key = Some 0
   \<and> {t. lead_key (sy_pc flight_sys t) = Some flight_key} = {0}
   \<and> (\<exists>f'. fl_done flight_key (sy_flight flight_sys) = Ok f')"
proof -
  note sf = cache_single_flight [OF demo_reach demo_sf]
  have "lead_key (sy_pc flight_sys 0) = Some flight_key" by (simp add: flight_sys_def)
  with conjunct1 [OF sf] have "{t. lead_key (sy_pc flight_sys t) = Some flight_key} = {0}" by blast
  moreover have "\<exists>f'. fl_done flight_key (sy_flight flight_sys) = Ok f'" using conjunct2 [OF conjunct2 [OF sf]] by blast
  moreover have "fl_calls (sy_flight flight_sys) flight_key = Some 0" by (simp add: flight_sys_def)
  ultimately show ?thesis by blast
qed

text \<open>The same two goroutines after the leader missed and its scan panicked.\<close>

definition dead_sys :: "(mem_store, unit) cache_sys" where
  "dead_sys = flight_sys\<lparr>sy_pc := (sy_pc flight_sys)(0 := TDead (Miss flight_key 0))\<rparr>"

lemma demo_dead: "cache_reach flight_hash flight_cc (mem_ops lru_keys) (NewMemoryStore 0 0) 0 dead_sys"
proof -
  have p: "sy_pc flight_sys 0 = TBefore flight_info (BLead flight_key 0)" by (simp add: flight_sys_def)
  have "before_step flight_cc (mem_ops lru_keys) (sy_now flight_sys) (BLead flight_key 0) (sy_store flight_sys) (sy_flight flight_sys)
      = Some (BDone (Miss flight_key 0), sy_store flight_sys, sy_flight flight_sys)"
    by (simp add: flight_sys_def new_sys_def tryHit_def mem_ops_def ms_Get_def NewMemoryStore_def Let_def)
  from reach_before [OF demo_reach p this] have
    "cache_reach flight_hash flight_cc (mem_ops lru_keys) (NewMemoryStore 0 0) 0
       (flight_sys\<lparr>sy_pc := (sy_pc flight_sys)(0 := TBefore flight_info (BDone (Miss flight_key 0)))\<rparr>)" by simp
  from cache_reach.step [OF this cache_step.die [of _ 0 flight_info "Miss flight_key 0"]] show ?thesis
    by (simp add: dead_sys_def)
qed

lemma demo_key: "call_key flight_hash flight_info = flight_key"
  by (simp add: call_key_def flight_key_def flight_info_def cacheOpts_def apply_cache_call_def WithCache_def)

text \<open>While the first goroutine is alive the second can return; after its death it never does.\<close>

theorem cache_no_lost_wakeup_witness:
  "(\<exists>z r. cache_run flight_hash flight_cc (mem_ops lru_keys) flight_sys z \<and> sy_pc z 1 = TBefore flight_info (BDone r))
   \<and> {z. cache_run flight_hash flight_cc (mem_ops lru_keys) dead_sys z \<and> (\<exists>r. sy_pc z 1 = TBefore flight_info (BDone r))} = {}"
proof -
  let ?run = "cache_run flight_hash flight_cc (mem_ops lru_keys)"
  have p: "sy_pc flight_sys 1 = TBefore flight_info (BWait flight_key 0 0)"
    "sy_pc dead_sys 1 = TBefore flight_info (BWait flight_key 0 0)" by (simp_all add: dead_sys_def flight_sys_def)
  have "\<not> abandoned flight_sys (call_key flight_hash flight_info)" by (simp add: abandoned_def flight_sys_def new_sys_def)
  with cache_no_lost_wakeup [OF demo_reach demo_sf p(1)] demo_total
  have "\<exists>z r. ?run flight_sys z \<and> sy_pc z 1 = TBefore flight_info (BDone r)" by blast
  moreover have "abandoned dead_sys (call_key flight_hash flight_info)"
    unfolding abandoned_def demo_key by (rule exI [of _ 0]) (simp add: dead_sys_def)
  moreover have "0 \<notin> fl_closed (sy_flight dead_sys)" by (simp add: dead_sys_def flight_sys_def)
  ultimately show ?thesis using cache_no_lost_wakeup [OF demo_dead demo_sf p(2)] by blast
qed

end
