(* ===== verification/CacheStore.thy ===== *)
theory CacheStore
  imports Coherence
begin

text \<open>
  The cache plugin against the strong contract of its store and the contract of its codec. What a hit
  returns, what a commit makes visible and what an invalidation removes is proved once in the locale
  \<open>cache_backend\<close>, which inherits coherence from \<open>safe_backend\<close>, and interpreted for the memory store
  with the binary codec.
\<close>

section \<open>The contract\<close>

locale cache_backend = kv_store ops inv lookup + row_codec cod fits norm
  for ops :: "'s store" and inv :: "'s \<Rightarrow> bool" and lookup :: "int \<Rightarrow> string \<Rightarrow> 's \<Rightarrow> string option"
    and cod :: codec and fits :: "row_data \<Rightarrow> string \<Rightarrow> bool" and norm :: "row_data \<Rightarrow> row_data" +
  fixes c :: cache_config
  assumes codec: "cch_codec c = cod"

sublocale cache_backend \<subseteq> safe: safe_backend ops inv lookup cod fits norm c
  by unfold_locales (rule codec)

context cache_backend
begin

text \<open>\<open>tryHit\<close> through the contract.\<close>

lemma tryHit_result:
  assumes "inv s"
  shows "fst (tryHit c ops now k s) =
     (case lookup now (storeKey c k) s of
        None \<Rightarrow> Ok None
      | Some b \<Rightarrow> (case cd_Decode cod b of Ok rd \<Rightarrow> Ok (Some rd) | Err e \<Rightarrow> Ok None | Panic m \<Rightarrow> Panic m))"
proof -
  obtain s' where "st_Get ops now (storeKey c k) s = (Ok (lookup now (storeKey c k) s), s')"
    using get_result [OF assms, of now "storeKey c k"] by (metis prod.collapse)
  then show ?thesis
    by (cases "lookup now (storeKey c k) s") (auto simp: tryHit_def codec split: outcome.splits)
qed

text \<open>A commit is visible at once; after an error nothing is stored; other keys only ever disappear.\<close>

lemma commit_hit:
  assumes "inv s" "ei_op info = OpGet \<or> ei_op info = OpSelect" "\<not> ei_inTx info" "ei_err info = None"
    "cd_Encode cod (recorded r) = Ok b" "fits (recorded r) b"
    "After c ops now info (Some r) s f = (res, s', f')"
  shows "inv s' \<and> fst (tryHit c ops now (rec_key r) s') = Ok (Some (norm (recorded r)))"
proof -
  have "s' = snd (st_Set ops now (storeKey c (rec_key r)) b (rec_ttl r) s)"
    using After_query [OF assms(2,3,7)] assms(4,5) by (simp add: commits_def codec)
  with assms(1) roundtrip [OF assms(5,6)] show ?thesis
    by (simp add: tryHit_result set_inv set_same)
qed

lemma error_not_stored:
  "ei_op info = OpGet \<or> ei_op info = OpSelect \<Longrightarrow> \<not> ei_inTx info \<Longrightarrow> ei_err info \<noteq> None \<Longrightarrow>
   After c ops now info (Some r) s f = (res, s', f') \<Longrightarrow> s' = s"
  by (drule (2) After_query) (simp add: commits_def)

lemma commit_other:
  assumes "inv s" "ei_op info = OpGet \<or> ei_op info = OpSelect" "\<not> ei_inTx info" "k \<noteq> rec_key r"
    "After c ops now info (Some r) s f = (res, s', f')"
  shows "fst (tryHit c ops now' k s') \<in> {fst (tryHit c ops now' k s), Ok None}"
proof -
  have "storeKey c k \<noteq> storeKey c (rec_key r)" using assms(4) by (simp add: storeKey_def)
  note other = set_other [OF assms(1) this, of now' now]
  have "s' = s \<or> (\<exists>data. s' = snd (st_Set ops now (storeKey c (rec_key r)) data (rec_ttl r) s))"
    using After_query [OF assms(2,3,5)] by (auto split: outcome.splits option.splits)
  then have "inv s' \<and> lookup now' (storeKey c k) s' \<in> {lookup now' (storeKey c k) s, None}"
  proof
    assume "\<exists>data. s' = snd (st_Set ops now (storeKey c (rec_key r)) data (rec_ttl r) s)"
    then obtain data where d: "s' = snd (st_Set ops now (storeKey c (rec_key r)) data (rec_ttl r) s)" by blast
    show ?thesis unfolding d using other set_inv [OF assms(1)] by blast
  qed (use assms(1) in simp)
  then show ?thesis using assms(1) by (auto simp: tryHit_result)
qed

text \<open>Deletion by prefix and by key, seen through the cache.\<close>

lemma tryHit_prefix:
  "inv s \<Longrightarrow> fst (tryHit c ops now k (snd (st_DeletePrefix ops p s)))
     = (if has_prefix (storeKey c k) p then Ok None else fst (tryHit c ops now k s))"
  by (simp add: tryHit_result prefix_inv prefix_lookup)

lemma tryHit_flush: "inv s \<Longrightarrow> fst (tryHit c ops now k (snd (st_Flush ops s))) = Ok None"
  by (simp add: tryHit_result flush_inv flush_lookup)

lemma tryHit_delete:
  "inv s \<Longrightarrow> fst (tryHit c ops now k (snd (st_Delete ops (storeKey c k') s)))
     = (if k = k' then Ok None else fst (tryHit c ops now k s))"
  by (simp add: tryHit_result delete_inv delete_lookup storeKey_def)

end

interpretation cb: cache_backend "mem_ops lru_keys" ms_wf ms_lookup "binaryCodec mem" "codec_fits mem" norm_data
  "c\<lparr>cch_codec := binaryCodec mem\<rparr>"
  by unfold_locales simp

section \<open>Keys\<close>

lemma hex_digit_not_NUL: "n < 16 \<Longrightarrow> hex_digit n \<noteq> NUL"
proof -
  assume "n < 16"
  then have "hex_digit n \<in> set (map hex_digit [0..<16])" by simp
  moreover have "NUL \<notin> set (map hex_digit [0..<16])" by code_simp
  ultimately show ?thesis by metis
qed

lemma of_char_less: "of_char (x :: char) < (256 :: nat)"
  by simp

lemma hex_encode_no_NUL: "NUL \<notin> set (hex_encode s)"
proof -
  have "NUL \<noteq> hex_digit (of_char x div 16)" "NUL \<noteq> hex_digit (of_char x mod 16)" for x :: char
    using of_char_less [of x] by (intro not_sym [OF hex_digit_not_NUL]; simp add: less_mult_imp_div_less)+
  then show ?thesis by (auto simp: hex_encode_def)
qed

text \<open>A list splits at its last separator in one way, and at its first.\<close>

lemma split_last:
  assumes "xs @ [x] @ ys = xs' @ [x] @ ys'" "x \<notin> set ys" "x \<notin> set ys'"
  shows "xs = xs' \<and> ys = ys'"
  using assms(1) assms(2,3) by (induction xs arbitrary: xs') (auto simp: Cons_eq_append_conv)

lemma prefix_first:
  assumes "x \<notin> set xs'" "x \<notin> set ys"
  shows "has_prefix (xs' @ [x] @ ys) (xs @ [x]) \<longleftrightarrow> xs' = xs"
proof
  assume "has_prefix (xs' @ [x] @ ys) (xs @ [x])"
  then obtain r where r: "xs' @ [x] @ ys = xs @ [x] @ r" by (auto simp: has_prefix_iff)
  with assms have "x \<notin> set r" "x \<notin> set xs"
  proof -
    have "count_list (xs' @ [x] @ ys) x = 1" using assms by (simp add: count_list_0_iff)
    with r have "count_list (xs @ [x] @ r) x = 1" by simp
    then have "count_list xs x = 0" "count_list r x = 0" by simp_all
    then show "x \<notin> set r" "x \<notin> set xs" by (simp_all add: count_list_0_iff)
  qed
  with split_last [OF r assms(2)] show "xs' = xs" by simp
qed (simp add: has_prefix_iff)

lemma key_prefix:
  assumes "NUL \<notin> set ns'"
  shows "has_prefix (storeKey c (computeKey H ns' q args)) (cch_keyPrefix c @ ns @ [NUL]) \<longleftrightarrow> ns' = ns"
proof -
  have "has_prefix (p @ s) (p @ t) \<longleftrightarrow> has_prefix s t" for p s t :: string by (simp add: has_prefix_iff)
  with prefix_first [OF assms hex_encode_no_NUL] show ?thesis by (simp add: storeKey_def computeKey_def)
qed

lemma hex_digit_inj: "m < 16 \<Longrightarrow> n < 16 \<Longrightarrow> hex_digit m = hex_digit n \<Longrightarrow> m = n"
proof -
  assume "m < 16" "n < 16" "hex_digit m = hex_digit n"
  moreover have "distinct (map hex_digit [0..<16])" by code_simp
  ultimately show "m = n" by (simp add: distinct_map inj_on_def)
qed

lemma hex_encode_inj: "hex_encode s = hex_encode t \<Longrightarrow> s = t"
proof (induction s arbitrary: t)
  case Nil
  then show ?case by (cases t) (simp_all add: hex_encode_def)
next
  case (Cons x s)
  then obtain y t' where t: "t = y # t'" by (cases t) (auto simp: hex_encode_def)
  with Cons.prems have "hex_digit (of_char x div 16) = hex_digit (of_char y div 16)"
    "hex_digit (of_char x mod 16) = hex_digit (of_char y mod 16)" "hex_encode s = hex_encode t'"
    by (simp_all add: hex_encode_def)
  moreover have "of_char z div 16 < (16 :: nat)" "of_char z mod 16 < (16 :: nat)" for z :: char
    using of_char_less [of z] by (simp_all add: less_mult_imp_div_less)
  ultimately have "of_char x div 16 = (of_char y div 16 :: nat)" "of_char x mod 16 = (of_char y mod 16 :: nat)"
    using hex_digit_inj by blast+
  then have "(of_char x :: nat) = of_char y" by (metis div_mult_mod_eq)
  with t Cons.IH [OF \<open>hex_encode s = hex_encode t'\<close>] show ?case by simp
qed

lemma computeKey_inj:
  assumes "computeKey H ns q args = computeKey H ns' q' args'"
    "NUL \<notin> set (key_payload H args)" "NUL \<notin> set (key_payload H args')"
    "he_sha256 H (ns @ [NUL] @ q @ [NUL] @ key_payload H args) = he_sha256 H (ns' @ [NUL] @ q' @ [NUL] @ key_payload H args')
     \<Longrightarrow> ns @ [NUL] @ q @ [NUL] @ key_payload H args = ns' @ [NUL] @ q' @ [NUL] @ key_payload H args'"
  shows "ns = ns' \<and> q = q' \<and> key_payload H args = key_payload H args'"
proof -
  from split_last [OF assms(1) [unfolded computeKey_def] hex_encode_no_NUL hex_encode_no_NUL]
  have n: "ns = ns'" and h: "he_sha256 H (ns @ [NUL] @ q @ [NUL] @ key_payload H args)
      = he_sha256 H (ns' @ [NUL] @ q' @ [NUL] @ key_payload H args')"
    using hex_encode_inj by blast+
  from assms(4) [OF h] n have "q @ [NUL] @ key_payload H args = q' @ [NUL] @ key_payload H args'" by simp
  from split_last [OF this assms(2,3)] n show ?thesis by simp
qed

section \<open>Properties\<close>

text \<open>The plugin on a new memory store, with the binary codec.\<close>

abbreviation bin_cfg :: "nat \<Rightarrow> cache_config \<Rightarrow> cache_config" where
  "bin_cfg mem c \<equiv> c\<lparr>cch_codec := binaryCodec mem\<rparr>"

lemma ms_lookup_new: "ms_lookup n k (NewMemoryStore capacity ttl) = None"
  by (simp add: ms_lookup_def spec_get_def ms_abs_def NewMemoryStore_def)

text \<open>C5: Coherence. Whatever the goroutines did in whatever order, invalidations, evictions and expiries
  included, the data of a hit were committed earlier under the very key of the call, by a call whose scan
  was clean; and if those data fit the codec the hit delivers them, up to the codec's normal form.\<close>

theorem cache_coherence:
  fixes y :: "(mem_store, 'r) cache_sys"
  assumes "cache_reach H (bin_cfg mem c) (mem_ops lru_keys) (NewMemoryStore capacity ttl) now0 y"
    "sy_pc y t = TBefore info (BDone (Hit k rd))"
  shows "k = call_key H info
    \<and> (\<exists>d b. (k, d) \<in> set (sy_hist y) \<and> Encode d = Ok b \<and> Decode mem b = Ok rd
          \<and> (data_ok mem d \<and> length b < 2 ^ 63 \<longrightarrow> rd = norm_data d))"
  using cb.safe.hit_coherent [OF assms(1) ms_wf_new ms_lookup_new assms(2)]
  unfolding binaryCodec_def codec_fits_def codec.simps by blast

text \<open>C32: What \<open>After\<close> commits. A query whose scan was clean and whose rows fit the codec is a hit for its
  key at once; after an error the store is untouched; and a commit never gives another key a new value.\<close>

theorem cache_commit:
  assumes "ms_wf s" "ei_op info = OpGet \<or> ei_op info = OpSelect" "\<not> ei_inTx info"
    "After (bin_cfg mem c) (mem_ops lru_keys) now info (Some r) s f = (res, s', f')"
  shows "(ei_err info = None \<longrightarrow> Encode (recorded r) = Ok b \<longrightarrow> data_ok mem (recorded r) \<longrightarrow> length b < 2 ^ 63 \<longrightarrow>
            fst (tryHit (bin_cfg mem c) (mem_ops lru_keys) now (rec_key r) s') = Ok (Some (norm_data (recorded r))))
    \<and> (ei_err info \<noteq> None \<longrightarrow> s' = s)
    \<and> (k \<noteq> rec_key r \<longrightarrow>
         fst (tryHit (bin_cfg mem c) (mem_ops lru_keys) now' k s')
           \<in> {fst (tryHit (bin_cfg mem c) (mem_ops lru_keys) now' k s), Ok None})"
  using cb.commit_hit [OF assms(1-3) _ _ _ assms(4)] cb.error_not_stored [OF assms(2,3) _ assms(4)]
    cb.commit_other [OF assms(1-3) _ assms(4)]
  by (simp add: binaryCodec_def codec_fits_def)

text \<open>C20: Invalidation is exact, over \<open>MemoryStore\<close>. Of the keys whose namespace holds no NUL byte, \<open>InvalidateNamespace\<close>
  removes those of its namespace and leaves every other lookup as it was; so does an \<open>Exec\<close> with
  \<open>WithInvalidateNamespace\<close>, whether the statement failed or not and inside a transaction too, and with
  \<open>WithInvalidateOnWrite\<close> it empties the cache; \<open>Invalidate\<close> removes one key; \<open>Flush\<close> removes all.\<close>

theorem invalidation_exact:
  assumes "ms_wf s" "NUL \<notin> set ns'"
  shows "let hit = (\<lambda>s. fst (tryHit (bin_cfg mem c) (mem_ops lru_keys) now' (computeKey H ns' q args) s)) in
    hit (snd (InvalidateNamespace (bin_cfg mem c) (mem_ops lru_keys) ns s)) = (if ns' = ns then Ok None else hit s)
    \<and> hit (snd (Invalidate (bin_cfg mem c) (mem_ops lru_keys) key s))
        = (if computeKey H ns' q args = key then Ok None else hit s)
    \<and> hit (snd (Flush (mem_ops lru_keys) s)) = Ok None
    \<and> (ei_op info = OpExec \<longrightarrow>
         hit (fst (snd (After (bin_cfg mem c) (mem_ops lru_keys) now info rec s f)))
           = (if cch_invalidateOnWrite c \<or> (ns' \<noteq> [] \<and> co_invalidate (cacheOpts (ei_options info)) = ns')
              then Ok None else hit s))"
proof -
  have pre: "has_prefix (storeKey (bin_cfg mem c) (computeKey H ns' q args)) (cch_keyPrefix c @ x @ [NUL]) \<longleftrightarrow> ns' = x" for x
    using key_prefix [OF assms(2), of "bin_cfg mem c" H q args x] by simp
  note hits = cb.tryHit_prefix [OF assms(1)] cb.tryHit_delete [OF assms(1)] cb.tryHit_flush [OF assms(1)]
  show ?thesis
    unfolding Let_def InvalidateNamespace_def Invalidate_def Flush_def
    by (cases "cch_invalidateOnWrite c"; cases "co_invalidate (cacheOpts (ei_options info)) = []")
      (simp_all add: After_def Let_def pre hits, blast+)
qed

text \<open>C33: Cache keys separate calls. If the hash has no collision on the two payloads and the encoded
  arguments hold no NUL byte (JSON has none), two calls share a key exactly when namespace, bound
  statement and encoded arguments are the same; nothing is assumed of the namespaces and statements.\<close>

theorem computeKey_separates:
  assumes "NUL \<notin> set (key_payload H args)" "NUL \<notin> set (key_payload H args')"
    "he_sha256 H (ns @ [NUL] @ q @ [NUL] @ key_payload H args) = he_sha256 H (ns' @ [NUL] @ q' @ [NUL] @ key_payload H args')
     \<longrightarrow> ns @ [NUL] @ q @ [NUL] @ key_payload H args = ns' @ [NUL] @ q' @ [NUL] @ key_payload H args'"
  shows "computeKey H ns q args = computeKey H ns' q' args'
    \<longleftrightarrow> ns = ns' \<and> q = q' \<and> key_payload H args = key_payload H args'"
  using computeKey_inj [OF _ assms(1,2) mp [OF assms(3)]] by (auto simp: computeKey_def)

section \<open>Examples\<close>

definition store_hash :: hash_env where
  "store_hash = \<lparr>he_sha256 = (\<lambda>s. s), he_marshal = (\<lambda>_. Ok ''[]'')\<rparr>"

theorem computeKey_separates_witness:
  "computeKey store_hash ''a'' ''q'' [] \<noteq> computeKey store_hash ''a'' ''r'' []"
  using computeKey_separates [of store_hash "[]" "[]" "''a''" "''q''" "''a''" "''r''"]
  by (simp add: store_hash_def key_payload_def NUL_def)

definition store_cfg :: cache_config where
  "store_cfg = New_cache 1000 []"

definition store_info :: "op \<Rightarrow> call_option list \<Rightarrow> unit exec_info" where
  "store_info oper opts =
     \<lparr>ei_op = oper, ei_query = ''q'', ei_arg = Invalid, ei_boundSQL = ''q'', ei_bindSQL = ''q'', ei_bindArgs = [],
      ei_boundArgs = [], ei_options = opts, ei_inTx = False, ei_start = 0, ei_duration = 0,
      ei_rows = None, ei_result = None, ei_err = None\<rparr>"

definition store_key :: string where
  "store_key = computeKey store_hash ''b'' ''q'' []"

definition store_rec :: recorder where
  "store_rec = \<lparr>rec_key = store_key, rec_ttl = 0, rec_cols = rd_columns demo_data, rec_rows = rd_rows demo_data\<rparr>"

lemma store_rec_data: "recorded store_rec = demo_data"
  by (simp add: recorded_def store_rec_def demo_data_def)

lemma demo_fits: "data_ok 1000 demo_data" "length demo_bytes < 2 ^ 63"
  by (simp_all add: data_ok_def demo_data_def cell_ok_def int64_def demo_bytes_def codec_header_def)

theorem cache_commit_witness:
  "\<exists>res s' f'. After (bin_cfg 1000 store_cfg) (mem_ops lru_keys) 5 (store_info OpGet []) (Some store_rec)
        (NewMemoryStore 0 0) new_flight = (res, s', f')
      \<and> fst (tryHit (bin_cfg 1000 store_cfg) (mem_ops lru_keys) 5 store_key s') = Ok (Some (norm_data demo_data))"
proof -
  obtain res s' f' where a: "After (bin_cfg 1000 store_cfg) (mem_ops lru_keys) 5 (store_info OpGet []) (Some store_rec)
      (NewMemoryStore 0 0) new_flight = (res, s', f')" by (metis prod_cases3)
  have i: "ei_op (store_info OpGet []) = OpGet \<or> ei_op (store_info OpGet []) = OpSelect"
    "\<not> ei_inTx (store_info OpGet [])" "ei_err (store_info OpGet []) = None" by (simp_all add: store_info_def)
  from cache_commit [OF ms_wf_new i(1,2) a, of demo_bytes] i(3) demo_encode demo_fits a show ?thesis
    by (simp add: store_rec_data) (simp add: store_rec_def)
qed

theorem invalidation_exact_witness:
  "let s = snd (ms_Set 5 store_key demo_bytes 0 (NewMemoryStore 0 0));
       hit = (\<lambda>s. fst (tryHit (bin_cfg 1000 store_cfg) (mem_ops lru_keys) 6 store_key s)) in
     hit s = Ok (Some demo_data)
     \<and> hit (snd (InvalidateNamespace (bin_cfg 1000 store_cfg) (mem_ops lru_keys) ''a'' s)) = Ok (Some demo_data)
     \<and> hit (fst (snd (After (bin_cfg 1000 store_cfg) (mem_ops lru_keys) 6
                        ((store_info OpExec [WithInvalidateNamespace ''b''])\<lparr>ei_err := Some ErrNoRows\<rparr>) None s new_flight)))
         = Ok None"
proof -
  let ?s = "snd (ms_Set 5 store_key demo_bytes 0 (NewMemoryStore 0 0))"
  let ?info = "(store_info OpExec [WithInvalidateNamespace ''b''])\<lparr>ei_err := Some ErrNoRows\<rparr>"
  have wf: "ms_wf ?s" by (rule ms_Set_wf [OF ms_wf_new])
  have ns: "NUL \<notin> set ''b''" by (simp add: NUL_def)
  have h: "fst (tryHit (bin_cfg 1000 store_cfg) (mem_ops lru_keys) 6 store_key ?s) = Ok (Some demo_data)" by code_simp
  have o': "ei_op ?info = OpExec" "co_invalidate (cacheOpts (ei_options ?info)) = ''b''"
    by (simp_all add: store_info_def cacheOpts_def apply_cache_call_def WithInvalidateNamespace_def)
  from invalidation_exact [OF wf ns, of 1000 store_cfg 6 store_hash "''q''" "[]" "''a''" "[]" ?info 6 None new_flight] h o'
  show ?thesis unfolding Let_def store_key_def [symmetric] by simp
qed

text \<open>A run: one goroutine misses, runs its query and commits \<open>demo_data\<close>; another one then hits.\<close>

definition run_info :: "unit exec_info" where
  "run_info = store_info OpGet [WithNamespace ''b'']"

lemma run_start: "before_start store_hash (bin_cfg 1000 store_cfg) run_info = BAcquire store_key 0"
  by (simp add: before_start_def run_info_def store_info_def store_cfg_def New_cache_def store_key_def cacheOpts_def
      apply_cache_call_def WithNamespace_def Let_def)

lemma demo_run:
  "\<exists>y. cache_reach store_hash (bin_cfg 1000 store_cfg) (mem_ops lru_keys) (NewMemoryStore 0 0) 0 y
     \<and> sy_pc y 1 = TBefore run_info (BDone (Hit store_key (norm_data demo_data)))"
proof -
  let ?c = "bin_cfg 1000 store_cfg" and ?s0 = "NewMemoryStore 0 0"
  have e: "ei_err run_info = None" "\<not> ei_inTx run_info" "ei_op run_info = OpGet"
    by (simp_all add: run_info_def store_info_def)
  have sf: "cch_singleflight ?c" by (simp add: store_cfg_def New_cache_def)
  have "fst (tryHit ?c (mem_ops lru_keys) 0 store_key ?s0) = Ok None"
    by (simp add: cb.tryHit_result [OF ms_wf_new] ms_lookup_new)
  then obtain s1 where miss: "tryHit ?c (mem_ops lru_keys) 0 store_key ?s0 = (Ok None, s1)" by (metis prod.collapse)
  have wf: "ms_wf s1" using miss mem.get_inv [OF ms_wf_new] by (metis cb.safe.tryHit_state snd_conv)
  have com: "commits ?c run_info store_rec = Ok (Some demo_bytes)"
    using demo_encode e(1) by (simp add: commits_def store_rec_data binaryCodec_def)
  have "cd_Decode (binaryCodec 1000) demo_bytes = Ok (norm_data demo_data)"
    using bc.roundtrip [of 1000 demo_data demo_bytes] demo_encode demo_fits by (simp add: binaryCodec_def codec_fits_def)
  then have "fst (tryHit ?c (mem_ops lru_keys) 0 store_key
      (snd (st_Set (mem_ops lru_keys) 0 (storeKey ?c store_key) demo_bytes 0 s1))) = Ok (Some (norm_data demo_data))"
    by (simp add: cb.tryHit_result [OF mem.set_inv [OF wf]] mem.set_same [OF wf])
  then obtain s2 where hit: "tryHit ?c (mem_ops lru_keys) 0 store_key
      (snd (st_Set (mem_ops lru_keys) 0 (storeKey ?c store_key) demo_bytes 0 s1)) = (Ok (Some (norm_data demo_data)), s2)"
    by (metis prod.collapse)
  from reach_hit [OF sf run_start e(1) _ e(2) miss com [unfolded store_rec_def] hit] e(3) show ?thesis by blast
qed

theorem cache_coherence_witness:
  "\<exists>d b. Encode d = Ok b \<and> Decode 1000 b = Ok (norm_data demo_data) \<and> store_key = call_key store_hash run_info"
proof -
  obtain y where "cache_reach store_hash (bin_cfg 1000 store_cfg) (mem_ops lru_keys) (NewMemoryStore 0 0) 0 y"
    "sy_pc y 1 = TBefore run_info (BDone (Hit store_key (norm_data demo_data)))"
    using demo_run by blast
  from cache_coherence [OF this] show ?thesis by blast
qed

end
