(* ===== verification/Scan.thy ===== *)
theory Scan
  imports RowSource "HOL-Library.AList"
begin

text \<open>
  \<^verbatim>\<open>scan.go\<close>: filling Go values from a row source. A target is its type and present content; a scan
  returns its outcome, the new content, and the state it changed: the recorders and the type cache.
  The row source itself changes only in \<open>Next\<close>, which the two entry loops call.
\<close>

record scan_state =
  ss_heap :: rec_heap
  ss_tc :: type_cache

section \<open>Fields\<close>

text \<open>\<open>fieldValue\<close>. The unsafe offset of a field, where there is one, denotes the same location as its
  index path (the path then crosses no pointer), so both branches read the path; \<open>store_at\<close> writes the
  location back.\<close>

definition fieldValue :: "'e genv_scheme \<Rightarrow> rvalue \<Rightarrow> field_info \<Rightarrow> rvalue outcome" where
  "fieldValue E v f = fieldByIndex E v (fi_index f)"

fun store_at :: "gdata \<Rightarrow> nat list \<Rightarrow> gdata \<Rightarrow> gdata" where
  "store_at d [] x = x"
| "store_at (DPtr d) (i # p) x = DPtr (store_at d (i # p) x)"
| "store_at (DStruct ds) (i # p) x = DStruct (ds[i := store_at (ds ! i) p x])"
| "store_at d (i # p) x = d"

text \<open>\<open>fv.Addr()\<close> panics on the zero \<open>Value\<close> that a nil embedded pointer gives.\<close>

definition field_location :: "'e genv_scheme \<Rightarrow> gtype \<Rightarrow> gdata \<Rightarrow> field_info \<Rightarrow> gdata outcome" where
  "field_location E t d f =
     (case fieldValue E (RV t d) f of
        Ok (RV ft fd) \<Rightarrow> Ok fd
      | Ok Invalid \<Rightarrow> Panic ''reflect.Value.Addr of unaddressable value''
      | Err e \<Rightarrow> Err e
      | Panic m \<Rightarrow> Panic m)"

definition unmarshalJSONField ::
  "'e conv_env_scheme \<Rightarrow> converters \<Rightarrow> gtype \<Rightarrow> gdata \<Rightarrow> rvalue \<Rightarrow> 'p config \<Rightarrow> gdata \<times> unit outcome" where
  "unmarshalJSONField E cs t d v cfg =
     (if v = Invalid then convertAssign E cs (TPtr t) d Invalid (Some cfg)
      else
        (case text_of v of
           None \<Rightarrow> (d, Err (Wrap ''scan: json field expects []byte/string'' ErrUnsupportedType))
         | Some data \<Rightarrow>
             (case ce_json_unmarshal E t d data of
                (d', Err e) \<Rightarrow> (d', Err (Wrap ''scan: json unmarshal'' e))
              | (d', r) \<Rightarrow> (d', r))))"

definition assignFieldValue ::
  "'e conv_env_scheme \<Rightarrow> converters \<Rightarrow> field_info \<Rightarrow> gdata \<Rightarrow> rvalue \<Rightarrow> 'p config \<Rightarrow> gdata \<times> unit outcome" where
  "assignFieldValue E cs f d v cfg =
     (if fi_json f then unmarshalJSONField E cs (fi_typ f) d v cfg
      else convertAssign E cs (TPtr (fi_typ f)) d v (Some cfg))"

text \<open>Assign one raw value to the field of a struct.\<close>

definition assign_field ::
  "'e conv_env_scheme \<Rightarrow> converters \<Rightarrow> 'p config \<Rightarrow> gtype \<Rightarrow> gdata \<Rightarrow> field_info \<Rightarrow> rvalue \<Rightarrow> gdata \<times> unit outcome" where
  "assign_field E cs cfg t d f v =
     (case field_location E t d f of
        Ok fd \<Rightarrow> (case assignFieldValue E cs f fd v cfg of (fd', r) \<Rightarrow> (store_at d (fi_index f) fd', r))
      | Err e \<Rightarrow> (d, Err e)
      | Panic m \<Rightarrow> (d, Panic m))"

definition err_column :: goerr where
  "err_column = Wrap ''scan: column has no matching field'' ErrColumnNotFound"

section \<open>Rows\<close>

text \<open>\<open>scanRawRow\<close>: the current row as raw values.\<close>

definition scanRawRow :: "'e conv_env_scheme \<Rightarrow> converters \<Rightarrow> row_source \<Rightarrow> nat \<Rightarrow> rvalue list outcome" where
  "scanRawRow E cs rs n =
     (case rs_Scan E cs rs (replicate n (TAny, DNil)) of
        (ds, Ok u) \<Rightarrow> Ok (map unbox ds)
      | (ds, Err e) \<Rightarrow> Err e
      | (ds, Panic m) \<Rightarrow> Panic m)"

text \<open>The recording mode of \<open>scanStructRow\<close>: convert the raw values into the fields, column by column.\<close>

fun assign_columns ::
  "'e conv_env_scheme \<Rightarrow> converters \<Rightarrow> 'p config \<Rightarrow> bool \<Rightarrow> type_info \<Rightarrow> gtype \<Rightarrow> gdata \<Rightarrow> (string \<times> rvalue) list
   \<Rightarrow> gdata \<times> unit outcome" where
  "assign_columns E cs cfg strict ti t d [] = (d, Ok ())"
| "assign_columns E cs cfg strict ti t d ((col, v) # rest) =
     (case lookupScan E ti col of
        None \<Rightarrow> (if strict then (d, Err err_column) else assign_columns E cs cfg strict ti t d rest)
      | Some idx \<Rightarrow>
          (case assign_field E cs cfg t d (ti_fields ti ! idx) v of
             (d', Ok u) \<Rightarrow> assign_columns E cs cfg strict ti t d' rest
           | (d', r) \<Rightarrow> (d', r)))"

text \<open>The normal mode: one destination per column. A fast field is scanned directly, a slow one
  through a slot; an unmatched column goes to \<open>skip\<close>.\<close>

datatype scan_dest = DSkip | DFast field_info gdata | DSlow field_info

fun build_dests ::
  "'e genv_scheme \<Rightarrow> bool \<Rightarrow> type_info \<Rightarrow> gtype \<Rightarrow> gdata \<Rightarrow> string list \<Rightarrow> scan_dest list outcome" where
  "build_dests E strict ti t d [] = Ok []"
| "build_dests E strict ti t d (col # cols) =
     and_then
       (case lookupScan E ti col of
          None \<Rightarrow> (if strict then Err err_column else Ok DSkip)
        | Some idx \<Rightarrow>
            (let f = ti_fields ti ! idx in
             if fi_fast f \<and> \<not> fi_json f then and_then (field_location E t d f) (\<lambda>fd. Ok (DFast f fd))
             else and_then (fieldValue E (RV t d) f) (\<lambda>_. Ok (DSlow f))))
       (\<lambda>x. and_then (build_dests E strict ti t d cols) (\<lambda>xs. Ok (x # xs)))"

fun dest_slot :: "scan_dest \<Rightarrow> gtype \<times> gdata" where
  "dest_slot (DFast f fd) = (fi_typ f, fd)"
| "dest_slot _ = (TAny, DNil)"

fun store_fast :: "gdata \<Rightarrow> (scan_dest \<times> gdata) list \<Rightarrow> gdata" where
  "store_fast d [] = d"
| "store_fast d ((DFast f fd, x) # rest) = store_fast (store_at d (fi_index f) x) rest"
| "store_fast d (_ # rest) = store_fast d rest"

fun assign_slow ::
  "'e conv_env_scheme \<Rightarrow> converters \<Rightarrow> 'p config \<Rightarrow> gtype \<Rightarrow> gdata \<Rightarrow> (scan_dest \<times> gdata) list \<Rightarrow> gdata \<times> unit outcome"
  where
  "assign_slow E cs cfg t d [] = (d, Ok ())"
| "assign_slow E cs cfg t d ((DSlow f, x) # rest) =
     (case assign_field E cs cfg t d f (unbox x) of
        (d', Ok u) \<Rightarrow> assign_slow E cs cfg t d' rest
      | (d', r) \<Rightarrow> (d', r))"
| "assign_slow E cs cfg t d (_ # rest) = assign_slow E cs cfg t d rest"

definition scan_direct ::
  "'e conv_env_scheme \<Rightarrow> converters \<Rightarrow> 'p config \<Rightarrow> bool \<Rightarrow> type_info \<Rightarrow> row_source \<Rightarrow> gtype \<Rightarrow> gdata \<Rightarrow> string list
   \<Rightarrow> gdata \<times> unit outcome" where
  "scan_direct E cs cfg strict ti rs t d cols =
     (case build_dests E strict ti t d cols of
        Err e \<Rightarrow> (d, Err e)
      | Panic m \<Rightarrow> (d, Panic m)
      | Ok dests \<Rightarrow>
          (case rs_Scan E cs rs (map dest_slot dests) of
             (ds, Ok u) \<Rightarrow> assign_slow E cs cfg t (store_fast d (zip dests ds)) (zip dests ds)
           | (ds, r) \<Rightarrow> (store_fast d (zip dests ds), r)))"

definition scanStructRow ::
  "'e conv_env_scheme \<Rightarrow> converters \<Rightarrow> 'p config \<Rightarrow> call_config \<Rightarrow> row_source \<Rightarrow> gtype \<Rightarrow> gdata \<Rightarrow> string list \<Rightarrow> scan_state
   \<Rightarrow> gdata \<times> unit outcome \<times> scan_state" where
  "scanStructRow E cs cfg cc rs t d cols st =
     (case getTypeInfo E (ss_tc st) t (Some cfg) of
        (Err e, tc') \<Rightarrow> (d, Err e, st\<lparr>ss_tc := tc'\<rparr>)
      | (Panic m, tc') \<Rightarrow> (d, Panic m, st\<lparr>ss_tc := tc'\<rparr>)
      | (Ok ti, tc') \<Rightarrow>
          (let strict = effectiveStrict cfg cc; st' = st\<lparr>ss_tc := tc'\<rparr> in
           if is_recorder rs then
             (case scanRawRow E cs rs (length cols) of
                Ok raw \<Rightarrow>
                  (case assign_columns E cs cfg strict ti t d (zip cols raw) of
                     (d', r) \<Rightarrow> (d', r, st'\<lparr>ss_heap := rs_RecordRow rs raw (ss_heap st')\<rparr>))
              | Err e \<Rightarrow> (d, Err e, st')
              | Panic m \<Rightarrow> (d, Panic m, st'))
           else (case scan_direct E cs cfg strict ti rs t d cols of (d', r) \<Rightarrow> (d', r, st'))))"

text \<open>\<open>SetMapIndex\<close> with a plain string key panics unless the key type is \<open>string\<close> itself.\<close>

definition map_entry ::
  "'e conv_env_scheme \<Rightarrow> converters \<Rightarrow> 'p config \<Rightarrow> gtype \<Rightarrow> rvalue \<Rightarrow> gdata outcome" where
  "map_entry E cs cfg et v =
     (if v = Invalid then Ok (new_zero E et)
      else if et = TAny then Ok (box v)
      else (case convertAssign E cs (TPtr et) (new_zero E et) v (Some cfg) of
              (x, Ok u) \<Rightarrow> Ok x
            | (x, Err e) \<Rightarrow> Ok (new_zero E et)
            | (x, Panic m) \<Rightarrow> Panic m))"

fun setMapRow ::
  "'e conv_env_scheme \<Rightarrow> converters \<Rightarrow> 'p config \<Rightarrow> gtype \<Rightarrow> (gdata \<times> gdata) list \<Rightarrow> (string \<times> rvalue) list
   \<Rightarrow> (gdata \<times> gdata) list outcome" where
  "setMapRow E cs cfg t kvs [] = Ok kvs"
| "setMapRow E cs cfg t kvs ((col, v) # rest) =
     and_then (map_entry E cs cfg (elem_type t) v)
       (\<lambda>x. if key_type t \<noteq> TString then Panic ''reflect.Value.SetMapIndex: value of type string is not assignable''
            else setMapRow E cs cfg t (AList.update (DStr (mapKeyFunc cfg col)) x kvs) rest)"

fun map_entries :: "gdata \<Rightarrow> (gdata \<times> gdata) list" where
  "map_entries (DMap kvs) = kvs"
| "map_entries _ = []"

definition scanMapRow ::
  "'e conv_env_scheme \<Rightarrow> converters \<Rightarrow> 'p config \<Rightarrow> row_source \<Rightarrow> gtype \<Rightarrow> gdata \<Rightarrow> string list \<Rightarrow> scan_state
   \<Rightarrow> gdata \<times> unit outcome \<times> scan_state" where
  "scanMapRow E cs cfg rs t d cols st =
     (if kind (key_type t) \<noteq> KString
      then (d, Err (Wrap ''scan: map key must be string'' ErrUnsupportedType), st)
      else
        (case scanRawRow E cs rs (length cols) of
           Ok raw \<Rightarrow>
             (let st' = st\<lparr>ss_heap := rs_RecordRow rs raw (ss_heap st)\<rparr> in
              case setMapRow E cs cfg t (map_entries d) (zip cols raw) of
                Ok kvs \<Rightarrow> (DMap kvs, Ok (), st')
              | Err e \<Rightarrow> (d, Err e, st')
              | Panic m \<Rightarrow> (d, Panic m, st'))
         | Err e \<Rightarrow> (d, Err e, st)
         | Panic m \<Rightarrow> (d, Panic m, st)))"

definition scanScalarRow ::
  "'e conv_env_scheme \<Rightarrow> converters \<Rightarrow> 'p config \<Rightarrow> row_source \<Rightarrow> gtype \<Rightarrow> gdata \<Rightarrow> string list \<Rightarrow> scan_state
   \<Rightarrow> gdata \<times> unit outcome \<times> scan_state" where
  "scanScalarRow E cs cfg rs t d cols st =
     (if length cols \<noteq> 1
      then (d, Err (Wrap ''scan: scalar target requires exactly one column'' ErrUnsupportedType), st)
      else
        (case scanRawRow E cs rs 1 of
           Ok raw \<Rightarrow>
             (case convertAssign E cs (TPtr t) d (raw ! 0) (Some cfg) of
                (d', r) \<Rightarrow> (d', r, st\<lparr>ss_heap := rs_RecordRow rs raw (ss_heap st)\<rparr>))
         | Err e \<Rightarrow> (d, Err e, st)
         | Panic m \<Rightarrow> (d, Panic m, st)))"

definition scan_elem ::
  "'e conv_env_scheme \<Rightarrow> converters \<Rightarrow> 'p config \<Rightarrow> call_config \<Rightarrow> row_source \<Rightarrow> gtype \<Rightarrow> gdata \<Rightarrow> string list \<Rightarrow> scan_state
   \<Rightarrow> gdata \<times> unit outcome \<times> scan_state" where
  "scan_elem E cs cfg cc rs t d cols st =
     (if kind t = KStruct then scanStructRow E cs cfg cc rs t d cols st
      else if kind t = KMap then scanMapRow E cs cfg rs t (DMap (map_entries d)) cols st
      else scanScalarRow E cs cfg rs t d cols st)"

text \<open>\<open>scanOneValue\<close>: a pointer target is allocated first, one level.\<close>

definition scanOneValue ::
  "'e conv_env_scheme \<Rightarrow> converters \<Rightarrow> 'p config \<Rightarrow> call_config \<Rightarrow> row_source \<Rightarrow> gtype \<Rightarrow> gdata \<Rightarrow> string list \<Rightarrow> scan_state
   \<Rightarrow> gdata \<times> unit outcome \<times> scan_state" where
  "scanOneValue E cs cfg cc rs t d cols st =
     (if kind t = KPtr
      then (case scan_elem E cs cfg cc rs (elem_type t) (new_zero E (elem_type t)) cols st of
              (d', r, st') \<Rightarrow> (DPtr d', r, st'))
      else scan_elem E cs cfg cc rs t d cols st)"

section \<open>Entry points\<close>

definition err_outcome :: "goerr option \<Rightarrow> unit outcome" where
  "err_outcome e = (case e of None \<Rightarrow> Ok () | Some x \<Rightarrow> Err x)"

text \<open>A scan of the whole source returns its outcome, the target, the source and the state.\<close>

type_synonym scan_result = "unit outcome \<times> gdata \<times> row_source \<times> scan_state"

definition scanOne ::
  "'e conv_env_scheme \<Rightarrow> converters \<Rightarrow> 'p config \<Rightarrow> call_config \<Rightarrow> row_source \<Rightarrow> gtype \<Rightarrow> gdata \<Rightarrow> scan_state \<Rightarrow> scan_result"
  where
  "scanOne E cs cfg cc rs t d st =
     (case rs_Columns rs (ss_heap st) of
        (Err e, h') \<Rightarrow> (Err e, d, rs, st\<lparr>ss_heap := h'\<rparr>)
      | (Panic m, h') \<Rightarrow> (Panic m, d, rs, st\<lparr>ss_heap := h'\<rparr>)
      | (Ok cols, h') \<Rightarrow>
          (case rs_Next rs of
             (False, rs') \<Rightarrow>
               ((case rs_Err rs' of Some e \<Rightarrow> Err e | None \<Rightarrow> Err ErrNoRows), d, rs', st\<lparr>ss_heap := h'\<rparr>)
           | (True, rs') \<Rightarrow>
               (case scanOneValue E cs cfg cc rs' t d cols (st\<lparr>ss_heap := h'\<rparr>) of
                  (d', Ok u, st') \<Rightarrow> (err_outcome (rs_Err rs'), d', rs', st')
                | (d', r, st') \<Rightarrow> (r, d', rs', st'))))"

text \<open>A slice of bytes is a string of bytes.\<close>

definition mk_slice :: "gtype \<Rightarrow> gdata list \<Rightarrow> gdata" where
  "mk_slice t ds =
     (if underlying (elem_type t) = TUint I8
      then DBytes (map (\<lambda>d. case d of DInt i \<Rightarrow> char_of (nat i) | _ \<Rightarrow> char_of (0 :: nat)) ds)
      else DSlice ds)"

function scan_loop ::
  "'e conv_env_scheme \<Rightarrow> converters \<Rightarrow> 'p config \<Rightarrow> call_config \<Rightarrow> gtype \<Rightarrow> string list \<Rightarrow> row_source \<Rightarrow> scan_state
   \<Rightarrow> gdata list \<Rightarrow> gdata list outcome \<times> row_source \<times> scan_state" where
  "scan_loop E cs cfg cc et cols rs st out =
     (case rs_Next rs of
        (False, rs') \<Rightarrow> ((case rs_Err rs' of Some e \<Rightarrow> Err e | None \<Rightarrow> Ok out), rs', st)
      | (True, rs') \<Rightarrow>
          (case scanOneValue E cs cfg cc rs' et (new_zero E et) cols st of
             (d', Ok u, st') \<Rightarrow> scan_loop E cs cfg cc et cols rs' st' (out @ [d'])
           | (d', Err e, st') \<Rightarrow> (Err e, rs', st')
           | (d', Panic m, st') \<Rightarrow> (Panic m, rs', st')))"
  by pat_completeness auto
termination
  by (relation "measure (\<lambda>(E, cs, cfg, cc, et, cols, rs, st, out). rs_left rs)")
    (auto dest: rs_Next_left [OF sym])

declare scan_loop.simps [simp del]

definition scanSlice ::
  "'e conv_env_scheme \<Rightarrow> converters \<Rightarrow> 'p config \<Rightarrow> call_config \<Rightarrow> row_source \<Rightarrow> gtype \<Rightarrow> gdata \<Rightarrow> scan_state \<Rightarrow> scan_result"
  where
  "scanSlice E cs cfg cc rs t d st =
     (case rs_Columns rs (ss_heap st) of
        (Err e, h') \<Rightarrow> (Err e, d, rs, st\<lparr>ss_heap := h'\<rparr>)
      | (Panic m, h') \<Rightarrow> (Panic m, d, rs, st\<lparr>ss_heap := h'\<rparr>)
      | (Ok cols, h') \<Rightarrow>
          (case scan_loop E cs cfg cc (elem_type t) cols rs (st\<lparr>ss_heap := h'\<rparr>) [] of
             (Ok out, rs', st') \<Rightarrow> (Ok (), mk_slice t out, rs', st')
           | (Err e, rs', st') \<Rightarrow> (Err e, d, rs', st')
           | (Panic m, rs', st') \<Rightarrow> (Panic m, d, rs', st')))"

text \<open>\<open>scanRows\<close> of a non-nil pointer to a location of type \<open>t\<close>.\<close>

definition scan_target ::
  "'e conv_env_scheme \<Rightarrow> converters \<Rightarrow> 'p config \<Rightarrow> call_config \<Rightarrow> row_source \<Rightarrow> gtype \<Rightarrow> gdata \<Rightarrow> scan_state \<Rightarrow> scan_result"
  where
  "scan_target E cs cfg cc rs t d st =
     (if kind t = KSlice then scanSlice E cs cfg cc rs t d st else scanOne E cs cfg cc rs t d st)"

definition scanRows ::
  "'e conv_env_scheme \<Rightarrow> converters \<Rightarrow> 'p config \<Rightarrow> call_config \<Rightarrow> row_source \<Rightarrow> rvalue \<Rightarrow> scan_state
   \<Rightarrow> unit outcome \<times> rvalue \<times> row_source \<times> scan_state" where
  "scanRows E cs cfg cc rs dest st =
     (case dest of
        RV pt (DPtr d) \<Rightarrow>
          (if kind pt \<noteq> KPtr
           then (Err (Wrap ''scan: dest must be a non-nil pointer'' ErrUnsupportedType), dest, rs, st)
           else (case scan_target E cs cfg cc rs (elem_type pt) d st of
                   (r, d', rs', st') \<Rightarrow> (r, RV pt (DPtr d'), rs', st')))
      | _ \<Rightarrow> (Err (Wrap ''scan: dest must be a non-nil pointer'' ErrUnsupportedType), dest, rs, st))"

definition Scan_pub ::
  "'e conv_env_scheme \<Rightarrow> converters \<Rightarrow> row_source \<Rightarrow> rvalue \<Rightarrow> scan_state
   \<Rightarrow> unit outcome \<times> rvalue \<times> row_source \<times> scan_state" where
  "Scan_pub E cs rs dest st =
     scanRows E cs (defaultConfig (ge_unicode E) :: unit config) \<lparr>cc_strictMode = None\<rparr> rs dest st"

end
