(* ===== verification/Core.thy ===== *)
theory Core
  imports Scan Bind
begin

text \<open>
  \<^verbatim>\<open>core.go\<close>: the execution of one operation. The context, the plugin chain around the call, the four
  operations, and the handle \<open>DB\<close>.

  Plugins, the database and time are parameters: a plugin is its two hooks, functions on the shared
  information record and the world; the executor (\<open>*sql.DB\<close> or \<open>*sql.Tx\<close>) is a function on the state of
  the database that also says how long it took. The world holds that state, the clock, the recorders
  and the type cache, the reports made to the plugin error handler, and whatever the plugins keep.
\<close>

section \<open>Context, world, plugins\<close>

text \<open>What the code puts into a context: the row wrapper, and the cache's recorder (by address).\<close>

record go_ctx =
  cx_wrapper :: "(row_source \<Rightarrow> row_source) option"
  cx_recorder :: "nat option"

definition background :: go_ctx where
  "background = \<lparr>cx_wrapper = None, cx_recorder = None\<rparr>"

definition WithRowWrapper :: "go_ctx \<Rightarrow> (row_source \<Rightarrow> row_source) \<Rightarrow> go_ctx" where
  "WithRowWrapper ctx w = ctx\<lparr>cx_wrapper := Some w\<rparr>"

definition rowWrapperFrom :: "go_ctx \<Rightarrow> (row_source \<Rightarrow> row_source) option" where
  "rowWrapperFrom ctx = cx_wrapper ctx"

record ('d, 'x) world =
  w_db :: 'd
  w_now :: int
  w_st :: scan_state
  w_reports :: "(string \<times> goerr) list"
  w_ext :: 'x

type_synonym info = "row_source exec_info"

record ('d, 'x) plugin =
  pl_Name :: string
  pl_Before :: "go_ctx \<Rightarrow> info \<Rightarrow> ('d, 'x) world \<Rightarrow> (go_ctx \<times> unit outcome) \<times> info \<times> ('d, 'x) world"
  pl_After :: "go_ctx \<Rightarrow> info \<Rightarrow> ('d, 'x) world \<Rightarrow> unit outcome \<times> info \<times> ('d, 'x) world"

text \<open>\<open>dbExecutor\<close>.\<close>

record 'd executor =
  ex_Exec :: "string \<Rightarrow> rvalue list \<Rightarrow> 'd \<Rightarrow> ((int \<times> int) option \<times> unit outcome) \<times> int \<times> 'd"
  ex_Query :: "string \<Rightarrow> rvalue list \<Rightarrow> 'd \<Rightarrow> db_rows outcome \<times> int \<times> 'd"

text \<open>What the operations are given besides their arguments.\<close>

record core_env =
  cr_conv :: conv_env
  cr_converters :: converters
  cr_quote :: "string \<Rightarrow> string"

section \<open>Hooks\<close>

definition newExecInfo :: "op \<Rightarrow> string \<Rightarrow> rvalue \<Rightarrow> call_option list \<Rightarrow> bool \<Rightarrow> int \<Rightarrow> info" where
  "newExecInfo oper query arg opts inTx now =
     \<lparr>ei_op = oper, ei_query = query, ei_arg = arg, ei_boundSQL = [], ei_bindSQL = [], ei_bindArgs = [],
      ei_boundArgs = [], ei_options = opts, ei_inTx = inTx, ei_start = now, ei_duration = 0,
      ei_rows = None, ei_result = None, ei_err = None\<rparr>"

fun runBefore ::
  "('d, 'x) plugin list \<Rightarrow> go_ctx \<Rightarrow> info \<Rightarrow> ('d, 'x) world \<Rightarrow> (go_ctx \<times> unit outcome) \<times> info \<times> ('d, 'x) world" where
  "runBefore [] ctx info w = ((ctx, Ok ()), info, w)"
| "runBefore (p # ps) ctx info w =
     (case pl_Before p ctx info w of
        ((ctx', Ok u), info', w') \<Rightarrow> runBefore ps ctx' info' w'
      | ((ctx', Err e), info', w') \<Rightarrow>
          ((ctx', Err (Wrap (op_String (ei_op info') @ '': plugin '' @ pl_Name p) e)), info', w')
      | ((ctx', Panic m), info', w') \<Rightarrow> ((ctx', Panic m), info', w'))"

definition report :: "'p config \<Rightarrow> string \<Rightarrow> goerr \<Rightarrow> ('d, 'x) world \<Rightarrow> ('d, 'x) world" where
  "report cfg name e w = (if pluginErrHandler cfg then w\<lparr>w_reports := w_reports w @ [(name, e)]\<rparr> else w)"

text \<open>One iteration of \<open>runAfter\<close>: errors and panics go to the handler, if there is one.\<close>

definition after_one ::
  "'p config \<Rightarrow> go_ctx \<Rightarrow> ('d, 'x) plugin \<Rightarrow> info \<times> ('d, 'x) world \<Rightarrow> info \<times> ('d, 'x) world" where
  "after_one cfg ctx p iw =
     (case pl_After p ctx (fst iw) (snd iw) of
        (Ok u, info', w') \<Rightarrow> (info', w')
      | (Err e, info', w') \<Rightarrow> (info', report cfg (pl_Name p) e w')
      | (Panic m, info', w') \<Rightarrow> (info', report cfg (pl_Name p) (ErrOther (''panic: '' @ m)) w'))"

fun after_loop ::
  "'p config \<Rightarrow> go_ctx \<Rightarrow> ('d, 'x) plugin list \<Rightarrow> nat \<Rightarrow> info \<times> ('d, 'x) world \<Rightarrow> info \<times> ('d, 'x) world" where
  "after_loop cfg ctx ps 0 iw = iw"
| "after_loop cfg ctx ps (Suc i) iw = after_loop cfg ctx ps i (after_one cfg ctx (ps ! i) iw)"

definition runAfter ::
  "'p config \<Rightarrow> go_ctx \<Rightarrow> ('d, 'x) plugin list \<Rightarrow> info \<Rightarrow> ('d, 'x) world \<Rightarrow> info \<times> ('d, 'x) world" where
  "runAfter cfg ctx ps info w = after_loop cfg ctx ps (length ps) (info, w)"

section \<open>The common prologue and the error exit\<close>

text \<open>\<open>runAfter(...); return wrapOpErr(info.Op, ...)\<close>: the hooks may still change the record.\<close>

definition finish_op ::
  "core_env \<Rightarrow> ('d, 'x) plugin config \<Rightarrow> go_ctx \<Rightarrow> ('d, 'x) plugin list \<Rightarrow> info \<Rightarrow> string \<Rightarrow> rvalue list
   \<Rightarrow> goerr option \<Rightarrow> ('d, 'x) world \<Rightarrow> unit outcome \<times> ('d, 'x) world" where
  "finish_op R cfg ctx ps info query args err w =
     (case runAfter cfg ctx ps info w of
        (info', w') \<Rightarrow> (err_outcome (wrapOpErr (cr_quote R) (ei_op info') query args err), w'))"

definition fail_op ::
  "core_env \<Rightarrow> ('d, 'x) plugin config \<Rightarrow> go_ctx \<Rightarrow> ('d, 'x) plugin list \<Rightarrow> info \<Rightarrow> string \<Rightarrow> rvalue list
   \<Rightarrow> goerr \<Rightarrow> ('d, 'x) world \<Rightarrow> unit outcome \<times> ('d, 'x) world" where
  "fail_op R cfg ctx ps info query args e w =
     finish_op R cfg ctx ps (info\<lparr>ei_err := Some e\<rparr>) query args (Some e) w"

definition set_tc :: "('d, 'x) world \<Rightarrow> type_cache \<Rightarrow> ('d, 'x) world" where
  "set_tc w tc = w\<lparr>w_st := (w_st w)\<lparr>ss_tc := tc\<rparr>\<rparr>"

text \<open>From the start of an operation to the call of the database: \<open>Inl\<close> is a return (or panic) on the
  way, \<open>Inr\<close> what the rest goes on with.\<close>

definition prologue ::
  "core_env \<Rightarrow> ('d, 'x) plugin config \<Rightarrow> go_ctx \<Rightarrow> op \<Rightarrow> bool \<Rightarrow> string \<Rightarrow> rvalue \<Rightarrow> call_option list \<Rightarrow> ('d, 'x) world
   \<Rightarrow> (unit outcome \<times> ('d, 'x) world) + (go_ctx \<times> info \<times> ('d, 'x) world \<times> bound_query)" where
  "prologue R cfg ctx oper inTx query arg opts w =
     (let ps = snd (begin_exec cfg); info = newExecInfo oper query arg opts inTx (w_now w) in
      case bindForExec (cr_conv R) (ss_tc (w_st w)) query arg cfg of
        (Err e, tc) \<Rightarrow> Inl (fail_op R cfg ctx ps info query [] e (set_tc w tc))
      | (Panic m, tc) \<Rightarrow> Inl (Panic m, set_tc w tc)
      | (Ok b, tc) \<Rightarrow>
          (case runBefore ps ctx (info\<lparr>ei_boundSQL := bq_boundSQL b, ei_bindSQL := bq_bindSQL b,
                   ei_bindArgs := bq_bindArgs b, ei_boundArgs := bq_args b\<rparr>) (set_tc w tc) of
             ((ctx', Ok u), info', w') \<Rightarrow> Inr (ctx', info', w', b)
           | ((ctx', Err e), info', w') \<Rightarrow> Inl (fail_op R cfg ctx' ps info' query (bq_args b) e w')
           | ((ctx', Panic m), info', w') \<Rightarrow> Inl (Panic m, w')))"

definition since_start :: "info \<Rightarrow> ('d, 'x) world \<Rightarrow> info" where
  "since_start info w = info\<lparr>ei_duration := w_now w - ei_start info\<rparr>"

definition set_db :: "('d, 'x) world \<Rightarrow> 'd \<Rightarrow> int \<Rightarrow> ('d, 'x) world" where
  "set_db w d elapsed = w\<lparr>w_db := d, w_now := w_now w + elapsed\<rparr>"

section \<open>Exec and Query\<close>

definition execOp ::
  "core_env \<Rightarrow> 'd executor \<Rightarrow> ('d, 'x) plugin config \<Rightarrow> go_ctx \<Rightarrow> bool \<Rightarrow> string \<Rightarrow> rvalue \<Rightarrow> call_option list
   \<Rightarrow> ('d, 'x) world \<Rightarrow> ((int \<times> int) option \<times> unit outcome) \<times> ('d, 'x) world" where
  "execOp R ex cfg ctx inTx query arg opts w =
     (case prologue R cfg ctx OpExec inTx query arg opts w of
        Inl (r, w') \<Rightarrow> ((None, r), w')
      | Inr (ctx', info, w1, b) \<Rightarrow>
          (case ex_Exec ex (bq_boundSQL b) (bq_args b) (w_db w1) of
             ((res, Panic m), el, d) \<Rightarrow> ((None, Panic m), set_db w1 d el)
           | ((res, r), el, d) \<Rightarrow>
               (let w2 = set_db w1 d el;
                    err = (case r of Err e \<Rightarrow> Some e | _ \<Rightarrow> None)
                in case finish_op R cfg ctx' (snd (begin_exec cfg)) (since_start (info\<lparr>ei_result := res, ei_err := err\<rparr>) w2)
                          query (bq_args b) err w2 of
                     (r', w3) \<Rightarrow> ((res, r'), w3))))"

text \<open>A live \<open>*Rows\<close>: the driver's rows, and what \<open>Close\<close> runs (once, by \<open>rows_Close\<close>).\<close>

record ('d, 'x) live_rows =
  lr_rows :: db_rows
  lr_after :: "('d, 'x) world \<Rightarrow> ('d, 'x) world"
  lr_fired :: bool

definition queryOp ::
  "core_env \<Rightarrow> 'd executor \<Rightarrow> ('d, 'x) plugin config \<Rightarrow> go_ctx \<Rightarrow> bool \<Rightarrow> string \<Rightarrow> rvalue \<Rightarrow> call_option list
   \<Rightarrow> ('d, 'x) world \<Rightarrow> (('d, 'x) live_rows option \<times> unit outcome) \<times> ('d, 'x) world" where
  "queryOp R ex cfg ctx inTx query arg opts w =
     (case prologue R cfg ctx OpQuery inTx query arg opts w of
        Inl (r, w') \<Rightarrow> ((None, r), w')
      | Inr (ctx', info, w1, b) \<Rightarrow>
          (case ex_Query ex (bq_boundSQL b) (bq_args b) (w_db w1) of
             (Ok raw, el, d) \<Rightarrow>
               ((Some \<lparr>lr_rows = raw,
                       lr_after = (\<lambda>w'. snd (runAfter cfg ctx' (snd (begin_exec cfg)) (since_start info w') w')),
                       lr_fired = False\<rparr>, Ok ()),
                set_db w1 d el)
           | (Err e, el, d) \<Rightarrow>
               (let w2 = set_db w1 d el in
                case fail_op R cfg ctx' (snd (begin_exec cfg)) (since_start info w2) query (bq_args b) e w2 of
                  (r, w3) \<Rightarrow> ((None, r), w3))
           | (Panic m, el, d) \<Rightarrow> ((None, Panic m), set_db w1 d el)))"

definition live_Close :: "('d, 'x) live_rows \<Rightarrow> ('d, 'x) world \<Rightarrow> goerr option \<times> ('d, 'x) live_rows \<times> ('d, 'x) world" where
  "live_Close l w =
     (case rows_Close (lr_after l) (dr_close (lr_rows l)) \<lparr>rw_fired = lr_fired l, rw_world = w\<rparr> of
        (e, r) \<Rightarrow> (e, l\<lparr>lr_fired := rw_fired r\<rparr>, rw_world r))"

section \<open>Get and Select\<close>

text \<open>Where the rows come from: a plugin's, or the database's through the row wrapper; a source that
  exposes its values is replaced by the core's own replay source.\<close>

definition wrap_rows :: "go_ctx \<Rightarrow> db_rows \<Rightarrow> row_source" where
  "wrap_rows ctx raw = (case rowWrapperFrom ctx of Some f \<Rightarrow> f (DBRows raw) | None \<Rightarrow> DBRows raw)"

definition replay_rows :: "row_source \<Rightarrow> row_source" where
  "replay_rows rows = (case RowValues rows of Some (cols, vals) \<Rightarrow> newValueRows cols vals | None \<Rightarrow> rows)"

definition fetch_rows ::
  "'d executor \<Rightarrow> go_ctx \<Rightarrow> info \<Rightarrow> bound_query \<Rightarrow> ('d, 'x) world \<Rightarrow> row_source outcome \<times> ('d, 'x) world" where
  "fetch_rows ex ctx info b w =
     (case ei_rows info of
        Some rows \<Rightarrow> (Ok (replay_rows rows), w)
      | None \<Rightarrow>
          (case ex_Query ex (bq_boundSQL b) (bq_args b) (w_db w) of
             (Ok raw, el, d) \<Rightarrow> (Ok (replay_rows (wrap_rows ctx raw)), set_db w d el)
           | (Err e, el, d) \<Rightarrow> (Err e, set_db w d el)
           | (Panic m, el, d) \<Rightarrow> (Panic m, set_db w d el)))"

text \<open>The two operations differ in the target only: \<open>mapOp\<close> scans into a location of type \<open>t\<close> that holds
  \<open>d0\<close> and returns its content. A panic of the scan propagates: neither \<open>Close\<close> nor the \<open>After\<close> hooks
  run.\<close>

definition mapOp ::
  "core_env \<Rightarrow> 'd executor \<Rightarrow> ('d, 'x) plugin config \<Rightarrow> go_ctx \<Rightarrow> op \<Rightarrow> bool \<Rightarrow> string \<Rightarrow> rvalue \<Rightarrow> call_option list
   \<Rightarrow> gtype \<Rightarrow> gdata \<Rightarrow> ('d, 'x) world \<Rightarrow> (gdata \<times> unit outcome) \<times> ('d, 'x) world" where
  "mapOp R ex cfg ctx oper inTx query arg opts t d0 w =
     (case prologue R cfg ctx oper inTx query arg opts w of
        Inl (r, w') \<Rightarrow> ((d0, r), w')
      | Inr (ctx', info, w1, b) \<Rightarrow>
          (let ps = snd (begin_exec cfg) in
           case fetch_rows ex ctx' info b w1 of
             (Err e, w2) \<Rightarrow>
               (case fail_op R cfg ctx' ps (since_start info w2) query (bq_args b) e w2 of (r, w3) \<Rightarrow> ((d0, r), w3))
           | (Panic m, w2) \<Rightarrow> ((d0, Panic m), w2)
           | (Ok rows, w2) \<Rightarrow>
               (case scan_target (cr_conv R) (cr_converters R) cfg (applyCallOptions opts) rows t d0 (w_st w2) of
                  (Panic m, d, rows', st) \<Rightarrow> ((d, Panic m), w2\<lparr>w_st := st\<rparr>)
                | (r, d, rows', st) \<Rightarrow>
                    (let w3 = w2\<lparr>w_st := st\<rparr>; info' = since_start (info\<lparr>ei_rows := Some rows'\<rparr>) w3;
                         err = (case r of Err e \<Rightarrow> Some e | _ \<Rightarrow> rs_Close rows')
                     in case err of
                          Some e \<Rightarrow> (case fail_op R cfg ctx' ps info' query (bq_args b) e w3 of (r', w4) \<Rightarrow> ((d, r'), w4))
                        | None \<Rightarrow> ((d, Ok ()), snd (runAfter cfg ctx' ps info' w3))))))"

definition getOp ::
  "core_env \<Rightarrow> 'd executor \<Rightarrow> ('d, 'x) plugin config \<Rightarrow> go_ctx \<Rightarrow> bool \<Rightarrow> string \<Rightarrow> rvalue \<Rightarrow> call_option list
   \<Rightarrow> gtype \<Rightarrow> ('d, 'x) world \<Rightarrow> (gdata \<times> unit outcome) \<times> ('d, 'x) world" where
  "getOp R ex cfg ctx inTx query arg opts t w =
     mapOp R ex cfg ctx OpGet inTx query arg opts t (new_zero (cr_conv R) t) w"

text \<open>\<open>Select\<close> scans into a nil \<open>[]T\<close> and returns nil with an error.\<close>

definition selectOp ::
  "core_env \<Rightarrow> 'd executor \<Rightarrow> ('d, 'x) plugin config \<Rightarrow> go_ctx \<Rightarrow> bool \<Rightarrow> string \<Rightarrow> rvalue \<Rightarrow> call_option list
   \<Rightarrow> gtype \<Rightarrow> ('d, 'x) world \<Rightarrow> (gdata \<times> unit outcome) \<times> ('d, 'x) world" where
  "selectOp R ex cfg ctx inTx query arg opts t w =
     (case mapOp R ex cfg ctx OpSelect inTx query arg opts (TSlice t) DNil w of
        ((d, r), w') \<Rightarrow> ((if r = Ok () then d else DNil, r), w'))"

section \<open>The handle\<close>

text \<open>\<open>DB\<close>: the executor and the configuration, which the first operation freezes.\<close>

record ('d, 'x) db_handle =
  db_exec :: "'d executor"
  db_cfg :: "('d, 'x) plugin config"

definition DB_New ::
  "unicode_tables \<Rightarrow> 'd executor \<Rightarrow> string option \<Rightarrow> ('d, 'x) plugin option_item list \<Rightarrow> ('d, 'x) db_handle" where
  "DB_New u ex driver opts = \<lparr>db_exec = ex, db_cfg = New_config u driver opts\<rparr>"

definition DB_Use :: "('d, 'x) db_handle \<Rightarrow> ('d, 'x) plugin list \<Rightarrow> ('d, 'x) db_handle \<times> goerr option" where
  "DB_Use h ps = (case addPlugins (db_cfg h) ps of (c, e) \<Rightarrow> (h\<lparr>db_cfg := c\<rparr>, e))"

definition frozen :: "('d, 'x) db_handle \<Rightarrow> ('d, 'x) db_handle" where
  "frozen h = h\<lparr>db_cfg := fst (begin_exec (db_cfg h))\<rparr>"

definition DB_Exec where
  "DB_Exec R h ctx query arg opts w = (execOp R (db_exec h) (db_cfg h) ctx False query arg opts w, frozen h)"

definition DB_Query where
  "DB_Query R h ctx query arg opts w = (queryOp R (db_exec h) (db_cfg h) ctx False query arg opts w, frozen h)"

definition DB_Get where
  "DB_Get R h ctx query arg opts t w = (getOp R (db_exec h) (db_cfg h) ctx False query arg opts t w, frozen h)"

definition DB_Select where
  "DB_Select R h ctx query arg opts t w = (selectOp R (db_exec h) (db_cfg h) ctx False query arg opts t w, frozen h)"

end
