(* ===== verification/Tx.thy ===== *)
theory Tx
  imports Core
begin

text \<open>
  The transactions of \<^verbatim>\<open>core.go\<close>: a \<open>Tx\<close> is a handle on one \<open>*sql.Tx\<close>, the outer transaction or a
  nested one on a savepoint, with a flag that closes it. The database behind \<open>*sql.Tx\<close> is a parameter;
  the section on nesting says what it assumes of savepoints.
\<close>

section \<open>Handles\<close>

record 'd sql_tx =
  stx_exec :: "'d executor"
  stx_Exec :: "string \<Rightarrow> 'd \<Rightarrow> unit outcome \<times> 'd"
  stx_Commit :: "'d \<Rightarrow> unit outcome \<times> 'd"
  stx_Rollback :: "'d \<Rightarrow> unit outcome \<times> 'd"

record tx =
  tx_savepoint :: string
  tx_closed :: bool

definition outer_tx :: tx where
  "outer_tx = \<lparr>tx_savepoint = [], tx_closed = False\<rparr>"

definition DB_BeginTx :: "unit outcome \<Rightarrow> tx outcome" where
  "DB_BeginTx r = and_then r (\<lambda>_. Ok outer_tx)"

definition ensureOpen :: "tx \<Rightarrow> unit outcome" where
  "ensureOpen tx = (if tx_closed tx then Err ErrTxDone else Ok ())"

text \<open>The process-wide counter of savepoint names is part of the state.\<close>

definition savepoint_name :: "nat \<Rightarrow> string" where
  "savepoint_name n = ''rainbowsquirrel_sp_'' @ itoa n"

definition Tx_Begin :: "'d sql_tx \<Rightarrow> tx \<Rightarrow> nat \<times> 'd \<Rightarrow> tx outcome \<times> nat \<times> 'd" where
  "Tx_Begin S tx sd =
     (case ensureOpen tx of
        Ok u \<Rightarrow>
          (let seq = fst sd + 1; name = savepoint_name seq in
           case stx_Exec S (''SAVEPOINT '' @ name) (snd sd) of
             (Ok u, d) \<Rightarrow> (Ok \<lparr>tx_savepoint = name, tx_closed = False\<rparr>, seq, d)
           | (Err e, d) \<Rightarrow> (Err (Wrap ''begin savepoint'' e), seq, d)
           | (Panic m, d) \<Rightarrow> (Panic m, seq, d))
      | Err e \<Rightarrow> (Err e, sd)
      | Panic m \<Rightarrow> (Panic m, sd))"

definition close_tx :: "tx \<Rightarrow> tx" where
  "close_tx tx = tx\<lparr>tx_closed := True\<rparr>"

text \<open>\<open>RELEASE SAVEPOINT\<close>, the end of both nested exits.\<close>

definition release :: "'d sql_tx \<Rightarrow> tx \<Rightarrow> 'd \<Rightarrow> unit outcome \<times> tx \<times> 'd" where
  "release S tx d =
     (case stx_Exec S (''RELEASE SAVEPOINT '' @ tx_savepoint tx) d of
        (Ok u, d') \<Rightarrow> (Ok (), close_tx tx, d')
      | (Err e, d') \<Rightarrow> (Err (Wrap (''release savepoint '' @ tx_savepoint tx) e), tx, d')
      | (Panic m, d') \<Rightarrow> (Panic m, tx, d'))"

definition Tx_Commit :: "'d sql_tx \<Rightarrow> tx \<Rightarrow> 'd \<Rightarrow> unit outcome \<times> tx \<times> 'd" where
  "Tx_Commit S tx d =
     (case ensureOpen tx of
        Ok u \<Rightarrow>
          (if tx_savepoint tx = [] then (case stx_Commit S d of (r, d') \<Rightarrow> (r, close_tx tx, d'))
           else release S tx d)
      | Err e \<Rightarrow> (Err e, tx, d)
      | Panic m \<Rightarrow> (Panic m, tx, d))"

definition Tx_Rollback :: "'d sql_tx \<Rightarrow> tx \<Rightarrow> 'd \<Rightarrow> unit outcome \<times> tx \<times> 'd" where
  "Tx_Rollback S tx d =
     (case ensureOpen tx of
        Ok u \<Rightarrow>
          (if tx_savepoint tx = [] then (case stx_Rollback S d of (r, d') \<Rightarrow> (r, close_tx tx, d'))
           else
             (case stx_Exec S (''ROLLBACK TO SAVEPOINT '' @ tx_savepoint tx) d of
                (Ok u, d') \<Rightarrow> release S tx d'
              | (Err e, d') \<Rightarrow> (Err (Wrap (''rollback to savepoint '' @ tx_savepoint tx) e), tx, d')
              | (Panic m, d') \<Rightarrow> (Panic m, tx, d')))
      | Err e \<Rightarrow> (Err e, tx, d)
      | Panic m \<Rightarrow> (Panic m, tx, d))"

section \<open>Operations inside a transaction\<close>

definition Tx_Exec where
  "Tx_Exec R S tx cfg ctx query arg opts w =
     (case ensureOpen tx of
        Ok u \<Rightarrow> execOp R (stx_exec S) cfg ctx True query arg opts w
      | r \<Rightarrow> ((None, r), w))"

definition Tx_Query where
  "Tx_Query R S tx cfg ctx query arg opts w =
     (case ensureOpen tx of
        Ok u \<Rightarrow> queryOp R (stx_exec S) cfg ctx True query arg opts w
      | r \<Rightarrow> ((None, r), w))"

definition Tx_Get where
  "Tx_Get R S tx cfg ctx query arg opts t w =
     (case ensureOpen tx of
        Ok u \<Rightarrow> getOp R (stx_exec S) cfg ctx True query arg opts t w
      | r \<Rightarrow> ((new_zero (cr_conv R) t, r), w))"

definition Tx_Select where
  "Tx_Select R S tx cfg ctx query arg opts t w =
     (case ensureOpen tx of
        Ok u \<Rightarrow> selectOp R (stx_exec S) cfg ctx True query arg opts t w
      | r \<Rightarrow> ((DNil, r), w))"

section \<open>A finished transaction stays finished\<close>

lemma ensureOpen_closed: "tx_closed tx \<Longrightarrow> ensureOpen tx = Err ErrTxDone"
  by (simp add: ensureOpen_def)

lemma ensureOpen_open: "\<not> tx_closed tx \<Longrightarrow> ensureOpen tx = Ok ()"
  by (simp add: ensureOpen_def)


text \<open>A small database: one number, and its savepoints.\<close>

fun drop_to :: "string \<Rightarrow> (string \<times> 'v) list \<Rightarrow> (string \<times> 'v) list" where
  "drop_to n [] = []"
| "drop_to n ((m, v) # st) = (if m = n then (m, v) # st else drop_to n st)"

definition demo_sp_exec :: "string \<Rightarrow> nat \<times> (string \<times> nat) list \<Rightarrow> unit outcome \<times> nat \<times> (string \<times> nat) list" where
  "demo_sp_exec stmt d =
     (if has_prefix stmt ''SAVEPOINT '' then (Ok (), fst d, (drop 10 stmt, fst d) # snd d)
      else if has_prefix stmt ''ROLLBACK TO SAVEPOINT '' then
        (case drop_to (drop 22 stmt) (snd d) of
           [] \<Rightarrow> (Err (ErrOther ''no such savepoint''), d)
         | (n, v) # st \<Rightarrow> (Ok (), v, (n, v) # st))
      else if has_prefix stmt ''RELEASE SAVEPOINT '' then
        (case drop_to (drop 18 stmt) (snd d) of
           [] \<Rightarrow> (Err (ErrOther ''no such savepoint''), d)
         | (n, v) # st \<Rightarrow> (Ok (), fst d, st))
      else (Err (ErrOther ''syntax error''), d))"

definition demo_stx :: "(nat \<times> (string \<times> nat) list) sql_tx" where
  "demo_stx =
     \<lparr>stx_exec = \<lparr>ex_Exec = (\<lambda>q args d. ((None, Ok ()), 0, d)), ex_Query = (\<lambda>q args d. (Err ErrNoRows, 0, d))\<rparr>,
      stx_Exec = demo_sp_exec, stx_Commit = (\<lambda>d. (Ok (), d)), stx_Rollback = (\<lambda>d. (Err ErrTxDone, d))\<rparr>"


section \<open>Nesting\<close>

text \<open>
  What SQL says of savepoints, for a database whose state shows its \<open>data\<close> and its \<open>stack\<close> of
  savepoints with the data each has kept: \<open>SAVEPOINT\<close> pushes, \<open>ROLLBACK TO\<close> a name goes back to its
  newest entry and keeps it, \<open>RELEASE\<close> drops that entry and everything above it and keeps the data.
\<close>

definition savepoint_contract :: "'d sql_tx \<Rightarrow> ('d \<Rightarrow> 'v) \<Rightarrow> ('d \<Rightarrow> (string \<times> 'v) list) \<Rightarrow> bool" where
  "savepoint_contract S data stack =
     (\<forall>n d.
        (fst (stx_Exec S (''SAVEPOINT '' @ n) d) = Ok () \<longrightarrow>
           data (snd (stx_Exec S (''SAVEPOINT '' @ n) d)) = data d
           \<and> stack (snd (stx_Exec S (''SAVEPOINT '' @ n) d)) = (n, data d) # stack d)
        \<and> (drop_to n (stack d) \<noteq> [] \<longrightarrow>
             fst (stx_Exec S (''ROLLBACK TO SAVEPOINT '' @ n) d) = Ok ()
             \<and> data (snd (stx_Exec S (''ROLLBACK TO SAVEPOINT '' @ n) d)) = snd (hd (drop_to n (stack d)))
             \<and> stack (snd (stx_Exec S (''ROLLBACK TO SAVEPOINT '' @ n) d)) = drop_to n (stack d))
        \<and> (drop_to n (stack d) \<noteq> [] \<longrightarrow>
             fst (stx_Exec S (''RELEASE SAVEPOINT '' @ n) d) = Ok ()
             \<and> data (snd (stx_Exec S (''RELEASE SAVEPOINT '' @ n) d)) = data d
             \<and> stack (snd (stx_Exec S (''RELEASE SAVEPOINT '' @ n) d)) = tl (drop_to n (stack d))))"

lemma savepoint_contractD:
  assumes "savepoint_contract S data stack"
  shows "stx_Exec S (''SAVEPOINT '' @ n) d = (Ok u, d') \<Longrightarrow> data d' = data d \<and> stack d' = (n, data d) # stack d"
    and "drop_to n (stack d) = (n, v) # st \<Longrightarrow>
      \<exists>d'. stx_Exec S (''ROLLBACK TO SAVEPOINT '' @ n) d = (Ok (), d') \<and> data d' = v \<and> stack d' = (n, v) # st"
    and "drop_to n (stack d) = (n, v) # st \<Longrightarrow>
      \<exists>d'. stx_Exec S (''RELEASE SAVEPOINT '' @ n) d = (Ok (), d') \<and> data d' = data d \<and> stack d' = st"
proof -
  note c = spec [OF spec [OF assms [unfolded savepoint_contract_def]], of n d]
  show "stx_Exec S (''SAVEPOINT '' @ n) d = (Ok u, d') \<Longrightarrow> data d' = data d \<and> stack d' = (n, data d) # stack d"
    using c by auto
  show "\<exists>d'. stx_Exec S (''ROLLBACK TO SAVEPOINT '' @ n) d = (Ok (), d') \<and> data d' = v \<and> stack d' = (n, v) # st"
    if "drop_to n (stack d) = (n, v) # st"
    using c that by (cases "stx_Exec S (''ROLLBACK TO SAVEPOINT '' @ n) d") auto
  show "\<exists>d'. stx_Exec S (''RELEASE SAVEPOINT '' @ n) d = (Ok (), d') \<and> data d' = data d \<and> stack d' = st"
    if "drop_to n (stack d) = (n, v) # st"
    using c that by (cases "stx_Exec S (''RELEASE SAVEPOINT '' @ n) d") auto
qed

lemma drop_to_newest: "n \<notin> fst ` set xs \<Longrightarrow> drop_to n (xs @ (n, v) # st) = (n, v) # st"
  by (induction xs) auto

lemma savepoint_name_inject [simp]: "savepoint_name m = savepoint_name n \<longleftrightarrow> m = n"
  by (simp add: savepoint_name_def)

lemma savepoint_name_nonempty [simp]: "savepoint_name n \<noteq> []"
  by (simp add: savepoint_name_def)

text \<open>C19: Nested transactions. On a database that keeps to SQL's rules, let \<open>Begin\<close> succeed and let
  anything happen afterwards, inner transactions included, finished or left open, as long as the
  savepoints opened since bear names drawn later from the counter and the nested transaction's own one
  is still there. Then \<open>Rollback\<close> of the nested transaction succeeds and restores the data and the
  savepoints of the moment of \<open>Begin\<close>, \<open>Commit\<close> succeeds and keeps the data, with the savepoints of that
  moment, and both close the handle, leaving the outer transaction as it was.\<close>

theorem nested_tx:
  assumes "savepoint_contract S data stack" "Tx_Begin S tx (seq, d) = (Ok ntx, seq', d1)"
    and "stack d2 = inner @ (tx_savepoint ntx, data d) # stack d"
    and "fst ` set inner \<subseteq> savepoint_name ` {seq' <..}"
  shows "(\<exists>d3. Tx_Rollback S ntx d2 = (Ok (), close_tx ntx, d3) \<and> data d3 = data d \<and> stack d3 = stack d)
    \<and> (\<exists>d3. Tx_Commit S ntx d2 = (Ok (), close_tx ntx, d3) \<and> data d3 = data d2 \<and> stack d3 = stack d)
    \<and> stack d1 = (tx_savepoint ntx, data d) # stack d \<and> data d1 = data d"
proof -
  from assms(2) have ntx: "seq' = seq + 1" "tx_savepoint ntx = savepoint_name seq'" "\<not> tx_closed ntx"
    and sp: "stx_Exec S (''SAVEPOINT '' @ savepoint_name seq') d = (Ok (), d1)"
    by (auto simp: Tx_Begin_def Let_def split: outcome.splits prod.splits)
  let ?n = "savepoint_name seq'"
  have "?n \<notin> fst ` set inner" using assms(4) by auto
  then have newest: "drop_to ?n (stack d2) = (?n, data d) # stack d"
    using assms(3) ntx(2) by (simp add: drop_to_newest)
  obtain d' where rb: "stx_Exec S (''ROLLBACK TO SAVEPOINT '' @ ?n) d2 = (Ok (), d')" "data d' = data d"
    "stack d' = (?n, data d) # stack d"
    using savepoint_contractD(2) [OF assms(1) newest] by blast
  have "drop_to ?n (stack d') = (?n, data d) # stack d" by (simp add: rb(3))
  from savepoint_contractD(3) [OF assms(1) this] obtain d3 where
    rel: "stx_Exec S (''RELEASE SAVEPOINT '' @ ?n) d' = (Ok (), d3)" "data d3 = data d'" "stack d3 = stack d" by blast
  from savepoint_contractD(3) [OF assms(1) newest] obtain d4 where
    com: "stx_Exec S (''RELEASE SAVEPOINT '' @ ?n) d2 = (Ok (), d4)" "data d4 = data d2" "stack d4 = stack d" by blast
  show ?thesis
    using ntx rb rel com savepoint_contractD(1) [OF assms(1) sp]
    by (simp add: Tx_Rollback_def Tx_Commit_def ensureOpen_open release_def)
qed

lemma demo_savepoints:
  "savepoint_contract demo_stx fst snd"
proof -
  have p: "has_prefix (''SAVEPOINT '' @ n) ''SAVEPOINT ''" "\<not> has_prefix (''ROLLBACK TO SAVEPOINT '' @ n) ''SAVEPOINT ''"
    "has_prefix (''ROLLBACK TO SAVEPOINT '' @ n) ''ROLLBACK TO SAVEPOINT ''"
    "\<not> has_prefix (''RELEASE SAVEPOINT '' @ n) ''SAVEPOINT ''"
    "\<not> has_prefix (''RELEASE SAVEPOINT '' @ n) ''ROLLBACK TO SAVEPOINT ''"
    "has_prefix (''RELEASE SAVEPOINT '' @ n) ''RELEASE SAVEPOINT ''"
    "drop 10 (''SAVEPOINT '' @ n) = n" "drop 22 (''ROLLBACK TO SAVEPOINT '' @ n) = n"
    "drop 18 (''RELEASE SAVEPOINT '' @ n) = n" for n
    by (simp_all add: numeral_eq_Suc)
  show ?thesis
    unfolding savepoint_contract_def demo_stx_def
    by (simp add: demo_sp_exec_def p del: append_Cons split: list.splits prod.splits)
qed

theorem nested_tx_witness:
  "\<exists>ntx. Tx_Begin demo_stx outer_tx (0, 7, []) = (Ok ntx, 1, 7, [(savepoint_name 1, 7)])
     \<and> Tx_Rollback demo_stx ntx (9, [(savepoint_name 1, 7)]) = (Ok (), close_tx ntx, 7, [])"
proof -
  let ?n = "\<lparr>tx_savepoint = savepoint_name 1, tx_closed = False\<rparr>"
  have b: "Tx_Begin demo_stx outer_tx (0, 7, []) = (Ok ?n, 1, 7, [(savepoint_name 1, 7)])"
    by code_simp
  from nested_tx [OF demo_savepoints b, of "(9, [(savepoint_name 1, 7)])" "[]"]
  show ?thesis using b by fastforce
qed

end
