(* ===== verification/ConvertProps.thy ===== *)
theory ConvertProps
  imports Convert
begin

text \<open>
  The lemmas and properties of \<open>Convert\<close>: integers convert exactly or are rejected (with the
  exception of \<open>uint\<close>), decimal texts read back, and conversions never panic and keep the type of
  the location.
\<close>

section \<open>Integers\<close>

lemma ikind_bits_range: "8 \<le> ikind_bits k \<and> ikind_bits k \<le> 64"
  by (cases k) auto

lemma type_bits_range: "8 \<le> type_bits t \<and> type_bits t \<le> 64"
  by (induction t rule: type_bits.induct) (auto simp: ikind_bits_range)

lemma text_of_int [simp]: "text_of (RV t (DInt v)) = None"
  by (simp add: text_of_def)

lemma text_of_string [simp]: "text_of (RV TString (DStr s)) = Some s"
  by (simp add: text_of_def)

lemma int64_of_id: "- (2 ^ 63) \<le> v \<Longrightarrow> v < 2 ^ 63 \<Longrightarrow> int64_of v = v"
  by (simp add: int64_of_def)

lemma int64_of_wrap: "2 ^ 63 \<le> v \<Longrightarrow> v < 2 ^ 64 \<Longrightarrow> int64_of v = v - 2 ^ 64"
proof -
  assume "2 ^ 63 \<le> v" "v < 2 ^ 64"
  moreover have "(v + 2 ^ 63) mod 2 ^ 64 = (v + 2 ^ 63 - 2 ^ 64) mod 2 ^ 64"
    by (rule minus_mod_self2 [symmetric])
  ultimately show ?thesis by (simp add: int64_of_def)
qed

text \<open>An integer value of a Go type, in the range of that type.\<close>

definition int_value :: "rvalue \<Rightarrow> int \<Rightarrow> bool" where
  "int_value src v =
     ((\<exists>k. src = RV (TInt k) (DInt v) \<and> \<not> overflow_int (TInt k) v)
      \<or> (\<exists>k. src = RV (TUint k) (DInt v) \<and> 0 \<le> v \<and> \<not> overflow_uint (TUint k) v))"

lemma overflow_int_64: "\<not> overflow_int (TInt k) v \<Longrightarrow> - (2 ^ 63) \<le> v \<and> v < 2 ^ 63"
  by (cases k) (auto simp: overflow_int_def)

lemma overflow_int_wide: "v \<ge> 2 ^ 63 \<Longrightarrow> overflow_int t v"
proof -
  assume v: "v \<ge> 2 ^ 63"
  have "(2 :: int) ^ (type_bits t - 1) \<le> 2 ^ 63"
    by (rule power_increasing) (use type_bits_range [of t] in auto)
  with v show ?thesis by (simp add: overflow_int_def)
qed

lemma foldl_atoi_ge: "a \<le> foldl atoi_step a s"
proof (induction s arbitrary: a)
  case (Cons c s)
  have "a \<le> atoi_step a c" by (simp add: atoi_step_def)
  also have "\<dots> \<le> foldl atoi_step (atoi_step a c) s" by (rule Cons.IH)
  finally show ?case by simp
qed simp

lemma digit_value: "is_digit c \<Longrightarrow> 48 \<le> (of_char c :: nat) \<and> (of_char c :: nat) \<le> 57"
  by (auto simp: is_digit_def less_eq_char_def)

lemma parse_digits_foldl:
  "list_all is_digit s \<Longrightarrow> int a \<le> m \<Longrightarrow>
   parse_digits m (int a) s =
     (if int (foldl atoi_step a s) \<le> m then Ok (int (foldl atoi_step a s)) else Err err_range)"
proof (induction s arbitrary: a)
  case (Cons c s)
  then have d: "48 \<le> (of_char c :: nat)" using digit_value by simp
  have "(of_char c :: int) = int (of_char c)" by (rule of_nat_of_char [symmetric])
  then have step: "10 * int a + (of_char c - 48) = int (atoi_step a c)"
    using d by (simp add: atoi_step_def)
  have "int (atoi_step a c) \<le> int (foldl atoi_step (atoi_step a c) s)" using foldl_atoi_ge by simp
  with Cons.prems Cons.IH [of "atoi_step a c"] show ?case by (auto simp: step Let_def)
qed simp

lemma itoa_digit_list: "list_all is_digit (itoa n)"
  using itoa_digits by (simp add: list_all_iff)

lemma ParseUint_itoa: "ParseUint bits (itoa n) = (if int n < 2 ^ bits then Ok (int n) else Err err_range)"
proof -
  have "parse_digits (2 ^ bits - 1) (int 0) (itoa n) = (if int n \<le> 2 ^ bits - 1 then Ok (int n) else Err err_range)"
    using parse_digits_foldl [OF itoa_digit_list, of 0 "2 ^ bits - 1" n] by (simp add: foldl_atoi_itoa)
  then show ?thesis by (simp add: ParseUint_def itoa_nonempty)
qed

lemma itoa_head: "itoa n = c # r \<Longrightarrow> c \<noteq> CHR ''+'' \<and> c \<noteq> CHR ''-''"
  using itoa_digits [of n] digit_value [of c] by auto

lemma ParseInt_itoa:
  assumes "1 \<le> bits"
  shows "ParseInt bits (itoa_int v) =
    (if - (2 ^ (bits - 1)) \<le> v \<and> v < 2 ^ (bits - 1) then Ok v else Err err_range)"
proof -
  have double: "(2 :: int) ^ bits = 2 * 2 ^ (bits - 1)"
    using assms by (metis Suc_diff_1 less_eq_Suc_le One_nat_def power_Suc)
  have pos: "(0 :: int) < 2 ^ (bits - 1)" by simp
  show ?thesis
  proof (cases "v < 0")
    case True
    then have "ParseInt bits (itoa_int v) =
      and_then (ParseUint bits (itoa (nat (- v))))
        (\<lambda>un. if un > 2 ^ (bits - 1) then Err err_range else Ok (- un))"
      by (simp add: ParseInt_def itoa_int_def cong: if_cong)
    with True show ?thesis using double pos by (simp add: ParseUint_itoa)
  next
    case False
    obtain c r where c: "itoa (nat v) = c # r" using itoa_nonempty by (cases "itoa (nat v)") auto
    with itoa_head [OF c] False have "ParseInt bits (itoa_int v) =
      and_then (ParseUint bits (itoa (nat v)))
        (\<lambda>un. if un \<ge> 2 ^ (bits - 1) then Err err_range else Ok un)"
      by (simp add: ParseInt_def itoa_int_def cong: if_cong)
    with False show ?thesis using double pos by (simp add: ParseUint_itoa)
  qed
qed

lemma int_valueE:
  assumes "int_value src v"
  obtains (signed) k where "src = RV (TInt k) (DInt v)" "\<not> overflow_int (TInt k) v"
    | (unsigned) k where "src = RV (TUint k) (DInt v)" "0 \<le> v" "\<not> overflow_uint (TUint k) v"
  using assms unfolding int_value_def by blast

lemma store_int_range:
  "store_int t x = (if - (2 ^ (type_bits t - 1)) \<le> x \<and> x < 2 ^ (type_bits t - 1) then Ok (DInt x) else overflowErr)"
  by (auto simp: store_int_def overflow_int_def)

lemma store_uint_range:
  "0 \<le> x \<Longrightarrow> store_uint t x = (if 0 \<le> x \<and> x < 2 ^ type_bits t then Ok (DInt x) else overflowErr)"
  by (auto simp: store_uint_def overflow_uint_def)

lemma convertToInt_of_int:
  assumes "int_value src v" "src = RV (TUint IInt) (DInt v) \<Longrightarrow> v < 2 ^ 63"
  shows "convertToInt E t src = store_int t v"
  using assms(1)
proof (cases rule: int_valueE)
  case (unsigned k)
  show ?thesis
  proof (cases "v < 2 ^ 63")
    case True
    with unsigned show ?thesis by (simp add: convertToInt_def int64_of_id)
  next
    case False
    with unsigned(3) have "k = I64 \<or> k = IInt" by (cases k) (simp_all add: overflow_uint_def)
    with unsigned False assms(2) have "k = I64" by auto
    moreover have "overflow_int t v" using False by (intro overflow_int_wide) simp
    ultimately show ?thesis using unsigned False by (auto simp: convertToInt_def store_int_def)
  qed
qed (simp add: convertToInt_def)

lemma convertToUint_of_int:
  assumes "int_value src v"
  shows "convertToUint E t src = (if 0 \<le> v \<and> v < 2 ^ type_bits t then Ok (DInt v) else overflowErr)"
  using assms
proof (cases rule: int_valueE)
  case (signed k)
  from overflow_int_64 [OF signed(2)] signed(1) show ?thesis
    by (simp add: convertToUint_def uint64_of_def store_uint_range)
qed (simp add: convertToUint_def store_uint_range)

lemma convertToInt_of_text:
  "convertToInt E t (RV TString (DStr (itoa_int v))) =
     (if - (2 ^ (type_bits t - 1)) \<le> v \<and> v < 2 ^ (type_bits t - 1) then Ok (DInt v)
      else Err (Wrap ''convertAssign: parse int'' err_range))"
  using type_bits_range [of t] by (simp add: convertToInt_def parseIntString_def ParseInt_itoa)

text \<open>The integer kinds, ordered by width, \<open>int\<close> below \<open>int64\<close>. To a kind that is not smaller every value
  converts, signed or unsigned.\<close>

fun ikind_rank :: "ikind \<Rightarrow> nat" where
  "ikind_rank I8 = 0"
| "ikind_rank I16 = 1"
| "ikind_rank I32 = 2"
| "ikind_rank IInt = 3"
| "ikind_rank I64 = 4"

instantiation ikind :: linorder
begin

definition less_eq_ikind :: "ikind \<Rightarrow> ikind \<Rightarrow> bool" where
  "less_eq_ikind i j = (ikind_rank i \<le> ikind_rank j)"

definition less_ikind :: "ikind \<Rightarrow> ikind \<Rightarrow> bool" where
  "less_ikind i j = (ikind_rank i < ikind_rank j)"

instance
proof
  fix i j :: ikind
  show "i = j" if "i \<le> j" "j \<le> i"
    using that by (cases i; cases j) (simp_all add: less_eq_ikind_def)
qed (auto simp: less_eq_ikind_def less_ikind_def)

end

lemma ikind_bits_mono: "i \<le> j \<Longrightarrow> ikind_bits i \<le> ikind_bits j"
  by (cases i; cases j) (simp_all add: less_eq_ikind_def)

lemma convert_widens:
  assumes "i \<le> j"
  shows "\<not> overflow_int (TInt i) v \<Longrightarrow> convertToInt E (TInt j) (RV (TInt i) (DInt v)) = Ok (DInt v)"
    and "0 \<le> v \<Longrightarrow> \<not> overflow_uint (TUint i) v \<Longrightarrow> convertToUint E (TUint j) (RV (TUint i) (DInt v)) = Ok (DInt v)"
proof -
  have "(2 :: int) ^ (ikind_bits i - 1) \<le> 2 ^ (ikind_bits j - 1)" "(2 :: int) ^ ikind_bits i \<le> 2 ^ ikind_bits j"
    using ikind_bits_mono [OF assms] by (auto intro: power_increasing)
  then have "overflow_int (TInt j) v \<Longrightarrow> overflow_int (TInt i) v" "overflow_uint (TUint j) v \<Longrightarrow> overflow_uint (TUint i) v"
    unfolding overflow_int_def overflow_uint_def type_bits.simps by linarith+
  then show "\<not> overflow_int (TInt i) v \<Longrightarrow> convertToInt E (TInt j) (RV (TInt i) (DInt v)) = Ok (DInt v)"
    and "0 \<le> v \<Longrightarrow> \<not> overflow_uint (TUint i) v \<Longrightarrow> convertToUint E (TUint j) (RV (TUint i) (DInt v)) = Ok (DInt v)"
    by (auto simp: convertToInt_def convertToUint_def store_int_def store_uint_def)
qed

lemma convertToInt_of_any:
  assumes "int_value src v"
  shows "convertToInt E t src = store_int t (if src = RV (TUint IInt) (DInt v) \<and> 2 ^ 63 \<le> v then v - 2 ^ 64 else v)"
proof (cases "src = RV (TUint IInt) (DInt v) \<and> 2 ^ 63 \<le> v")
  case True
  then have "v < 2 ^ 64" using assms by (simp add: int_value_def overflow_uint_def)
  with True show ?thesis by (simp add: convertToInt_def int64_of_wrap)
next
  case False
  have "convertToInt E t src = store_int t v" by (rule convertToInt_of_int [OF assms]) (use False in auto)
  with False show ?thesis by (simp only: if_False)
qed

text \<open>C22: Integers convert exactly or not at all, with one exception. An integer source is stored in an
  integer location unchanged when it is in the range of the location's type and is an overflow error
  otherwise, for signed and unsigned locations of every width; and its decimal text converts to a signed
  location exactly under the same condition. The exception is a \<open>uint\<close> source of \<open>2 ^ 63\<close> or more and a signed
  location: it wraps to a negative number first, which is then stored or refused by its own range.\<close>

theorem convertToInt_exact:
  assumes "int_value src v" "v' = (if src = RV (TUint IInt) (DInt v) \<and> 2 ^ 63 \<le> v then v - 2 ^ 64 else v)"
  shows "convertToInt E t src =
      (if - (2 ^ (type_bits t - 1)) \<le> v' \<and> v' < 2 ^ (type_bits t - 1) then Ok (DInt v') else overflowErr)
    \<and> convertToUint E t src = (if 0 \<le> v \<and> v < 2 ^ type_bits t then Ok (DInt v) else overflowErr)
    \<and> convertToInt E t (RV TString (DStr (itoa_int v))) =
        (if - (2 ^ (type_bits t - 1)) \<le> v \<and> v < 2 ^ (type_bits t - 1) then Ok (DInt v)
         else Err (Wrap ''convertAssign: parse int'' err_range))"
  using convertToInt_of_any [OF assms(1), of E t, folded assms(2)] convertToUint_of_int [OF assms(1), of E t]
    convertToInt_of_text [of E t v]
  by (simp add: store_int_range)

theorem convertToInt_exact_witness:
  "\<forall>E. convertToInt (E :: conv_env) (TInt I8) (RV (TInt I64) (DInt 127)) = Ok (DInt 127)
     \<and> convertToInt E (TInt I8) (RV (TInt I64) (DInt 128)) = overflowErr
     \<and> convertToUint E (TUint I8) (RV (TInt I64) (DInt 128)) = Ok (DInt 128)"
proof -
  have v: "int_value (RV (TInt I64) (DInt 127)) 127" "int_value (RV (TInt I64) (DInt 128)) 128"
    by (simp_all add: int_value_def overflow_int_def)
  show ?thesis
    using convertToInt_exact [OF v(1) refl, of _ "TInt I8"] convertToInt_exact [OF v(2) refl, of _ "TInt I8"]
      convertToInt_exact [OF v(2) refl, of _ "TUint I8"]
    by (auto simp: convertToInt_def text_of_def)
qed

text \<open>A \<open>uint\<close> of 64 bits is the exception: it is reinterpreted instead of rejected. A source beyond
  63 bits is stored in an \<open>int64\<close> location as the negative number with the same bits, and the
  largest 128 of them even in an \<open>int8\<close> location; a \<open>uint64\<close> of the same value is an overflow error.\<close>

lemma convertToInt_uint_wraps:
  assumes "2 ^ 63 \<le> v" "v < 2 ^ 64"
  shows "convertToInt E (TInt I64) (RV (TUint IInt) (DInt v)) = Ok (DInt (v - 2 ^ 64))
    \<and> (2 ^ 64 - v \<le> 128 \<longrightarrow> convertToInt E (TInt I8) (RV (TUint IInt) (DInt v)) = Ok (DInt (v - 2 ^ 64)))
    \<and> convertToInt E (TInt I64) (RV (TUint I64) (DInt v)) = overflowErr"
  using assms by (simp add: convertToInt_def store_int_def overflow_int_def int64_of_wrap)

lemma convertToInt_uint_wraps_witness:
  "\<forall>E. convertToInt (E :: conv_env) (TInt I8) (RV (TUint IInt) (DInt (2 ^ 64 - 1))) = Ok (DInt (- 1))"
proof
  fix E :: conv_env
  show "convertToInt E (TInt I8) (RV (TUint IInt) (DInt (2 ^ 64 - 1))) = Ok (DInt (- 1))"
    using convertToInt_uint_wraps [of "2 ^ 64 - 1" E] by simp
qed

section \<open>Conversions keep types\<close>

lemma underlying_same:
  assumes "underlying v = underlying t"
  shows "kind v = kind t" "elem_type v = elem_type t" "key_type v = key_type t"
    "struct_fields E v = struct_fields E t" "type_bits v = type_bits t"
proof -
  have "kind x = kind (underlying x) \<and> elem_type x = elem_type (underlying x) \<and> key_type x = key_type (underlying x)
    \<and> struct_fields E x = struct_fields E (underlying x) \<and> type_bits x = type_bits (underlying x)" for x
    by (induction x) simp_all
  with assms show "kind v = kind t" "elem_type v = elem_type t" "key_type v = key_type t"
    "struct_fields E v = struct_fields E t" "type_bits v = type_bits t" by metis+
qed

lemma wt_underlying:
  assumes "underlying v = underlying t"
  shows "wt E v d = wt E t d"
  by (cases d) (simp_all add: underlying_same [OF assms] assms)

text \<open>The value of an integer datum is in the range of its type.\<close>

fun int_ok :: "gtype \<Rightarrow> gdata \<Rightarrow> bool" where
  "int_ok t (DInt i) = ((kind t = KInt \<longrightarrow> \<not> overflow_int t i) \<and> (kind t = KUint \<longrightarrow> 0 \<le> i \<and> \<not> overflow_uint t i))"
| "int_ok t (DPtr d) = int_ok (elem_type t) d"
| "int_ok t d = True"

lemma int_ok_underlying:
  assumes "underlying v = underlying t"
  shows "int_ok v d = int_ok t d"
  by (cases d) (simp_all add: underlying_same [OF assms] overflow_int_def overflow_uint_def)

definition good :: "'e genv_scheme \<Rightarrow> gtype \<Rightarrow> gdata \<Rightarrow> bool" where
  "good E t d = (wt E t d \<and> int_ok t d)"

lemma good_underlying: "underlying v = underlying t \<Longrightarrow> good E v d = good E t d"
  by (simp add: good_def wt_underlying [of v t] int_ok_underlying [of v t])

lemma set_value_good:
  assumes "assignable E v t" "kind v \<noteq> KInterface" "good E v d"
  shows "good E t (set_value t v d)"
proof (cases "kind t = KInterface")
  case True
  with assms(2,3) show ?thesis by (simp add: good_def set_value_def)
next
  case False
  with assms(1) have "underlying v = underlying t" by (auto simp: assignable_def)
  with assms(3) False show ?thesis by (simp add: set_value_def good_underlying [of v t])
qed

lemma kind_float_cases: "kind t = KFloat \<Longrightarrow> underlying t = TFloat32 \<or> underlying t = TFloat64"
  by (induction t) auto

lemma basic_zero_good:
  "\<not> (kind t = KStruct \<and> underlying t \<noteq> TTime) \<Longrightarrow> good E t (basic_zero t)"
  using kind_float_cases [of t]
  by (cases "kind t") (auto simp: good_def basic_zero_def overflow_int_def overflow_uint_def kind_struct_time)

fun nests :: "'e genv_scheme \<Rightarrow> nat \<Rightarrow> gtype \<Rightarrow> bool" where
  "nests E 0 t = (\<not> (kind t = KStruct \<and> underlying t \<noteq> TTime))"
| "nests E (Suc n) t =
     (kind t = KStruct \<and> underlying t \<noteq> TTime \<longrightarrow> list_all (\<lambda>f. nests E n (sf_type f)) (struct_fields E t))"

lemma wt_fields_map: "(\<And>f. f \<in> set fs \<Longrightarrow> wt E (sf_type f) (g f)) \<Longrightarrow> wt_fields E (map sf_type fs) (map g fs)"
  by (induction fs) auto

lemma zero_val_good: "nests E n t \<Longrightarrow> good E t (zero_val E n t)"
proof (induction n arbitrary: t)
  case (Suc n)
  show ?case
  proof (cases "kind t = KStruct \<and> underlying t \<noteq> TTime")
    case True
    then have "wt_fields E (map sf_type (struct_fields E t)) (map (\<lambda>f. zero_val E n (sf_type f)) (struct_fields E t))"
      using Suc by (intro wt_fields_map) (auto simp: list_all_iff good_def)
    with True show ?thesis by (simp add: good_def)
  next
    case False
    then have "zero_val E (Suc n) t = basic_zero t" by (simp only: zero_val.simps if_False)
    with basic_zero_good [OF False] show ?thesis by simp
  qed
next
  case 0
  then show ?case using basic_zero_good [of t E] by auto
qed

lemma zero_of_wt: "wt E t d \<Longrightarrow> wt E t (zero_of d)"
  and zero_of_wt_fields: "wt_fields E ts ds \<Longrightarrow> wt_fields E ts (map zero_of ds)"
  and "wt_pairs E kt et kvs \<Longrightarrow> True"
  by (induction E t d and E ts ds and E kt et kvs rule: wt_wt_fields_wt_pairs.induct) auto

lemma zero_of_good: "good E t d \<Longrightarrow> good E t (zero_of d)"
  by (cases d) (auto simp: good_def overflow_int_def overflow_uint_def dest: zero_of_wt zero_of_wt_fields)

lemma parse_digits_range: "parse_digits m n s = Ok r \<Longrightarrow> 0 \<le> n \<Longrightarrow> n \<le> m \<Longrightarrow> 0 \<le> r \<and> r \<le> m"
proof (induction s arbitrary: n)
  case (Cons c s)
  let ?n = "10 * n + (of_char c - 48)"
  from Cons.prems(1) have c: "is_digit c" "?n \<le> m" "parse_digits m ?n s = Ok r"
    by (auto simp: Let_def split: if_splits)
  have "48 \<le> int (of_char c)" using digit_value [OF c(1)] by simp
  then have "48 \<le> (of_char c :: int)" by (simp only: of_nat_of_char)
  with Cons.prems(2) have "0 \<le> ?n" by simp
  from Cons.IH [OF c(3) this c(2)] show ?case .
qed simp

lemma ParseUint_range: "ParseUint bits s = Ok u \<Longrightarrow> 0 \<le> u \<and> u < 2 ^ bits"
  using parse_digits_range [of "2 ^ bits - 1" 0 s u] by (auto simp: ParseUint_def split: if_splits)

lemma ParseInt_range:
  assumes "ParseInt bits s = Ok i"
  shows "- (2 ^ (bits - 1)) \<le> i \<and> i < 2 ^ (bits - 1)"
proof -
  obtain body un where un: "ParseUint bits body = Ok un"
    "i = un \<and> un < 2 ^ (bits - 1) \<or> i = - un \<and> un \<le> 2 ^ (bits - 1)"
    using assms by (auto simp: ParseInt_def Let_def outcome_iff split: list.splits if_splits)
  moreover have "(0 :: int) < 2 ^ (bits - 1)" by simp
  ultimately show ?thesis using ParseUint_range [OF un(1)] by linarith
qed

lemma uint64_of_nonneg: "0 \<le> uint64_of x"
  by (simp add: uint64_of_def)

lemma uint64_of_float_nonneg: "0 \<le> uint64_of_float E w"
  by (simp add: uint64_of_float_def uint64_of_nonneg split: option.splits)

text \<open>What the parameters must keep to: a scanner and a registered converter return values of their
  type, none of them panics, and struct types nest no deeper than the environment's depth.\<close>

definition conv_env_ok :: "'e conv_env_scheme \<Rightarrow> converters \<Rightarrow> bool" where
  "conv_env_ok E cs =
     ((\<forall>t d v. good E t d \<longrightarrow> good E t (fst (ce_scan E t d v)) \<and> (\<forall>m. snd (ce_scan E t d v) \<noteq> Panic m))
      \<and> (\<forall>bits s m. ce_parse_float E bits s \<noteq> Panic m)
      \<and> (\<forall>layout s loc m. ce_parse_time E layout s loc \<noteq> Panic m)
      \<and> (\<forall>t fn v m. lookupConverter cs t = Some fn \<longrightarrow> fn v \<noteq> Panic m)
      \<and> (\<forall>t fn v vt vd. lookupConverter cs t = Some fn \<longrightarrow> fn v = Ok (RV vt vd) \<longrightarrow>
            assignable E vt t \<and> kind vt \<noteq> KInterface \<and> good E vt vd)
      \<and> (\<forall>t. nests E (ge_depth E) t))"

lemma conv_env_okD:
  assumes "conv_env_ok E cs"
  shows "good E t d \<Longrightarrow> good E t (fst (ce_scan E t d v))" "good E t d \<Longrightarrow> snd (ce_scan E t d v) \<noteq> Panic m"
    "ce_parse_float E bits s \<noteq> Panic m" "ce_parse_time E layout s loc \<noteq> Panic m"
    "lookupConverter cs t = Some fn \<Longrightarrow> fn v \<noteq> Panic m"
    "lookupConverter cs t = Some fn \<Longrightarrow> fn v = Ok (RV vt vd) \<Longrightarrow> assignable E vt t \<and> kind vt \<noteq> KInterface \<and> good E vt vd"
    "nests E (ge_depth E) t"
  using assms by (simp_all add: conv_env_ok_def)

text \<open>A value as an \<open>any\<close> holds it.\<close>

fun good_src :: "'e genv_scheme \<Rightarrow> rvalue \<Rightarrow> bool" where
  "good_src E Invalid = True"
| "good_src E (RV t d) = (kind t \<noteq> KInterface \<and> good E t d)"

lemma parse_digits_no_panic: "parse_digits m n s \<noteq> Panic p"
  by (induction s arbitrary: n) (auto simp: Let_def)

lemma ParseUint_no_panic: "ParseUint bits s \<noteq> Panic p"
  by (simp add: ParseUint_def parse_digits_no_panic)

lemma ParseInt_no_panic: "ParseInt bits s \<noteq> Panic p"
  by (simp add: ParseInt_def Let_def outcome_iff ParseUint_no_panic split: list.splits)

lemma ParseBool_no_panic: "ParseBool s \<noteq> Panic p"
  by (simp add: ParseBool_def)

lemmas Parse_no_panic = ParseUint_no_panic ParseInt_no_panic ParseBool_no_panic

definition conv_res :: "'e genv_scheme \<Rightarrow> gtype \<Rightarrow> gdata outcome \<Rightarrow> bool" where
  "conv_res E t r = (case r of Ok d \<Rightarrow> good E t d | Err e \<Rightarrow> True | Panic m \<Rightarrow> False)"

lemma conv_res_simps [simp]:
  "conv_res E t (Ok d) = good E t d" "conv_res E t (Err e)" "conv_res E t overflowErr" "conv_res E t cannotConvert"
  by (simp_all add: conv_res_def overflowErr_def cannotConvert_def)

lemma convertToInt_res:
  assumes "kind t = KInt"
  shows "conv_res E t (convertToInt E t src)"
proof -
  have "conv_res E t (store_int t i)" for i
    using assms by (simp add: store_int_def good_def)
  moreover have "conv_res E t (parseIntString t s)" for s
    using assms ParseInt_range [of "type_bits t" s]
    by (auto simp: parseIntString_def conv_res_def good_def overflow_int_def Parse_no_panic split: outcome.splits)
  ultimately show ?thesis
    unfolding convertToInt_def by (simp split: option.splits rvalue.splits gtype.splits gdata.splits)
qed

lemma convertToUint_res:
  assumes "kind t = KUint" "good_src E src"
  shows "conv_res E t (convertToUint E t src)"
proof -
  have st: "0 \<le> i \<Longrightarrow> conv_res E t (store_uint t i)" for i
    using assms(1) by (simp add: store_uint_def good_def)
  have "conv_res E t (parseUintString t s)" for s
    using assms(1) ParseUint_range [of "type_bits t" s]
    by (auto simp: parseUintString_def conv_res_def good_def overflow_uint_def Parse_no_panic split: outcome.splits)
  with assms(2) show ?thesis
    unfolding convertToUint_def
    by (auto simp: st uint64_of_nonneg uint64_of_float_nonneg good_def
        split: option.splits rvalue.splits gtype.splits gdata.splits)
qed

lemma set_float_good: "kind t = KFloat \<Longrightarrow> good E t (set_float t w)"
  using kind_float_cases [of t] by (auto simp: good_def set_float_def)

lemma convertToFloat_res:
  assumes "kind t = KFloat" "conv_env_ok E cs"
  shows "conv_res E t (convertToFloat E t src)"
proof -
  have st: "conv_res E t (store_float t w)" for w
    using set_float_good [OF assms(1), of E w] by (simp add: store_float_def)
  have "conv_res E t (parseFloatString E t s)" for s
    using set_float_good [OF assms(1), of E] conv_env_okD(3) [OF assms(2)]
    by (auto simp: parseFloatString_def conv_res_def split: outcome.splits)
  then show ?thesis
    unfolding convertToFloat_def
    by (auto simp: st split: option.splits rvalue.splits gtype.splits gdata.splits)
qed

lemma convertToBool_res:
  assumes "kind t = KBool"
  shows "conv_res E t (convertToBool t src)"
proof -
  have "conv_res E t (parseBoolString s)" for s
    using assms by (simp add: parseBoolString_def good_def Parse_no_panic split: outcome.splits)
  with assms show ?thesis
    unfolding convertToBool_def
    by (auto simp: good_def split: option.splits rvalue.splits gtype.splits gdata.splits)
qed

lemma convertToTime_res:
  assumes "conv_env_ok E cs"
  shows "conv_res E TTime (convertToTime E src layout loc)"
proof -
  have "conv_res E TTime (parseTimeString E s layout loc)" for s
    using conv_env_okD(4) [OF assms, of layout s loc]
    by (simp add: parseTimeString_def good_def split: outcome.splits)
  then show ?thesis
    unfolding convertToTime_def
    by (auto simp: good_def split: option.splits rvalue.splits gtype.splits gdata.splits)
qed

lemma builtinConvert_res:
  assumes "conv_env_ok E cs" "good_src E src"
  shows "conv_res E t (builtinConvert E t src cfg)"
proof (cases "kind t")
  case KString
  then show ?thesis by (simp add: builtinConvert_def good_def split: option.splits)
next
  case KSlice
  have "conv_res E t (case text_of src of None \<Rightarrow> cannotConvert | Some s \<Rightarrow> Ok (DBytes s))"
    if "underlying (elem_type t) = TUint I8"
    using that KSlice by (simp add: good_def split: option.splits)
  then show ?thesis using KSlice
    by (auto simp: builtinConvert_def good_def split: rvalue.splits gdata.splits)
qed (use assms in \<open>simp_all add: builtinConvert_def convertToInt_res convertToUint_res
      convertToFloat_res convertToBool_res convertToTime_res\<close>)

definition assign_res :: "'e genv_scheme \<Rightarrow> gtype \<Rightarrow> gdata \<times> unit outcome \<Rightarrow> bool" where
  "assign_res E t r = (good E t (fst r) \<and> (\<forall>m. snd r \<noteq> Panic m))"

lemma assign_res_simps [simp]:
  "assign_res E t (d, Ok u) = good E t d" "assign_res E t (d, Err e) = good E t d" "\<not> assign_res E t (d, Panic m)"
  by (simp_all add: assign_res_def)

lemma assignNull_res: "good E t d \<Longrightarrow> assign_res E t (assignNull t d cfg)"
  using zero_of_good [of E t d] by (simp add: assignNull_def) (simp add: good_def)

lemma builtin_assign_res:
  assumes "conv_res E t r" "good E t d"
  shows "assign_res E t (case r of Ok d' \<Rightarrow> (d', Ok ()) | Err e \<Rightarrow> (d, Err e) | Panic m \<Rightarrow> (d, Panic m))"
  using assms by (cases r) (simp_all add: conv_res_def)

lemma converter_res:
  assumes "conv_env_ok E cs" "lookupConverter cs t = Some fn" "good E t d"
  shows "assign_res E t
    (case fn src of
       Ok Invalid \<Rightarrow> assignNull t d cfg
     | Ok (RV vt vd) \<Rightarrow>
         (if assignable E vt t then (set_value t vt vd, Ok ())
          else (d, Panic ''reflect.Set: value is not assignable''))
     | Err e \<Rightarrow> (d, Err (Wrap ''convertAssign: converter'' e))
     | Panic m \<Rightarrow> (d, Panic m))"
proof (cases "fn src")
  case (Ok v)
  show ?thesis
  proof (cases v)
    case Invalid
    with Ok assignNull_res [OF assms(3)] show ?thesis by simp
  next
    case (RV vt vd)
    with conv_env_okD(6) [OF assms(1,2), of src vt vd] Ok set_value_good [of E vt t vd] show ?thesis by simp
  qed
next
  case (Err e)
  with assms(3) show ?thesis by simp
next
  case (Panic m)
  with conv_env_okD(5) [OF assms(1,2)] show ?thesis by simp
qed

lemma convertAssign_good:
  assumes "conv_env_ok E cs" "good_src E src"
  shows "kind pt = KPtr \<Longrightarrow> good E (elem_type pt) d \<Longrightarrow> assign_res E (elem_type pt) (convertAssign E cs pt d src cfg)"
proof (induction "size pt" arbitrary: pt d rule: less_induct)
  case less
  let ?t = "elem_type pt"
  consider (scan) "ge_scanner E pt" | (null) "\<not> ge_scanner E pt" "src = Invalid"
    | (same) st sd where "\<not> ge_scanner E pt" "src = RV st sd" "assignable E st ?t"
    | (registered) st sd fn where "\<not> ge_scanner E pt" "src = RV st sd" "\<not> assignable E st ?t" "lookupConverter cs ?t = Some fn"
    | (ptr) st sd where "\<not> ge_scanner E pt" "src = RV st sd" "\<not> assignable E st ?t" "lookupConverter cs ?t = None" "kind ?t = KPtr"
    | (builtin) st sd where "\<not> ge_scanner E pt" "src = RV st sd" "\<not> assignable E st ?t" "lookupConverter cs ?t = None" "kind ?t \<noteq> KPtr"
    by (cases src; cases "lookupConverter cs ?t") auto
  then show ?case
  proof cases
    case scan
    with less.prems conv_env_okD(1,2) [OF assms(1) less.prems(2), of src] show ?thesis
      by (subst convertAssign.simps) (simp add: assign_res_def)
  next
    case null
    with less.prems assignNull_res [OF less.prems(2)] show ?thesis by (subst convertAssign.simps) simp
  next
    case same
    with assms(2) have "kind st \<noteq> KInterface" "good E st sd" by simp_all
    with same less.prems set_value_good [OF same(3)] show ?thesis by (subst convertAssign.simps) simp
  next
    case registered
    with less.prems converter_res [OF assms(1) registered(4) less.prems(2), where src = src and cfg = cfg] show ?thesis
      by (subst convertAssign.simps) simp
  next
    case ptr
    let ?r = "convertAssign E cs ?t (new_zero E (elem_type ?t)) src cfg"
    have "good E (elem_type ?t) (new_zero E (elem_type ?t))"
      unfolding new_zero_def by (rule zero_val_good [OF conv_env_okD(7) [OF assms(1)]])
    with less.hyps [OF size_elem_type [OF less.prems(1)] ptr(5)] have "assign_res E (elem_type ?t) ?r" by blast
    with ptr(5) have "assign_res E ?t (DPtr (fst ?r), snd ?r)" by (simp add: assign_res_def good_def)
    with ptr less.prems show ?thesis by (subst convertAssign.simps) (simp add: case_prod_unfold)
  next
    case builtin
    with less.prems builtin_assign_res [OF builtinConvert_res [OF assms, where cfg = cfg] less.prems(2)] show ?thesis
      by (subst convertAssign.simps) simp
  qed
qed

text \<open>C21: Conversions are type safe. If scanners and registered converters return values of their
  types and nothing of the environment panics, then storing a well-typed driver value in a location of
  any type never panics, and whatever it returns, also with an error, leaves in the location a value of
  its type, with integers in the range of that type.\<close>

theorem convertAssign_type_safe:
  assumes "conv_env_ok E cs" "good_src E src" "kind pt = KPtr" "good E (elem_type pt) d"
  shows "wt E (elem_type pt) (fst (convertAssign E cs pt d src cfg))
    \<and> int_ok (elem_type pt) (fst (convertAssign E cs pt d src cfg))
    \<and> (\<forall>m. snd (convertAssign E cs pt d src cfg) \<noteq> Panic m)"
  using convertAssign_good [OF assms] by (simp add: assign_res_def good_def)

definition conv_demo :: conv_env where
  "conv_demo =
     \<lparr>ge_fields = (\<lambda>_. []), ge_depth = 1, ge_valuer = (\<lambda>_. False), ge_scanner = (\<lambda>_. False),
      ge_unicode = \<lparr>u_upper = (\<lambda>_. False), u_lower = (\<lambda>_. False), u_digit = (\<lambda>_. False), u_to_lower = (\<lambda>r. r)\<rparr>,
      ge_json_marshal = (\<lambda>_. Ok ''null''), ce_scan = (\<lambda>t d v. (d, Ok ())), ce_implements = (\<lambda>_ _. False),
      ce_f2i = (\<lambda>_. - (2 ^ 63)), ce_parse_float = (\<lambda>_ _. Err err_syntax),
      ce_parse_time = (\<lambda>_ _ _. Err err_syntax), ce_json_unmarshal = (\<lambda>t d s. (d, Ok ())),
      ce_sql_assign = (\<lambda>t d v. (d, Ok ()))\<rparr>"

lemma struct_fields_demo: "struct_fields conv_demo t = []"
  by (induction t) (simp_all add: conv_demo_def)

lemma conv_demo_ok: "conv_env_ok conv_demo (\<lambda>_. None)"
proof -
  have "nests conv_demo 1 t" for t by (simp add: struct_fields_demo)
  moreover have "ge_depth conv_demo = 1" by (simp add: conv_demo_def)
  ultimately show ?thesis
    by (simp add: conv_env_ok_def lookupConverter_def) (simp add: conv_demo_def)
qed

text \<open>The text \<open>-7\<close> in an \<open>**int16\<close> location, through two fresh pointers.\<close>

theorem convertAssign_type_safe_witness:
  "wt conv_demo (TPtr (TPtr (TInt I16)))
     (fst (convertAssign conv_demo (\<lambda>_. None) (TPtr (TPtr (TPtr (TInt I16)))) DNil (RV TString (DStr ''-7''))
        (None :: unit config option)))"
  using convertAssign_type_safe [OF conv_demo_ok, of "RV TString (DStr ''-7'')" "TPtr (TPtr (TPtr (TInt I16)))" DNil
      "None :: unit config option"]
  by (simp add: good_def)

text \<open>NULL. Where no scanner takes over, a NULL makes a pointer location nil; in any other
  location it stores the zero value, unless the configuration forbids it, when the error is
  \<open>ErrNullNotAllowed\<close> and the location keeps its content.\<close>

lemma convertAssign_null:
  assumes "kind pt = KPtr" "\<not> ge_scanner E pt"
  shows "convertAssign E cs pt d Invalid (Some cfg) =
    (if kind (elem_type pt) = KPtr then (DNil, Ok ())
     else if nullToZero cfg then (zero_of d, Ok ())
     else (d, Err (Wrap ''convertAssign: NULL'' ErrNullNotAllowed)))"
  using assms by (subst convertAssign.simps) (simp add: assignNull_def)

lemma convertAssign_null_witness:
  "convertAssign conv_demo (\<lambda>_. None) (TPtr (TInt I64)) (DInt 5) Invalid
      (Some ((defaultConfig (ge_unicode conv_demo) :: unit config)\<lparr>nullToZero := False\<rparr>))
    = (DInt 5, Err (Wrap ''convertAssign: NULL'' ErrNullNotAllowed))"
  using convertAssign_null [of "TPtr (TInt I64)" conv_demo "\<lambda>_. None" "DInt 5"
      "(defaultConfig (ge_unicode conv_demo) :: unit config)\<lparr>nullToZero := False\<rparr>"]
  by (simp add: conv_demo_def)

end
