(* ===== verification/ScanProps.thy ===== *)
theory ScanProps
  imports Scan ConvertProps
begin

text \<open>
  Properties of the scanner: how many rows are read and where they go, that replaying recorded values
  scans to what recording them scanned to, what the recorder holds afterwards, and the targets the
  code does not handle as documented.
\<close>

section \<open>Raw rows\<close>

lemma scanRawRow_db:
  "dr_cur r = Some row \<Longrightarrow> length row = n \<Longrightarrow> scanRawRow E cs (DBRows r) n = Ok row"
  using scan_cells_box [of "sql_assign E" row n, OF sql_assign_any]
  by (simp add: scanRawRow_def o_def)

lemma scanRawRow_recording: "scanRawRow E cs (Recording rs a) n = scanRawRow E cs rs n"
  by (simp add: scanRawRow_def)

lemma scanRawRow_values:
  "length (rows ! i) = n \<Longrightarrow> scanRawRow E cs (ValueRows cols rows (Suc i)) n = Ok (rows ! i)"
  using scan_cells_value_any [of "rows ! i" n E]
  by (simp add: scanRawRow_def current_row_def o_def)

section \<open>Type caches that answer alike\<close>

text \<open>Metadata added to the type cache under one configuration does not change an answer under it.\<close>

definition same_info :: "'e genv_scheme \<Rightarrow> 'p config \<Rightarrow> type_cache \<Rightarrow> type_cache \<Rightarrow> bool" where
  "same_info E cfg tc1 tc2 = (\<forall>t. fst (getTypeInfo E tc1 t (Some cfg)) = fst (getTypeInfo E tc2 t (Some cfg)))"

lemma same_info_refl [simp]: "same_info E cfg tc tc"
  by (simp add: same_info_def)

lemma same_info_sym: "same_info E cfg tc1 tc2 \<Longrightarrow> same_info E cfg tc2 tc1"
  by (simp add: same_info_def)

lemma same_info_trans: "same_info E cfg tc1 tc2 \<Longrightarrow> same_info E cfg tc2 tc3 \<Longrightarrow> same_info E cfg tc1 tc3"
  by (simp add: same_info_def)

lemma getTypeInfo_same:
  assumes "getTypeInfo E tc t (Some cfg) = (r, tc')"
  shows "same_info E cfg tc tc'"
proof -
  let ?key = "\<lambda>t. \<lparr>mk_typ = t, mk_tagName = cfg_tagName (Some cfg), mk_mapper = nm_code (cfg_mapper E (Some cfg))\<rparr>"
  let ?build = "\<lambda>t. buildTypeInfo E t (cfg_tagName (Some cfg)) (nm_fn (cfg_mapper E (Some cfg)))"
  have fst: "fst (getTypeInfo E tc0 t0 (Some cfg)) = (case tc0 (?key t0) of Some ti \<Rightarrow> Ok ti | None \<Rightarrow> ?build t0)" for tc0 t0
    by (simp add: getTypeInfo_def Let_def split: option.splits outcome.splits)
  have "tc' = tc \<or> (\<exists>ti. tc (?key t) = None \<and> ?build t = Ok ti \<and> tc' = tc(?key t \<mapsto> ti))"
  proof (cases "tc (?key t)")
    case None
    show ?thesis
    proof (cases "?build t")
      case (Ok ti)
      with assms None have "tc' = tc(?key t \<mapsto> ti)" by (simp add: getTypeInfo_def Let_def)
      with None Ok show ?thesis by blast
    qed (use assms None in \<open>simp_all add: getTypeInfo_def Let_def\<close>)
  next
    case (Some ti)
    with assms show ?thesis by (simp add: getTypeInfo_def Let_def)
  qed
  then show ?thesis
  proof
    assume "\<exists>ti. tc (?key t) = None \<and> ?build t = Ok ti \<and> tc' = tc(?key t \<mapsto> ti)"
    then obtain ti where ti: "tc (?key t) = None" "?build t = Ok ti" "tc' = tc(?key t \<mapsto> ti)" by blast
    have "fst (getTypeInfo E tc x (Some cfg)) = fst (getTypeInfo E tc' x (Some cfg))" for x
      by (cases "x = t") (simp_all add: fst ti)
    then show ?thesis by (simp add: same_info_def)
  qed simp
qed

lemma same_infoD:
  "same_info E cfg tc1 tc2 \<Longrightarrow> getTypeInfo E tc1 t (Some cfg) = (r1, tc1') \<Longrightarrow>
   getTypeInfo E tc2 t (Some cfg) = (r2, tc2') \<Longrightarrow> r1 = r2"
  by (metis fst_conv same_info_def)

section \<open>One row, from two sources with the same raw values\<close>

lemma scan_elem_tc: "scan_elem E cs cfg cc rs t d cols st = (d', r, st') \<Longrightarrow> same_info E cfg (ss_tc st) (ss_tc st')"
proof -
  have "same_info E cfg (ss_tc st) (ss_tc st')" if "scanStructRow E cs cfg cc rs t d cols st = (d', r, st')"
  proof -
    obtain ir tc where i: "getTypeInfo E (ss_tc st) t (Some cfg) = (ir, tc)" by fastforce
    with that have "ss_tc st' = tc" by (auto simp: scanStructRow_def Let_def split: outcome.splits if_splits prod.splits)
    with getTypeInfo_same [OF i] show ?thesis by simp
  qed
  moreover have "ss_tc st' = ss_tc st" if "scanMapRow E cs cfg rs t d0 cols st = (d', r, st')" for d0
    using that by (auto simp: scanMapRow_def Let_def split: outcome.splits if_splits)
  moreover have "ss_tc st' = ss_tc st" if "scanScalarRow E cs cfg rs t d cols st = (d', r, st')"
    using that by (auto simp: scanScalarRow_def split: outcome.splits if_splits prod.splits)
  ultimately show "scan_elem E cs cfg cc rs t d cols st = (d', r, st') \<Longrightarrow> same_info E cfg (ss_tc st) (ss_tc st')"
    unfolding scan_elem_def by (metis same_info_refl)
qed

lemma scanOneValue_tc:
  "scanOneValue E cs cfg cc rs t d cols st = (d', r, st') \<Longrightarrow> same_info E cfg (ss_tc st) (ss_tc st')"
  using scan_elem_tc unfolding scanOneValue_def by (fastforce split: if_splits prod.splits)

text \<open>The outcome without the state.\<close>

definition row_view :: "gdata \<times> unit outcome \<times> scan_state \<Rightarrow> gdata \<times> unit outcome" where
  "row_view x = (fst x, fst (snd x))"

lemma row_view_simp [simp]: "row_view (d, r, st) = (d, r)"
  by (simp add: row_view_def)

lemma scan_elem_sim:
  assumes "is_recorder rs1" "is_recorder rs2" "scanRawRow E cs rs1 (length cols) = scanRawRow E cs rs2 (length cols)"
    "same_info E cfg (ss_tc st1) (ss_tc st2)"
  shows "row_view (scan_elem E cs cfg cc rs1 t d cols st1) = row_view (scan_elem E cs cfg cc rs2 t d cols st2)"
proof -
  have "row_view (scanStructRow E cs cfg cc rs1 t d cols st1) = row_view (scanStructRow E cs cfg cc rs2 t d cols st2)"
  proof -
    obtain i1 tc1 i2 tc2 where i: "getTypeInfo E (ss_tc st1) t (Some cfg) = (i1, tc1)"
      "getTypeInfo E (ss_tc st2) t (Some cfg) = (i2, tc2)" by fastforce
    with same_infoD [OF assms(4) i] assms(1-3) show ?thesis
      by (simp add: scanStructRow_def Let_def split: prod.splits outcome.splits)
  qed
  moreover have "row_view (scanMapRow E cs cfg rs1 t d' cols st1) = row_view (scanMapRow E cs cfg rs2 t d' cols st2)" for d'
    using assms(3) by (simp add: scanMapRow_def Let_def split: outcome.splits)
  moreover have "row_view (scanScalarRow E cs cfg rs1 t d cols st1) = row_view (scanScalarRow E cs cfg rs2 t d cols st2)"
  proof (cases "length cols = 1")
    case True
    with assms have "scanRawRow E cs rs1 1 = scanRawRow E cs rs2 1" by simp
    then show ?thesis by (simp add: scanScalarRow_def split: prod.splits outcome.splits)
  qed (simp add: scanScalarRow_def)
  ultimately show ?thesis by (simp add: scan_elem_def)
qed

lemma scanOneValue_sim:
  assumes "is_recorder rs1" "is_recorder rs2" "scanRawRow E cs rs1 (length cols) = scanRawRow E cs rs2 (length cols)"
    "same_info E cfg (ss_tc st1) (ss_tc st2)"
  shows "row_view (scanOneValue E cs cfg cc rs1 t d cols st1) = row_view (scanOneValue E cs cfg cc rs2 t d cols st2)"
  using scan_elem_sim [OF assms, of cc t d] scan_elem_sim [OF assms, of cc "elem_type t" "new_zero E (elem_type t)"]
  by (simp add: scanOneValue_def row_view_def case_prod_unfold)

text \<open>A row that was scanned was recorded.\<close>

lemma scan_elem_records:
  assumes "scan_elem E cs cfg cc rs t d cols st = (d', Ok u, st')" "is_recorder rs"
  shows "\<exists>raw. scanRawRow E cs rs (length cols) = Ok raw \<and> ss_heap st' = rs_RecordRow rs raw (ss_heap st)"
proof -
  have "\<exists>raw. scanRawRow E cs rs (length cols) = Ok raw \<and> ss_heap st' = rs_RecordRow rs raw (ss_heap st)"
    if "scanStructRow E cs cfg cc rs t d cols st = (d', Ok u, st')"
    using that assms(2) by (auto simp: scanStructRow_def Let_def split: prod.splits outcome.splits)
  moreover have "\<exists>raw. scanRawRow E cs rs (length cols) = Ok raw \<and> ss_heap st' = rs_RecordRow rs raw (ss_heap st)"
    if "scanMapRow E cs cfg rs t d0 cols st = (d', Ok u, st')" for d0
    using that by (auto simp: scanMapRow_def Let_def split: if_splits outcome.splits)
  moreover have "\<exists>raw. scanRawRow E cs rs (length cols) = Ok raw \<and> ss_heap st' = rs_RecordRow rs raw (ss_heap st)"
    if "scanScalarRow E cs cfg rs t d cols st = (d', Ok u, st')"
    using that by (auto simp: scanScalarRow_def split: prod.splits if_splits outcome.splits)
  ultimately show ?thesis
    using assms(1) unfolding scan_elem_def by (auto split: if_splits)
qed

lemma scanOneValue_records:
  assumes "scanOneValue E cs cfg cc rs t d cols st = (d', Ok u, st')" "is_recorder rs"
  shows "\<exists>raw. scanRawRow E cs rs (length cols) = Ok raw \<and> ss_heap st' = rs_RecordRow rs raw (ss_heap st)"
  using assms scan_elem_records unfolding scanOneValue_def by (fastforce split: if_splits prod.splits)

section \<open>The loop\<close>

lemma scan_loop_count:
  "scan_loop E cs cfg cc et cols rs st out = (Ok out', rs', st') \<Longrightarrow>
   length out' = length out + rs_left rs \<and> rs_left rs' = 0 \<and> rs_Err rs' = None"
proof (induction "rs_left rs" arbitrary: rs st out rule: less_induct)
  case less
  obtain b rs1 where n: "rs_Next rs = (b, rs1)" by fastforce
  show ?case
  proof (cases b)
    case True
    then have left: "rs_left rs1 < rs_left rs" using n rs_Next_left by simp
    have one: "rs_left rs = Suc (rs_left rs1)"
      using n True by (induction rs arbitrary: rs1) (auto split: list.splits if_splits prod.splits)
    obtain d' r st1 where v: "scanOneValue E cs cfg cc rs1 et (new_zero E et) cols st = (d', r, st1)"
      by (metis prod_cases3)
    from less.prems n True v obtain u where "r = Ok u"
      and rest: "scan_loop E cs cfg cc et cols rs1 st1 (out @ [d']) = (Ok out', rs', st')"
      by (subst (asm) scan_loop.simps) (auto split: outcome.splits)
    from less.hyps [OF left rest] one show ?thesis by simp
  next
    case False
    with n less.prems have "out' = out" "rs' = rs1" "rs_Err rs1 = None"
      by (subst (asm) scan_loop.simps; auto split: option.splits)+
    moreover have "rs_left rs = 0 \<and> rs_left rs1 = 0"
      using n False by (induction rs arbitrary: rs1) (auto split: list.splits if_splits prod.splits)
    ultimately show ?thesis by simp
  qed
qed

section \<open>Replay\<close>

text \<open>The miss records the rows of the database, the hit replays them.\<close>

lemma recording_Next:
  "dr_rows r = drop i rows \<Longrightarrow>
   rs_Next (Recording (DBRows r) a) =
     (if i < length rows
      then (True, Recording (DBRows (r\<lparr>dr_cur := Some (rows ! i), dr_rows := drop (Suc i) rows\<rparr>)) a)
      else (False, Recording (DBRows (r\<lparr>dr_cur := None, dr_done := True\<rparr>)) a))"
  by (cases "i < length rows") (simp_all flip: Cons_nth_drop_Suc)

definition with_rows :: "rec_heap \<Rightarrow> nat \<Rightarrow> rvalue list list \<Rightarrow> rec_heap" where
  "with_rows h a rows = h(a := (h a)\<lparr>rec_rows := rec_rows (h a) @ rows\<rparr>)"

lemma with_rows_nil [simp]: "with_rows h a [] = h"
  by (simp add: with_rows_def)

lemma with_rows_append: "with_rows (with_rows h a xs) a ys = with_rows h a (xs @ ys)"
  by (simp add: with_rows_def)

lemma RecordRow_with_rows: "rs_RecordRow (Recording rs a) raw h = with_rows h a [raw]"
  by (simp add: with_rows_def RecordRow_def)

lemma row_sim:
  assumes "i < length rows" "length (rows ! i) = length cols" "dr_cur r = Some (rows ! i)" "same_info E cfg (ss_tc st1) (ss_tc st2)"
    "scanOneValue E cs cfg cc (Recording (DBRows r) a) t d cols st1 = (d1, r1, s1)"
    "scanOneValue E cs cfg cc (ValueRows cols' rows (Suc i)) t d cols st2 = (d2, r2, s2)"
  shows "d1 = d2 \<and> r1 = r2 \<and> same_info E cfg (ss_tc s1) (ss_tc s2)
    \<and> (r1 = Ok () \<longrightarrow> ss_heap s1 = with_rows (ss_heap st1) a [rows ! i])"
proof -
  have raw1: "scanRawRow E cs (Recording (DBRows r) a) (length cols) = Ok (rows ! i)"
    using scanRawRow_db [OF assms(3,2)] by (simp add: scanRawRow_recording)
  moreover have "scanRawRow E cs (ValueRows cols' rows (Suc i)) (length cols) = Ok (rows ! i)"
    by (rule scanRawRow_values [OF assms(2)])
  ultimately have "row_view (d1, r1, s1) = row_view (d2, r2, s2)"
    using scanOneValue_sim [of "Recording (DBRows r) a" "ValueRows cols' rows (Suc i)" E cs cols cfg st1 st2 cc t d]
      assms(4-6) by simp
  moreover have "ss_heap s1 = with_rows (ss_heap st1) a [rows ! i]" if "r1 = Ok ()"
    using scanOneValue_records [of E cs cfg cc "Recording (DBRows r) a" t d cols st1 d1 "()" s1] assms(5) that raw1
    by (auto simp: RecordRow_with_rows simp del: rs_RecordRow.simps)
  moreover have "same_info E cfg (ss_tc s1) (ss_tc s2)"
    using scanOneValue_tc [OF assms(5)] scanOneValue_tc [OF assms(6)] assms(4) same_info_sym same_info_trans by metis
  ultimately show ?thesis by simp
qed

lemma loop_sim:
  assumes "\<forall>row \<in> set rows. length row = length cols"
  shows "dr_rows r = drop i rows \<Longrightarrow> dr_err r = None \<Longrightarrow> same_info E cfg (ss_tc st1) (ss_tc st2) \<Longrightarrow>
    scan_loop E cs cfg cc et cols (Recording (DBRows r) a) st1 out = (o1, rs1, s1) \<Longrightarrow>
    scan_loop E cs cfg cc et cols (ValueRows cols' rows i) st2 out = (o2, rs2, s2) \<Longrightarrow>
    o1 = o2 \<and> same_info E cfg (ss_tc s1) (ss_tc s2) \<and> (is_ok o1 \<longrightarrow> ss_heap s1 = with_rows (ss_heap st1) a (drop i rows))
    \<and> rs_Close rs1 = dr_close r"
proof (induction "length rows - i" arbitrary: i r st1 st2 out)
  case 0
  then have i: "\<not> i < length rows" by simp
  with 0 show ?case
    by (simp add: scan_loop.simps recording_Next [OF "0.prems"(1)] del: rs_Next.simps(2)) auto
next
  case (Suc n)
  then have i: "i < length rows" by simp
  let ?r = "r\<lparr>dr_cur := Some (rows ! i), dr_rows := drop (Suc i) rows\<rparr>"
  obtain d1 r1 t1 where v1: "scanOneValue E cs cfg cc (Recording (DBRows ?r) a) et (new_zero E et) cols st1 = (d1, r1, t1)"
    by (metis prod_cases3)
  obtain d2 r2 t2 where v2: "scanOneValue E cs cfg cc (ValueRows cols' rows (Suc i)) et (new_zero E et) cols st2 = (d2, r2, t2)"
    by (metis prod_cases3)
  have row: "d1 = d2 \<and> r1 = r2 \<and> same_info E cfg (ss_tc t1) (ss_tc t2)
    \<and> (r1 = Ok () \<longrightarrow> ss_heap t1 = with_rows (ss_heap st1) a [rows ! i])"
    by (rule row_sim [OF i _ _ Suc.prems(3) v1 v2]) (use assms i in auto)
  note loop1 = Suc.prems(4) [unfolded scan_loop.simps [of E cs cfg cc et cols "Recording (DBRows r) a"]
      recording_Next [OF Suc.prems(1)]]
  note loop2 = Suc.prems(5) [unfolded scan_loop.simps [of E cs cfg cc et cols "ValueRows cols' rows i"]]
  show ?case
  proof (cases r1)
    case (Ok u)
    with loop1 i v1 have l1: "scan_loop E cs cfg cc et cols (Recording (DBRows ?r) a) t1 (out @ [d1]) = (o1, rs1, s1)"
      by simp
    from Ok row loop2 i v2 have l2: "scan_loop E cs cfg cc et cols (ValueRows cols' rows (Suc i)) t2 (out @ [d1]) = (o2, rs2, s2)"
      by simp
    have "n = length rows - Suc i" using Suc.hyps(2) by simp
    from Suc.hyps(1) [OF this _ _ _ l1 l2] Suc.prems(2) row
    have "o1 = o2 \<and> same_info E cfg (ss_tc s1) (ss_tc s2) \<and> (is_ok o1 \<longrightarrow> ss_heap s1 = with_rows (ss_heap t1) a (drop (Suc i) rows))
      \<and> rs_Close rs1 = dr_close r" by simp
    with row Ok i show ?thesis by (auto simp: with_rows_append Cons_nth_drop_Suc)
  qed (use loop1 loop2 i v1 v2 row in auto)
qed

lemma scanOne_sim:
  assumes "dr_cols r = Ok cols" "\<forall>row \<in> set (dr_rows r). length row = length cols" "dr_err r = None"
    "same_info E cfg (ss_tc st1) (ss_tc st2)"
    "scanOne E cs cfg cc (Recording (DBRows r) a) t d st1 = (Ok (), d1, rs1, s1)"
  shows "ss_heap s1 = with_rows ((ss_heap st1)(a := (ss_heap st1 a)\<lparr>rec_cols := cols\<rparr>)) a (take 1 (dr_rows r))
    \<and> (\<exists>rs2 s2. scanOne E cs cfg cc (newValueRows cols (take 1 (dr_rows r))) t d st2 = (Ok (), d1, rs2, s2) \<and> same_info E cfg (ss_tc s1) (ss_tc s2))
    \<and> rs_Close rs1 = dr_close r"
proof -
  let ?h = "(ss_heap st1)(a := (ss_heap st1 a)\<lparr>rec_cols := cols\<rparr>)"
  obtain row rest where rows: "dr_rows r = row # rest"
    using assms(1,3,5) by (cases "dr_rows r") (auto simp: scanOne_def)
  let ?r = "r\<lparr>dr_cur := Some row, dr_rows := rest\<rparr>"
  obtain e1 r1 t1 where v1: "scanOneValue E cs cfg cc (Recording (DBRows ?r) a) t d cols (st1\<lparr>ss_heap := ?h\<rparr>) = (e1, r1, t1)"
    by (metis prod_cases3)
  obtain e2 r2 t2 where v2: "scanOneValue E cs cfg cc (ValueRows cols [row] (Suc 0)) t d cols st2 = (e2, r2, t2)"
    by (metis prod_cases3)
  have sim: "e1 = e2 \<and> r1 = r2 \<and> same_info E cfg (ss_tc t1) (ss_tc t2) \<and> (r1 = Ok () \<longrightarrow> ss_heap t1 = with_rows ?h a [row])"
    using row_sim [OF _ _ _ _ v1 v2] assms(2,4) rows by simp
  from assms(1,3,5) rows v1 have "r1 = Ok ()" "d1 = e1" "s1 = t1" "rs1 = Recording (DBRows ?r) a"
    by (auto simp: scanOne_def split: outcome.splits)
  with sim v2 rows show ?thesis
    by (auto simp: scanOne_def newValueRows_def err_outcome_def)
qed

lemma scanSlice_sim:
  assumes "dr_cols r = Ok cols" "\<forall>row \<in> set (dr_rows r). length row = length cols" "dr_err r = None"
    "same_info E cfg (ss_tc st1) (ss_tc st2)"
    "scanSlice E cs cfg cc (Recording (DBRows r) a) t d st1 = (Ok (), d1, rs1, s1)"
  shows "ss_heap s1 = with_rows ((ss_heap st1)(a := (ss_heap st1 a)\<lparr>rec_cols := cols\<rparr>)) a (dr_rows r)
    \<and> (\<exists>rs2 s2. scanSlice E cs cfg cc (newValueRows cols (dr_rows r)) t d st2 = (Ok (), d1, rs2, s2) \<and> same_info E cfg (ss_tc s1) (ss_tc s2))
    \<and> rs_Close rs1 = dr_close r"
proof -
  let ?h = "(ss_heap st1)(a := (ss_heap st1 a)\<lparr>rec_cols := cols\<rparr>)"
  obtain o1 q1 t1 where l1: "scan_loop E cs cfg cc (elem_type t) cols (Recording (DBRows r) a) (st1\<lparr>ss_heap := ?h\<rparr>) [] = (o1, q1, t1)"
    by (metis prod_cases3)
  obtain o2 q2 t2 where l2: "scan_loop E cs cfg cc (elem_type t) cols (ValueRows cols (dr_rows r) 0) st2 [] = (o2, q2, t2)"
    by (metis prod_cases3)
  have sim: "o1 = o2 \<and> same_info E cfg (ss_tc t1) (ss_tc t2) \<and> (is_ok o1 \<longrightarrow> ss_heap t1 = with_rows ?h a (dr_rows r)) \<and> rs_Close q1 = dr_close r"
    using loop_sim [OF assms(2) _ assms(3) _ l1 l2] assms(4) by simp
  from assms(1,5) l1 obtain out where "o1 = Ok out" "d1 = mk_slice t out" "s1 = t1" "rs1 = q1"
    by (auto simp: scanSlice_def split: outcome.splits)
  with sim l2 show ?thesis
    by (auto simp: scanSlice_def newValueRows_def)
qed

definition read_rows_of :: "gtype \<Rightarrow> rvalue list list \<Rightarrow> rvalue list list" where
  "read_rows_of t rows = (if kind t = KSlice then rows else take 1 rows)"

lemma replay_sim:
  assumes "dr_cols r = Ok cols" "\<forall>row \<in> set (dr_rows r). length row = length cols" "dr_err r = None"
    "same_info E cfg (ss_tc st1) (ss_tc st2)"
    "scan_target E cs cfg cc (Recording (DBRows r) a) t d st1 = (Ok (), d1, rs1, s1)"
  shows "ss_heap s1 = with_rows ((ss_heap st1)(a := (ss_heap st1 a)\<lparr>rec_cols := cols\<rparr>)) a (read_rows_of t (dr_rows r))
    \<and> (\<exists>rs2 s2. scan_target E cs cfg cc (newValueRows cols (read_rows_of t (dr_rows r))) t d st2 = (Ok (), d1, rs2, s2)
          \<and> same_info E cfg (ss_tc s1) (ss_tc s2))
    \<and> rs_Close rs1 = dr_close r"
  using scanOne_sim [OF assms(1-4)] scanSlice_sim [OF assms(1-4)] assms(5)
  by (simp add: scan_target_def read_rows_of_def split: if_splits)

text \<open>C14: Replaying a recording gives what recording it gave. When the rows of the database, all as
  wide as the column list, were scanned without an error through the recording wrapper into a target of
  any type (slice, struct, map, pointer or scalar), the recorder holds the columns and the rows that
  were read, in order (all of them for a slice, the first for a single target), and scanning a replay
  source made from the recorder's content into a target of the same type succeeds with the same value.\<close>

theorem replay_equals_recording:
  assumes "dr_cols r = Ok cols" "\<forall>row \<in> set (dr_rows r). length row = length cols" "dr_err r = None"
    and "rec_rows (ss_heap st1 a) = []" "same_info E cfg (ss_tc st1) (ss_tc st2)"
    and "scan_target E cs cfg cc (Recording (DBRows r) a) t d st1 = (Ok (), d1, rs1, s1)"
  shows "rec_cols (ss_heap s1 a) = cols
    \<and> rec_rows (ss_heap s1 a) = (if kind t = KSlice then dr_rows r else take 1 (dr_rows r))
    \<and> (\<exists>rs2 s2. scan_target E cs cfg cc (newValueRows (rec_cols (ss_heap s1 a)) (rec_rows (ss_heap s1 a))) t d st2
          = (Ok (), d1, rs2, s2))"
proof -
  note sim = replay_sim [OF assms(1-3,5,6)]
  then have "rec_cols (ss_heap s1 a) = cols" "rec_rows (ss_heap s1 a) = read_rows_of t (dr_rows r)"
    using assms(4) by (simp_all add: with_rows_def)
  with sim show ?thesis by (auto simp: read_rows_of_def)
qed

text \<open>Two rows of one column, scanned into an \<open>[]int32\<close>.\<close>

definition scan_rows :: db_rows where
  "scan_rows =
     \<lparr>dr_cols = Ok [''n''], dr_rows = [[RV (TInt I64) (DInt 1)], [RV TString (DStr ''2'')]], dr_cur = None,
      dr_done = False, dr_err = None, dr_close = None\<rparr>"

definition demo_state :: scan_state where
  "demo_state = \<lparr>ss_heap = (\<lambda>_. \<lparr>rec_key = [], rec_ttl = 0, rec_cols = [], rec_rows = []\<rparr>), ss_tc = (\<lambda>_. None)\<rparr>"

definition scan_cfg :: "unit config" where
  "scan_cfg = defaultConfig (ge_unicode conv_demo)"

definition demo_cc :: call_config where
  "demo_cc = \<lparr>cc_strictMode = None\<rparr>"

definition demo_miss :: scan_result where
  "demo_miss = scan_target conv_demo (\<lambda>_. None) scan_cfg demo_cc (Recording (DBRows scan_rows) 7) (TSlice (TInt I32)) DNil demo_state"

lemma demo_miss_ok: "fst demo_miss = Ok () \<and> fst (snd demo_miss) = DSlice [DInt 1, DInt 2]"
  by code_simp

theorem replay_equals_recording_witness:
  "\<exists>rs st. scan_target conv_demo (\<lambda>_. None) scan_cfg demo_cc
      (newValueRows [''n''] [[RV (TInt I64) (DInt 1)], [RV TString (DStr ''2'')]]) (TSlice (TInt I32)) DNil demo_state
    = (Ok (), DSlice [DInt 1, DInt 2], rs, st)"
proof -
  obtain rs st where miss: "demo_miss = (Ok (), DSlice [DInt 1, DInt 2], rs, st)"
    using demo_miss_ok by (metis prod.collapse)
  have "dr_cols scan_rows = Ok [''n'']" "dr_err scan_rows = None"
    "dr_rows scan_rows = [[RV (TInt I64) (DInt 1)], [RV TString (DStr ''2'')]]"
    "rec_rows (ss_heap demo_state 7) = []"
    by (simp_all add: scan_rows_def demo_state_def)
  with replay_equals_recording [of scan_rows "[''n'']" demo_state 7 conv_demo scan_cfg demo_state "\<lambda>_. None" demo_cc
      "TSlice (TInt I32)" DNil "DSlice [DInt 1, DInt 2]" rs st, OF _ _ _ _ same_info_refl miss [unfolded demo_miss_def]]
  show ?thesis by auto
qed

section \<open>How many rows\<close>

lemma rs_Next_end: "rs_left rs = 0 \<longleftrightarrow> \<not> fst (rs_Next rs)"
  by (induction rs) (auto split: list.splits prod.splits)

text \<open>C38: A scan into a slice consumes the whole source: when it succeeds the slice has one element per
  row and no row is left, with no rows it is an empty slice and not nil, and when it fails the target
  keeps its content. A scan into a single target reads the first row only and, when there is none,
  leaves the target alone and returns the error of the source or \<open>sql.ErrNoRows\<close>.\<close>

theorem scan_row_counts:
  assumes "rs_Columns rs (ss_heap st) = (Ok cols, h)"
  shows "(\<forall>d' rs' st'. kind t = KSlice \<longrightarrow> scan_target E cs cfg cc rs t d st = (Ok (), d', rs', st') \<longrightarrow>
            rs_left rs' = 0 \<and> (\<exists>out. d' = mk_slice t out \<and> length out = rs_left rs))
    \<and> (\<forall>r d' rs' st'. kind t = KSlice \<longrightarrow> scan_target E cs cfg cc rs t d st = (r, d', rs', st') \<longrightarrow> r \<noteq> Ok () \<longrightarrow> d' = d)
    \<and> (kind t \<noteq> KSlice \<longrightarrow> fst (snd (snd (scan_target E cs cfg cc rs t d st))) = snd (rs_Next rs))
    \<and> (kind t \<noteq> KSlice \<longrightarrow> rs_left rs = 0 \<longrightarrow>
         scan_target E cs cfg cc rs t d st =
           (Err (case rs_Err (snd (rs_Next rs)) of Some e \<Rightarrow> e | None \<Rightarrow> ErrNoRows), d, snd (rs_Next rs), st\<lparr>ss_heap := h\<rparr>))"
proof (intro conjI allI impI)
  fix d' rs' st'
  assume "kind t = KSlice" "scan_target E cs cfg cc rs t d st = (Ok (), d', rs', st')"
  with assms obtain out where "scan_loop E cs cfg cc (elem_type t) cols rs (st\<lparr>ss_heap := h\<rparr>) [] = (Ok out, rs', st')"
    and "d' = mk_slice t out"
    by (auto simp: scan_target_def scanSlice_def split: prod.splits outcome.splits)
  with scan_loop_count [OF this(1)] show "rs_left rs' = 0" "\<exists>out. d' = mk_slice t out \<and> length out = rs_left rs"
    by auto
next
  fix r d' rs' st'
  assume "kind t = KSlice" "scan_target E cs cfg cc rs t d st = (r, d', rs', st')" "r \<noteq> Ok ()"
  with assms show "d' = d" by (auto simp: scan_target_def scanSlice_def split: prod.splits outcome.splits)
next
  assume "kind t \<noteq> KSlice"
  with assms show "fst (snd (snd (scan_target E cs cfg cc rs t d st))) = snd (rs_Next rs)"
    by (auto simp: scan_target_def scanOne_def split: prod.splits bool.splits outcome.splits)
next
  assume "kind t \<noteq> KSlice" "rs_left rs = 0"
  with assms rs_Next_end [of rs] show "scan_target E cs cfg cc rs t d st =
           (Err (case rs_Err (snd (rs_Next rs)) of Some e \<Rightarrow> e | None \<Rightarrow> ErrNoRows), d, snd (rs_Next rs), st\<lparr>ss_heap := h\<rparr>)"
    by (cases "rs_Next rs") (simp add: scan_target_def scanOne_def split: option.splits)
qed

theorem scan_row_counts_witness:
  "\<exists>out. mk_slice (TSlice (TInt I32)) out = DSlice [DInt 1, DInt 2] \<and> length out = 2"
proof -
  obtain rs st where miss: "demo_miss = (Ok (), DSlice [DInt 1, DInt 2], rs, st)"
    using demo_miss_ok by (metis prod.collapse)
  have cols: "rs_Columns (Recording (DBRows scan_rows) 7) (ss_heap demo_state)
      = (Ok [''n''], (ss_heap demo_state)(7 := (ss_heap demo_state 7)\<lparr>rec_cols := [''n'']\<rparr>))"
    by (simp add: scan_rows_def)
  have left: "rs_left (Recording (DBRows scan_rows) 7) = 2" by (simp add: scan_rows_def)
  show ?thesis
    using scan_row_counts [OF cols, of "TSlice (TInt I32)" conv_demo "\<lambda>_. None" scan_cfg demo_cc DNil]
      miss [unfolded demo_miss_def] left by force
qed

section \<open>Targets that are not handled as documented\<close>

lemma collect_no_fields: "0 < ge_depth E \<Longrightarrow> collectFields E (ge_depth E) [] 0 [] tname mapper ti = Ok ti"
  by (cases "ge_depth E") simp_all

lemma build_dests_skip:
  "lookupScan E empty_ti col = None \<Longrightarrow> build_dests E False empty_ti t d cols = Ok (map (\<lambda>_. DSkip) cols)"
  by (induction cols) (auto simp: lookupScan_def empty_ti_def)

lemma store_skip: "store_fast d (zip (map (\<lambda>_. DSkip) cols) ds) = d"
  by (induction cols arbitrary: ds) (simp, case_tac ds, auto)

lemma assign_skip: "assign_slow E cs cfg t d (zip (map (\<lambda>_. DSkip) cols) ds) = (d, Ok ())"
  by (induction cols arbitrary: ds) (simp, case_tac ds, auto)

text \<open>A \<open>time.Time\<close> target (\<open>Get[time.Time]\<close>) is treated as a struct without fields: whatever the
  row holds, the scan succeeds without strict mode and leaves the target as it was, so the result is
  the zero time and no error.\<close>

lemma scan_time_target_ignored:
  assumes "dr_cols r = Ok cols" "dr_rows r = row # rest" "length row = length cols" "\<not> dr_done r"
    and "\<not> effectiveStrict cfg cc" "0 < ge_depth E" "ss_tc st = (\<lambda>_. None)"
  shows "\<exists>st'. scan_target E cs cfg cc (DBRows r) TTime d st
      = (Ok (), d, DBRows (r\<lparr>dr_cur := Some row, dr_rows := rest\<rparr>), st')"
proof -
  have none: "lookupScan E empty_ti col = None" for col by (simp add: lookupScan_def empty_ti_def)
  have build: "buildTypeInfo E TTime tag m = Ok empty_ti" for tag m
    using collect_no_fields [OF assms(6), of tag m empty_ti] by (simp add: buildTypeInfo_def empty_ti_def)
  have slots: "map dest_slot (map (\<lambda>_. DSkip) cols) = replicate (length row) (TAny, DNil)"
    using assms(3) by (simp add: map_replicate_const o_def)
  have "rs_Scan E cs (DBRows (r\<lparr>dr_cur := Some row, dr_rows := rest\<rparr>)) (map dest_slot (map (\<lambda>_. DSkip) cols))
      = (map box row, Ok ())"
    using scan_cells_box [of "sql_assign E" row "length row", OF sql_assign_any] unfolding slots by simp
  then have "scan_direct E cs cfg False empty_ti (DBRows (r\<lparr>dr_cur := Some row, dr_rows := rest\<rparr>)) TTime d cols = (d, Ok ())"
    using build_dests_skip [OF none]
    by (simp add: scan_direct_def store_skip assign_skip)
  with assms build show ?thesis
    by (simp add: scan_target_def scanOne_def scanOneValue_def scan_elem_def scanStructRow_def getTypeInfo_def Let_def
        err_outcome_def)
qed

lemma scan_time_target_ignored_witness:
  "\<exists>rs st. scan_target conv_demo (\<lambda>_. None) scan_cfg demo_cc (DBRows scan_rows) TTime (DTime zero_time) demo_state
     = (Ok (), DTime zero_time, rs, st)"
  using scan_time_target_ignored [of scan_rows "[''n'']" "[RV (TInt I64) (DInt 1)]" "[[RV TString (DStr ''2'')]]"
      scan_cfg demo_cc conv_demo demo_state "\<lambda>_. None" "DTime zero_time"]
  by (simp add: scan_rows_def scan_cfg_def demo_cc_def defaultConfig_def effectiveStrict_def conv_demo_def demo_state_def) blast

definition embed_env :: conv_env where
  "embed_env = conv_demo\<lparr>ge_depth := 3,
     ge_fields := (\<lambda>n.
       if n = ''Outer'' then [\<lparr>sf_name = ''Inner'', sf_exported = True, sf_anon = True, sf_type = TPtr (TStruct ''Inner''),
                              sf_tags = [], sf_offset = 0\<rparr>]
       else if n = ''Inner'' then [\<lparr>sf_name = ''N'', sf_exported = True, sf_anon = False, sf_type = TInt I64,
                                   sf_tags = [(''db'', ''n'')], sf_offset = 0\<rparr>]
       else [])\<rparr>"

text \<open>The fields of an embedded pointer are matched by column, but the pointer of a fresh target is
  nil and never allocated: scanning a matching column panics, with and without a recorder.\<close>

lemma scan_embedded_pointer_panics:
  "fst (scan_target embed_env (\<lambda>_. None) scan_cfg demo_cc (DBRows scan_rows) (TStruct ''Outer'')
        (new_zero embed_env (TStruct ''Outer'')) demo_state) = Panic ''reflect.Value.Addr of unaddressable value''
   \<and> fst (scan_target embed_env (\<lambda>_. None) scan_cfg demo_cc (Recording (DBRows scan_rows) 7) (TSlice (TStruct ''Outer''))
        DNil demo_state) = Panic ''reflect.Value.Addr of unaddressable value''"
  by code_simp

definition null_env :: "(gtype \<Rightarrow> gdata \<Rightarrow> rvalue \<Rightarrow> gdata \<times> unit outcome) \<Rightarrow> conv_env" where
  "null_env put = conv_demo\<lparr>ge_depth := 3, ce_sql_assign := put,
     ge_fields := (\<lambda>n.
       if n = ''Row'' then [\<lparr>sf_name = ''N'', sf_exported = True, sf_anon = False, sf_type = TInt I64,
                            sf_tags = [(''db'', ''n'')], sf_offset = 0\<rparr>]
       else [])\<rparr>"

definition null_rows :: db_rows where
  "null_rows = scan_rows\<lparr>dr_rows := [[Invalid]]\<rparr>"

text \<open>NULL in a struct field of a basic type. By default (\<open>WithNullToZeroValue\<close>) it should give the
  zero value, and through the recorder of a cached query it does; without a recorder the field is
  scanned by \<open>database/sql\<close> directly, and when that rejects a NULL into an \<open>int64\<close>, as it documents,
  the scan of the same row into the same type fails with its error.\<close>

lemma scan_null_fast_path:
  assumes "\<And>d. put (TInt I64) d Invalid = (d, Err e)"
  shows "fst (scan_target (null_env put) (\<lambda>_. None) scan_cfg demo_cc (Recording (DBRows null_rows) 7) (TStruct ''Row'')
        (DStruct [DInt 0]) demo_state) = Ok ()
    \<and> fst (scan_target (null_env put) (\<lambda>_. None) scan_cfg demo_cc (DBRows null_rows) (TStruct ''Row'')
        (DStruct [DInt 0]) demo_state) = Err e
    \<and> nullToZero scan_cfg"
proof -
  have 1: "fst (scan_target (null_env put) (\<lambda>_. None) scan_cfg demo_cc (Recording (DBRows null_rows) 7) (TStruct ''Row'')
        (DStruct [DInt 0]) demo_state) = Ok ()"
    by code_simp
  have 2: "fst (scan_target (null_env put) (\<lambda>_. None) scan_cfg demo_cc (DBRows null_rows) (TStruct ''Row'')
        (DStruct [DInt 0]) demo_state) = Err e"
    by (code_simp, simp add: assms)
  show ?thesis using 1 2 by (simp add: scan_cfg_def defaultConfig_def)
qed

lemma scan_null_fast_path_witness:
  "fst (scan_target (null_env (\<lambda>t d v. (d, Err err_range))) (\<lambda>_. None) scan_cfg demo_cc (DBRows null_rows) (TStruct ''Row'')
        (DStruct [DInt 0]) demo_state) = Err err_range"
  using scan_null_fast_path [of "\<lambda>t d v. (d, Err err_range)" err_range] by simp

end
