(* ===== verification/CoreProps.thy ===== *)
theory CoreProps
  imports Tx ScanProps
begin

text \<open>
  Properties of the execution flow, for any plugins and any database: which hooks run, how often, in
  which order, and what they see of the database. The hooks are observed through a log that they keep
  in the world (\<open>traced\<close>).
\<close>

datatype 'd hook_event =
    EBefore string 'd
  | EAfter string 'd "goerr option"

text \<open>A plugin whose hooks log their call, with the database as it was then, and touch neither the
  database nor the error of the record. They may fail or panic, after the entry in the log.\<close>

definition traced :: "('x \<Rightarrow> 'd hook_event list) \<Rightarrow> ('d, 'x) plugin \<Rightarrow> bool" where
  "traced hl p =
     ((\<forall>ctx info w r info' w'. pl_Before p ctx info w = (r, info', w') \<longrightarrow>
         hl (w_ext w') = hl (w_ext w) @ [EBefore (pl_Name p) (w_db w)] \<and> w_db w' = w_db w \<and> ei_err info' = ei_err info)
      \<and> (\<forall>ctx info w r info' w'. pl_After p ctx info w = (r, info', w') \<longrightarrow>
         hl (w_ext w') = hl (w_ext w) @ [EAfter (pl_Name p) (w_db w) (ei_err info)] \<and> w_db w' = w_db w
         \<and> ei_err info' = ei_err info))"

lemma traced_Before:
  assumes "traced hl p" "pl_Before p ctx info w = (r, info', w')"
  shows "hl (w_ext w') = hl (w_ext w) @ [EBefore (pl_Name p) (w_db w)]" "w_db w' = w_db w" "ei_err info' = ei_err info"
  using assms unfolding traced_def by blast+

lemma traced_After:
  assumes "traced hl p" "pl_After p ctx info w = (r, info', w')"
  shows "hl (w_ext w') = hl (w_ext w) @ [EAfter (pl_Name p) (w_db w) (ei_err info)]" "w_db w' = w_db w"
    "ei_err info' = ei_err info"
  using assms unfolding traced_def by blast+

lemma report_simps [simp]: "w_ext (report cfg n e w) = w_ext w" "w_db (report cfg n e w) = w_db w"
  by (simp_all add: report_def)

lemma after_one_trace:
  assumes "traced hl p" "after_one cfg ctx p (info, w) = (info', w')"
  shows "hl (w_ext w') = hl (w_ext w) @ [EAfter (pl_Name p) (w_db w) (ei_err info)] \<and> w_db w' = w_db w
    \<and> ei_err info' = ei_err info"
proof -
  obtain r i v where a: "pl_After p ctx info w = (r, i, v)" by (metis prod_cases3)
  with assms(2) have "i = info'" "w_ext w' = w_ext v" "w_db w' = w_db v"
    by (cases r; auto simp: after_one_def)+
  with traced_After [OF assms(1) a] show ?thesis by simp
qed

lemma after_loop_trace:
  assumes "\<forall>p \<in> set ps. traced hl p"
  shows "n \<le> length ps \<Longrightarrow> after_loop cfg ctx ps n (info, w) = (info', w') \<Longrightarrow>
    hl (w_ext w') = hl (w_ext w) @ map (\<lambda>p. EAfter (pl_Name p) (w_db w) (ei_err info)) (rev (take n ps))
    \<and> w_db w' = w_db w \<and> ei_err info' = ei_err info"
proof (induction n arbitrary: info w)
  case (Suc n)
  obtain i1 w1 where one: "after_one cfg ctx (ps ! n) (info, w) = (i1, w1)" by fastforce
  have "traced hl (ps ! n)" using assms Suc.prems(1) by simp
  from after_one_trace [OF this one] Suc.IH [of i1 w1] Suc.prems one
  show ?case by (simp add: take_Suc_conv_app_nth)
qed simp

lemma runAfter_trace:
  assumes "\<forall>p \<in> set ps. traced hl p" "runAfter cfg ctx ps info w = (info', w')"
  shows "hl (w_ext w') = hl (w_ext w) @ map (\<lambda>p. EAfter (pl_Name p) (w_db w) (ei_err info)) (rev ps)
    \<and> w_db w' = w_db w \<and> ei_err info' = ei_err info"
  using after_loop_trace [OF assms(1), of "length ps" cfg ctx info w] assms(2) by (simp add: runAfter_def)

text \<open>\<open>Before\<close> hooks run in order up to the first that fails.\<close>

lemma runBefore_trace:
  assumes "\<forall>p \<in> set ps. traced hl p" "runBefore ps ctx info w = ((ctx', r), info', w')"
  shows "\<exists>n \<le> length ps. hl (w_ext w') = hl (w_ext w) @ map (\<lambda>p. EBefore (pl_Name p) (w_db w)) (take n ps)
    \<and> w_db w' = w_db w \<and> ei_err info' = ei_err info \<and> (r = Ok () \<longrightarrow> n = length ps)"
  using assms
proof (induction ps arbitrary: ctx info w)
  case (Cons p ps)
  obtain c1 r1 i1 w1 where b: "pl_Before p ctx info w = ((c1, r1), i1, w1)" by (metis surj_pair)
  have t: "traced hl p" using Cons.prems(1) by simp
  note tb = traced_Before [OF t b]
  show ?case
  proof (cases r1)
    case (Ok u)
    with b Cons.prems(2) have "runBefore ps c1 i1 w1 = ((ctx', r), info', w')" by simp
    with Cons.IH [of c1 i1 w1] Cons.prems(1) obtain n where n: "n \<le> length ps"
      "hl (w_ext w') = hl (w_ext w1) @ map (\<lambda>p. EBefore (pl_Name p) (w_db w1)) (take n ps)"
      "w_db w' = w_db w1" "ei_err info' = ei_err i1" "r = Ok () \<longrightarrow> n = length ps" by auto
    show ?thesis by (rule exI [of _ "Suc n"]) (use n tb in simp)
  next
    case (Err e)
    with b Cons.prems(2) have "w' = w1" "info' = i1" "r \<noteq> Ok ()" by auto
    with tb show ?thesis by (intro exI [of _ 1]) simp
  next
    case (Panic m)
    with b Cons.prems(2) have "w' = w1" "info' = i1" "r \<noteq> Ok ()" by auto
    with tb show ?thesis by (intro exI [of _ 1]) simp
  qed
qed simp

text \<open>The log of a whole operation: the \<open>Before\<close> hooks of the first \<open>n\<close> plugins on the database \<open>d\<close>,
  then every \<open>After\<close> hook in reverse on the database \<open>d'\<close>, with the error \<open>err\<close>.\<close>

definition op_log :: "('d, 'x) plugin list \<Rightarrow> nat \<Rightarrow> 'd \<Rightarrow> 'd \<Rightarrow> goerr option \<Rightarrow> 'd hook_event list" where
  "op_log ps n d d' err =
     map (\<lambda>p. EBefore (pl_Name p) d) (take n ps) @ map (\<lambda>p. EAfter (pl_Name p) d' err) (rev ps)"

text \<open>An outcome that stands for an error of the record: the same or a wrapped one.\<close>

definition outcome_of :: "goerr option \<Rightarrow> unit outcome \<Rightarrow> bool" where
  "outcome_of err r =
     (case err of
        None \<Rightarrow> r = Ok ()
      | Some e \<Rightarrow> (\<exists>w. r = Err w \<and> (\<forall>t. errors_is e t \<longrightarrow> errors_is w t)))"

lemma finish_op_trace:
  assumes "\<forall>p \<in> set ps. traced hl p" "finish_op R cfg ctx ps info query args err w = (r, w')"
  shows "hl (w_ext w') = hl (w_ext w) @ map (\<lambda>p. EAfter (pl_Name p) (w_db w) (ei_err info)) (rev ps)
    \<and> w_db w' = w_db w \<and> outcome_of err r"
proof -
  obtain i v where a: "runAfter cfg ctx ps info w = (i, v)" by fastforce
  with assms(2) have "w' = v" "r = err_outcome (wrapOpErr (cr_quote R) (ei_op i) query args err)"
    by (simp_all add: finish_op_def)
  with runAfter_trace [OF assms(1) a] show ?thesis
    by (auto simp: outcome_of_def err_outcome_def wrapOpErr_def split: option.splits)
qed

lemma fail_op_trace:
  assumes "\<forall>p \<in> set ps. traced hl p" "fail_op R cfg ctx ps info query args e w = (r, w')"
  shows "hl (w_ext w') = hl (w_ext w) @ map (\<lambda>p. EAfter (pl_Name p) (w_db w) (Some e)) (rev ps)
    \<and> w_db w' = w_db w \<and> outcome_of (Some e) r"
  using finish_op_trace [OF assms(1), of R cfg ctx "info\<lparr>ei_err := Some e\<rparr>" query args "Some e" w r w'] assms(2)
  by (simp add: fail_op_def)

lemma set_tc_simps [simp]:
  "w_ext (set_tc w tc) = w_ext w" "w_db (set_tc w tc) = w_db w" "w_reports (set_tc w tc) = w_reports w"
  by (simp_all add: set_tc_def)

lemma set_db_simps [simp]: "w_ext (set_db w d el) = w_ext w" "w_db (set_db w d el) = d" "w_reports (set_db w d el) = w_reports w"
  by (simp_all add: set_db_def)

lemma since_start_err [simp]: "ei_err (since_start info w) = ei_err info"
  by (simp add: since_start_def)

lemma prologue_trace:
  assumes "\<forall>p \<in> set (plugins cfg). traced hl p"
  shows "prologue R cfg ctx oper inTx query arg opts w = Inl (r, w') \<Longrightarrow> \<not> (\<exists>m. r = Panic m) \<Longrightarrow>
      \<exists>n \<le> length (plugins cfg). \<exists>e. hl (w_ext w') = hl (w_ext w) @ op_log (plugins cfg) n (w_db w) (w_db w) (Some e)
        \<and> w_db w' = w_db w \<and> outcome_of (Some e) r"
    and "prologue R cfg ctx oper inTx query arg opts w = Inr (ctx', info, w1, b) \<Longrightarrow>
      hl (w_ext w1) = hl (w_ext w) @ map (\<lambda>p. EBefore (pl_Name p) (w_db w)) (plugins cfg)
      \<and> w_db w1 = w_db w \<and> ei_err info = None
      \<and> fst (bindForExec (cr_conv R) (ss_tc (w_st w)) query arg cfg) = Ok b"
proof -
  let ?ps = "plugins cfg" and ?i0 = "newExecInfo oper query arg opts inTx (w_now w)"
  obtain br tc where bind: "bindForExec (cr_conv R) (ss_tc (w_st w)) query arg cfg = (br, tc)" by fastforce
  let ?i1 = "\<lambda>b. ?i0\<lparr>ei_boundSQL := bq_boundSQL b, ei_bindSQL := bq_bindSQL b,
                   ei_bindArgs := bq_bindArgs b, ei_boundArgs := bq_args b\<rparr>"
  have ps: "snd (begin_exec cfg) = ?ps" by (simp add: begin_exec_def)
  have e0: "ei_err (?i1 b) = None" for b by (simp add: newExecInfo_def)
  note un = prologue_def [of R cfg ctx oper inTx query arg opts w, unfolded ps Let_def bind prod.case]
  show "\<exists>n \<le> length ?ps. \<exists>e. hl (w_ext w') = hl (w_ext w) @ op_log ?ps n (w_db w) (w_db w) (Some e)
        \<and> w_db w' = w_db w \<and> outcome_of (Some e) r"
    if p: "prologue R cfg ctx oper inTx query arg opts w = Inl (r, w')" and np: "\<not> (\<exists>m. r = Panic m)"
  proof (cases br)
    case (Err e)
    with p un have "fail_op R cfg ctx ?ps ?i0 query [] e (set_tc w tc) = (r, w')" by simp
    from fail_op_trace [OF assms this] show ?thesis
      by (intro exI [of _ 0]) (auto simp: op_log_def)
  next
    case (Panic m)
    with p un np show ?thesis by auto
  next
    case (Ok b)
    obtain c1 r1 i1 w1 where bf: "runBefore ?ps ctx (?i1 b) (set_tc w tc) = ((c1, r1), i1, w1)" by (metis surj_pair)
    from runBefore_trace [OF assms bf] obtain n where n: "n \<le> length ?ps"
      "hl (w_ext w1) = hl (w_ext w) @ map (\<lambda>p. EBefore (pl_Name p) (w_db w)) (take n ?ps)" "w_db w1 = w_db w" by auto
    show ?thesis
    proof (cases r1)
      case (Err e)
      with p un Ok bf have "fail_op R cfg c1 ?ps i1 query (bq_args b) e w1 = (r, w')" by simp
      from fail_op_trace [OF assms this] n show ?thesis
        by (intro exI [of _ n]) (auto simp: op_log_def)
    qed (use p un Ok bf np in auto)
  qed
  show "hl (w_ext w1) = hl (w_ext w) @ map (\<lambda>p. EBefore (pl_Name p) (w_db w)) ?ps
      \<and> w_db w1 = w_db w \<and> ei_err info = None
      \<and> fst (bindForExec (cr_conv R) (ss_tc (w_st w)) query arg cfg) = Ok b"
    if p: "prologue R cfg ctx oper inTx query arg opts w = Inr (ctx', info, w1, b)"
  proof (cases br)
    case (Ok b')
    obtain c1 r1 i1 v1 where bf: "runBefore ?ps ctx (?i1 b') (set_tc w tc) = ((c1, r1), i1, v1)" by (metis surj_pair)
    from p un Ok bf have "r1 = Ok ()" "i1 = info" "v1 = w1" "b' = b" by (auto split: outcome.splits)
    with runBefore_trace [OF assms bf] e0 [of b'] bind Ok show ?thesis by auto
  qed (use p un in auto)
qed

section \<open>What is reported\<close>

text \<open>A plugin that also keeps the outcomes of its \<open>After\<close> hook in the world, under \<open>out\<close>, and leaves the
  reports alone. \<open>reported\<close> is what an outcome is reported as: nothing, its error, or an error that quotes
  the panic.\<close>

definition tells :: "('x \<Rightarrow> (string \<times> unit outcome) list) \<Rightarrow> ('d, 'x) plugin \<Rightarrow> bool" where
  "tells out p =
     ((\<forall>ctx info w r info' w'. pl_Before p ctx info w = (r, info', w') \<longrightarrow>
         out (w_ext w') = out (w_ext w) \<and> w_reports w' = w_reports w)
      \<and> (\<forall>ctx info w r info' w'. pl_After p ctx info w = (r, info', w') \<longrightarrow>
         out (w_ext w') = out (w_ext w) @ [(pl_Name p, r)] \<and> w_reports w' = w_reports w))"

fun reported :: "string \<times> unit outcome \<Rightarrow> (string \<times> goerr) list" where
  "reported (n, Ok u) = []"
| "reported (n, Err e) = [(n, e)]"
| "reported (n, Panic m) = [(n, ErrOther (''panic: '' @ m))]"

text \<open>From \<open>w\<close> to \<open>w'\<close> the \<open>After\<close> hooks of \<open>ps\<close> ran in this order, and what they failed with was reported
  when there is a handler.\<close>

definition reports_after ::
  "('x \<Rightarrow> (string \<times> unit outcome) list) \<Rightarrow> 'p config \<Rightarrow> ('d, 'x) plugin list \<Rightarrow> ('d, 'x) world \<Rightarrow> ('d, 'x) world \<Rightarrow> bool" where
  "reports_after out cfg ps w w' =
     (\<exists>rs. map fst rs = map pl_Name ps \<and> out (w_ext w') = out (w_ext w) @ rs
        \<and> w_reports w' = w_reports w @ (if pluginErrHandler cfg then concat (map reported rs) else []))"

lemma tells_Before:
  "tells out p \<Longrightarrow> pl_Before p ctx info w = (r, info', w') \<Longrightarrow> out (w_ext w') = out (w_ext w) \<and> w_reports w' = w_reports w"
  unfolding tells_def by blast

lemma reports_after_one:
  assumes "tells out p" "after_one cfg ctx p (info, w) = (info', w')"
  shows "reports_after out cfg [p] w w'"
proof -
  obtain r i v where a: "pl_After p ctx info w = (r, i, v)" by (metis prod_cases3)
  with assms(1) have "out (w_ext v) = out (w_ext w) @ [(pl_Name p, r)]" "w_reports v = w_reports w"
    unfolding tells_def by blast+
  with assms(2) a show ?thesis
    unfolding reports_after_def by (intro exI [of _ "[(pl_Name p, r)]"]) (cases r; auto simp: after_one_def report_def)
qed

lemma reports_after_trans:
  assumes "reports_after out cfg ps u v" "reports_after out cfg qs v w"
  shows "reports_after out cfg (ps @ qs) u w"
proof -
  from assms obtain rs rs' where
    "map fst rs = map pl_Name ps" "out (w_ext v) = out (w_ext u) @ rs"
    "w_reports v = w_reports u @ (if pluginErrHandler cfg then concat (map reported rs) else [])"
    "map fst rs' = map pl_Name qs" "out (w_ext w) = out (w_ext v) @ rs'"
    "w_reports w = w_reports v @ (if pluginErrHandler cfg then concat (map reported rs') else [])"
    unfolding reports_after_def by blast
  then show ?thesis unfolding reports_after_def by (intro exI [of _ "rs @ rs'"]) simp
qed

lemma reports_after_cong:
  "w_ext u = w_ext u' \<Longrightarrow> w_reports u = w_reports u' \<Longrightarrow> reports_after out cfg ps u w = reports_after out cfg ps u' w"
  by (simp add: reports_after_def)

lemma after_loop_reports:
  assumes "\<forall>p \<in> set ps. tells out p"
  shows "n \<le> length ps \<Longrightarrow> after_loop cfg ctx ps n (info, w) = (info', w') \<Longrightarrow> reports_after out cfg (rev (take n ps)) w w'"
proof (induction n arbitrary: info w)
  case (Suc n)
  obtain i1 w1 where one: "after_one cfg ctx (ps ! n) (info, w) = (i1, w1)" by fastforce
  have "tells out (ps ! n)" using assms Suc.prems(1) by simp
  from reports_after_trans [OF reports_after_one [OF this one]] Suc.IH [of i1 w1] Suc.prems one
  show ?case by (simp add: take_Suc_conv_app_nth)
qed (simp add: reports_after_def)

lemma runAfter_reports:
  "\<forall>p \<in> set ps. tells out p \<Longrightarrow> runAfter cfg ctx ps info w = (info', w') \<Longrightarrow> reports_after out cfg (rev ps) w w'"
  using after_loop_reports [of ps out "length ps" cfg ctx info w info' w'] by (simp add: runAfter_def)

lemma finish_op_reports:
  "\<forall>p \<in> set ps. tells out p \<Longrightarrow> finish_op R cfg ctx ps info query args err w = (r, w') \<Longrightarrow> reports_after out cfg (rev ps) w w'"
  using runAfter_reports by (fastforce simp: finish_op_def split: prod.splits)

lemma runBefore_silent:
  assumes "\<forall>p \<in> set ps. tells out p" "runBefore ps ctx info w = ((ctx', r), info', w')"
  shows "out (w_ext w') = out (w_ext w) \<and> w_reports w' = w_reports w"
  using assms
proof (induction ps arbitrary: ctx info w)
  case (Cons p ps)
  obtain c1 r1 i1 w1 where b: "pl_Before p ctx info w = ((c1, r1), i1, w1)" by (metis surj_pair)
  with tells_Before [of out p] Cons.prems(1) have "out (w_ext w1) = out (w_ext w) \<and> w_reports w1 = w_reports w" by simp
  with b Cons.IH [of c1 i1 w1] Cons.prems show ?case by (cases r1) auto
qed simp

lemma prologue_reports:
  assumes "\<forall>p \<in> set (plugins cfg). tells out p"
  shows "prologue R cfg ctx oper inTx query arg opts w = Inl (r, w') \<Longrightarrow> \<not> (\<exists>m. r = Panic m) \<Longrightarrow>
      reports_after out cfg (rev (plugins cfg)) w w'"
    and "prologue R cfg ctx oper inTx query arg opts w = Inr (ctx', info, w1, b) \<Longrightarrow>
      out (w_ext w1) = out (w_ext w) \<and> w_reports w1 = w_reports w"
proof -
  let ?ps = "plugins cfg" and ?i0 = "newExecInfo oper query arg opts inTx (w_now w)"
  obtain br tc where bind: "bindForExec (cr_conv R) (ss_tc (w_st w)) query arg cfg = (br, tc)" by fastforce
  let ?i1 = "\<lambda>b. ?i0\<lparr>ei_boundSQL := bq_boundSQL b, ei_bindSQL := bq_bindSQL b,
                   ei_bindArgs := bq_bindArgs b, ei_boundArgs := bq_args b\<rparr>"
  have ps: "snd (begin_exec cfg) = ?ps" by (simp add: begin_exec_def)
  note un = prologue_def [of R cfg ctx oper inTx query arg opts w, unfolded ps Let_def bind prod.case]
  have fail: "reports_after out cfg (rev ?ps) w w'"
    if "fail_op R cfg c ?ps i query as e v = (r, w')" "out (w_ext v) = out (w_ext w)" "w_reports v = w_reports w" for c i as e v
    using finish_op_reports [OF assms that(1) [unfolded fail_op_def]] that(2,3) by (simp add: reports_after_def)
  show "reports_after out cfg (rev ?ps) w w'"
    if p: "prologue R cfg ctx oper inTx query arg opts w = Inl (r, w')" and np: "\<not> (\<exists>m. r = Panic m)"
  proof (cases br)
    case (Err e)
    with p un fail show ?thesis by auto
  next
    case (Panic m)
    with p un np show ?thesis by auto
  next
    case (Ok b)
    obtain c1 r1 i1 w1 where bf: "runBefore ?ps ctx (?i1 b) (set_tc w tc) = ((c1, r1), i1, w1)" by (metis surj_pair)
    with p un Ok np obtain e where "fail_op R cfg c1 ?ps i1 query (bq_args b) e w1 = (r, w')" by (cases r1) auto
    from fail [OF this] runBefore_silent [OF assms bf] show ?thesis by simp
  qed
  show "out (w_ext w1) = out (w_ext w) \<and> w_reports w1 = w_reports w"
    if p: "prologue R cfg ctx oper inTx query arg opts w = Inr (ctx', info, w1, b)"
  proof (cases br)
    case (Ok b')
    obtain c1 r1 i1 v1 where bf: "runBefore ?ps ctx (?i1 b') (set_tc w tc) = ((c1, r1), i1, v1)" by (metis surj_pair)
    from p un Ok bf have "v1 = w1" by (auto split: outcome.splits)
    with runBefore_silent [OF assms bf] show ?thesis by simp
  qed (use p un in auto)
qed

section \<open>Exec\<close>

text \<open>C23: The hooks of an \<open>Exec\<close>. If it returns at all, the log grows by the \<open>Before\<close> hooks of the first
  \<open>n\<close> plugins in order, all on the database as it was, and then by exactly one \<open>After\<close> of every plugin,
  in reverse, whether or not its own \<open>Before\<close> ran, all with the final database and the same error;
  the returned outcome stands for that error. Either all \<open>Before\<close> hooks passed and the database
  executed the bound statement once, or there is an error, no result, and the database was not asked.
  Errors and panics of \<open>After\<close> hooks change none of this; they are reported, under the name of the plugin, in
  the order the hooks ran and nothing else is, when the configuration has a handler, and dropped otherwise
  (for plugins that keep the outcomes of their \<open>After\<close> hooks under \<open>out\<close> and leave the reports alone).\<close>

theorem execOp_hooks:
  assumes "\<forall>p \<in> set (plugins cfg). traced hl p"
    and "execOp R ex cfg ctx inTx query arg opts w = ((res, r), w')" "\<not> (\<exists>m. r = Panic m)"
  shows "\<exists>n \<le> length (plugins cfg). \<exists>err.
      hl (w_ext w') = hl (w_ext w) @ op_log (plugins cfg) n (w_db w) (w_db w') err \<and> outcome_of err r
      \<and> ((n = length (plugins cfg)
           \<and> (\<exists>b el. fst (bindForExec (cr_conv R) (ss_tc (w_st w)) query arg cfg) = Ok b
                \<and> ex_Exec ex (bq_boundSQL b) (bq_args b) (w_db w)
                    = ((res, case err of None \<Rightarrow> Ok () | Some e \<Rightarrow> Err e), el, w_db w')))
          \<or> (err \<noteq> None \<and> res = None \<and> w_db w' = w_db w))
      \<and> ((\<forall>p \<in> set (plugins cfg). tells out p) \<longrightarrow>
          (\<exists>rs. map fst rs = map pl_Name (rev (plugins cfg)) \<and> out (w_ext w') = out (w_ext w) @ rs
             \<and> w_reports w' = w_reports w @ (if pluginErrHandler cfg then concat (map reported rs) else [])))"
proof (cases "prologue R cfg ctx OpExec inTx query arg opts w")
  case (Inl x)
  with assms(2) have pr: "prologue R cfg ctx OpExec inTx query arg opts w = Inl (r, w')" "res = None"
    by (simp_all add: execOp_def split: prod.splits)
  have "reports_after out cfg (rev (plugins cfg)) w w'" if "\<forall>p \<in> set (plugins cfg). tells out p"
    by (rule prologue_reports(1) [OF that pr(1) assms(3)])
  with prologue_trace(1) [OF assms(1) pr(1) assms(3)] pr(2) show ?thesis
    unfolding reports_after_def by (metis option.distinct(1))
next
  case (Inr x)
  then obtain ctx' info w1 b where pr: "prologue R cfg ctx OpExec inTx query arg opts w = Inr (ctx', info, w1, b)"
    by (metis prod_cases4)
  note tr = prologue_trace(2) [OF assms(1) pr]
  obtain res' r0 el d where e: "ex_Exec ex (bq_boundSQL b) (bq_args b) (w_db w1) = ((res', r0), el, d)"
    by (metis surj_pair)
  let ?err = "case r0 of Err e \<Rightarrow> Some e | _ \<Rightarrow> None" and ?w2 = "set_db w1 d el"
  have np: "\<not> (\<exists>m. r0 = Panic m)" using assms(2,3) pr e by (auto simp: execOp_def)
  then have r0: "r0 = (case ?err of None \<Rightarrow> Ok () | Some e \<Rightarrow> Err e)" by (cases r0) auto
  from assms(2) pr e np have res: "res = res'" and fin:
    "finish_op R cfg ctx' (plugins cfg) (since_start (info\<lparr>ei_result := res', ei_err := ?err\<rparr>) ?w2) query (bq_args b) ?err ?w2 = (r, w')"
    by (cases r0; auto simp: execOp_def begin_exec_def Let_def split: prod.splits)+
  have "reports_after out cfg (rev (plugins cfg)) w w'" if "\<forall>p \<in> set (plugins cfg). tells out p"
    using finish_op_reports [OF that fin] prologue_reports(2) [OF that pr] by (simp add: reports_after_def)
  with finish_op_trace [OF assms(1) fin] tr e res r0 show ?thesis
    unfolding reports_after_def
    by (intro exI [of _ "length (plugins cfg)"] conjI exI [of _ ?err] disjI1 exI [of _ b] exI [of _ el])
      (auto simp: op_log_def)
qed

section \<open>Get and Select\<close>

lemma fetch_rows_trace:
  assumes "fetch_rows ex ctx info b w = (fr, w')"
  shows "w_ext w' = w_ext w \<and> (if ei_rows info = None
       then (\<exists>x el. ex_Query ex (bq_boundSQL b) (bq_args b) (w_db w) = (x, el, w_db w')) else w_db w' = w_db w)"
  using assms by (auto simp: fetch_rows_def split: option.splits prod.splits outcome.splits)

text \<open>The rest of \<open>mapOp\<close> after its rows are there: every \<open>After\<close> hook once, on that database.\<close>

lemma mapOp_rest_trace:
  assumes "\<forall>p \<in> set (plugins cfg). traced hl p"
    and "mapOp R ex cfg ctx oper inTx query arg opts t d0 w = ((d, r), w')" "\<not> (\<exists>m. r = Panic m)"
    and pr: "prologue R cfg ctx oper inTx query arg opts w = Inr (ctx', info, w1, b)"
    and f: "fetch_rows ex ctx' info b w1 = (fr, w2)" and e0: "ei_err info = None"
  shows "\<exists>err. hl (w_ext w') = hl (w_ext w2)
        @ map (\<lambda>p. EAfter (pl_Name p) (w_db w2) err) (rev (plugins cfg))
      \<and> w_db w' = w_db w2 \<and> outcome_of err r"
proof -
  let ?ps = "plugins cfg"
  have ps: "snd (begin_exec cfg) = ?ps" by (simp add: begin_exec_def)
  show ?thesis
  proof (cases fr)
    case (Err e)
    with assms(2) pr f ps have "fail_op R cfg ctx' ?ps (since_start info w2) query (bq_args b) e w2 = (r, w')"
      by (simp add: mapOp_def Let_def split: prod.splits)
    with fail_op_trace [OF assms(1) this] show ?thesis by blast
  next
    case (Panic m)
    with assms(2,3) pr f show ?thesis by (auto simp: mapOp_def Let_def)
  next
    case (Ok rows)
    obtain sr d1 rows' st where sc: "scan_target (cr_conv R) (cr_converters R) cfg (applyCallOptions opts) rows t d0 (w_st w2)
        = (sr, d1, rows', st)" by (metis prod_cases4)
    let ?w3 = "w2\<lparr>w_st := st\<rparr>" and ?err = "case sr of Err e \<Rightarrow> Some e | _ \<Rightarrow> rs_Close rows'"
    let ?info = "since_start (info\<lparr>ei_rows := Some rows'\<rparr>) ?w3"
    have np: "\<not> (\<exists>m. sr = Panic m)" using assms(2,3) pr f Ok sc by (auto simp: mapOp_def Let_def)
    show ?thesis
    proof (cases ?err)
      case None
      with np assms(2) pr f Ok sc ps have "r = Ok ()" "w' = snd (runAfter cfg ctx' ?ps ?info ?w3)"
        by (cases sr; simp add: mapOp_def Let_def)+
      moreover obtain i v where a: "runAfter cfg ctx' ?ps ?info ?w3 = (i, v)" by fastforce
      ultimately show ?thesis
        using runAfter_trace [OF assms(1) a] e0 by (intro exI [of _ None]) (simp add: outcome_of_def)
    next
      case (Some e)
      with np assms(2) pr f Ok sc ps have "fail_op R cfg ctx' ?ps ?info query (bq_args b) e ?w3 = (r, w')"
        by (cases sr) (auto simp: mapOp_def Let_def split: prod.splits)
      from fail_op_trace [OF assms(1) this] show ?thesis by auto
    qed
  qed
qed

text \<open>C13: The hooks of a \<open>Get\<close> or \<open>Select\<close> (\<open>mapOp\<close>). If it returns, the log grows as for \<open>Exec\<close>: the
  first \<open>n\<close> \<open>Before\<close> hooks, then one \<open>After\<close> of every plugin in reverse with the error that is returned.
  Either all \<open>Before\<close> hooks passed, and then the database was queried once with the bound statement,
  unless a hook supplied the rows, when it was not asked at all; or there is an error and neither the
  target nor the database changed.\<close>

theorem mapOp_hooks:
  assumes "\<forall>p \<in> set (plugins cfg). traced hl p"
    and "mapOp R ex cfg ctx oper inTx query arg opts t d0 w = ((d, r), w')" "\<not> (\<exists>m. r = Panic m)"
  shows "\<exists>n \<le> length (plugins cfg). \<exists>err.
      hl (w_ext w') = hl (w_ext w) @ op_log (plugins cfg) n (w_db w) (w_db w') err \<and> outcome_of err r
      \<and> ((n = length (plugins cfg)
           \<and> (\<exists>ctx' info w1 b. prologue R cfg ctx oper inTx query arg opts w = Inr (ctx', info, w1, b)
                \<and> (if ei_rows info = None
                   then (\<exists>x el. ex_Query ex (bq_boundSQL b) (bq_args b) (w_db w) = (x, el, w_db w'))
                   else w_db w' = w_db w)))
          \<or> (err \<noteq> None \<and> d = d0 \<and> w_db w' = w_db w))"
proof (cases "prologue R cfg ctx oper inTx query arg opts w")
  case (Inl x)
  with assms(2) have "prologue R cfg ctx oper inTx query arg opts w = Inl (r, w')" "d = d0"
    by (simp_all add: mapOp_def split: prod.splits)
  with prologue_trace(1) [OF assms(1) this(1) assms(3)] show ?thesis by (metis option.distinct(1))
next
  case (Inr x)
  then obtain ctx' info w1 b where pr: "prologue R cfg ctx oper inTx query arg opts w = Inr (ctx', info, w1, b)"
    by (metis prod_cases4)
  note tr = prologue_trace(2) [OF assms(1) pr]
  obtain fr w2 where f: "fetch_rows ex ctx' info b w1 = (fr, w2)" by fastforce
  note db = fetch_rows_trace [OF f]
  have "ei_err info = None" using tr by blast
  from mapOp_rest_trace [OF assms pr f this]
  obtain err where err: "hl (w_ext w') = hl (w_ext w2) @ map (\<lambda>p. EAfter (pl_Name p) (w_db w2) err) (rev (plugins cfg))"
    "w_db w' = w_db w2" "outcome_of err r" by blast
  with tr db pr show ?thesis
    by (intro exI [of _ "length (plugins cfg)"] conjI exI [of _ err] disjI1) (auto simp: op_log_def)
qed

section \<open>Query\<close>

fun close_times :: "nat \<Rightarrow> ('d, 'x) live_rows \<Rightarrow> ('d, 'x) world \<Rightarrow> ('d, 'x) live_rows \<times> ('d, 'x) world" where
  "close_times 0 l w = (l, w)"
| "close_times (Suc k) l w = (case live_Close l w of (e, l', w') \<Rightarrow> close_times k l' w')"

lemma live_Close_fired: "lr_fired l \<Longrightarrow> live_Close l w = (dr_close (lr_rows l), l, w)"
  by (cases l) (simp add: live_Close_def rows_Close_def)

lemma close_fired: "lr_fired l \<Longrightarrow> close_times k l w = (l, w)"
  by (induction k) (simp_all add: live_Close_fired)

lemma close_times_once:
  "\<not> lr_fired l \<Longrightarrow> close_times (Suc k) l w = (l\<lparr>lr_fired := True\<rparr>, lr_after l w)"
  by (simp add: live_Close_def rows_Close_def close_fired)

text \<open>C24: The hooks of a \<open>Query\<close>. When it returns rows only the \<open>Before\<close> hooks have run; the \<open>After\<close>
  hooks run, once each and in reverse, at the first \<open>Close\<close> of the rows, on the world of that moment,
  and no later \<open>Close\<close> runs them again. When it returns no rows it has run them like any other
  operation.\<close>

theorem queryOp_hooks:
  assumes "\<forall>p \<in> set (plugins cfg). traced hl p"
    and "queryOp R ex cfg ctx inTx query arg opts w = ((l, r), w')" "\<not> (\<exists>m. r = Panic m)"
  shows "(\<forall>rows. l = Some rows \<longrightarrow> r = Ok ()
            \<and> hl (w_ext w') = hl (w_ext w) @ map (\<lambda>p. EBefore (pl_Name p) (w_db w)) (plugins cfg)
            \<and> (\<forall>k v. hl (w_ext (snd (close_times (Suc k) rows v)))
                  = hl (w_ext v) @ map (\<lambda>p. EAfter (pl_Name p) (w_db v) None) (rev (plugins cfg))))
    \<and> (l = None \<longrightarrow> (\<exists>n \<le> length (plugins cfg). \<exists>e.
          hl (w_ext w') = hl (w_ext w) @ op_log (plugins cfg) n (w_db w) (w_db w') (Some e) \<and> outcome_of (Some e) r))"
proof (cases "prologue R cfg ctx OpQuery inTx query arg opts w")
  case (Inl x)
  with assms(2) have "prologue R cfg ctx OpQuery inTx query arg opts w = Inl (r, w')" "l = None"
    by (simp_all add: queryOp_def split: prod.splits)
  with prologue_trace(1) [OF assms(1) this(1) assms(3)] show ?thesis by (metis option.distinct(1))
next
  case (Inr x)
  then obtain ctx' info w1 b where pr: "prologue R cfg ctx OpQuery inTx query arg opts w = Inr (ctx', info, w1, b)"
    by (metis prod_cases4)
  note tr = prologue_trace(2) [OF assms(1) pr]
  let ?ps = "plugins cfg"
  have ps: "snd (begin_exec cfg) = ?ps" by (simp add: begin_exec_def)
  obtain q el d where e: "ex_Query ex (bq_boundSQL b) (bq_args b) (w_db w1) = (q, el, d)" by (metis prod_cases3)
  show ?thesis
  proof (cases q)
    case (Ok raw)
    let ?after = "\<lambda>v. snd (runAfter cfg ctx' ?ps (since_start info v) v)"
    from Ok e pr assms(2) ps have l: "l = Some \<lparr>lr_rows = raw, lr_after = ?after, lr_fired = False\<rparr>" "r = Ok ()"
      "w' = set_db w1 d el"
      by (auto simp: queryOp_def)
    have "hl (w_ext (?after v)) = hl (w_ext v) @ map (\<lambda>p. EAfter (pl_Name p) (w_db v) None) (rev ?ps)" for v
      using runAfter_trace [OF assms(1), of cfg ctx' "since_start info v" v] tr
      by (cases "runAfter cfg ctx' ?ps (since_start info v) v") simp
    with l tr show ?thesis by (simp add: close_times_once del: close_times.simps)
  next
    case (Err er)
    with e pr assms(2) ps have "fail_op R cfg ctx' ?ps (since_start info (set_db w1 d el)) query (bq_args b) er (set_db w1 d el) = (r, w')"
      "l = None"
      by (auto simp: queryOp_def Let_def split: prod.splits)
    with fail_op_trace [OF assms(1) this(1)] tr show ?thesis
      by (auto simp: op_log_def intro!: exI [of _ "length ?ps"])
  next
    case (Panic m)
    with e pr assms(2,3) show ?thesis by (auto simp: queryOp_def)
  qed
qed

section \<open>A run\<close>

text \<open>Two plugins over a database that counts the statements it is sent: \<open>a\<close> lets everything pass, \<open>b\<close>
  fails its \<open>Before\<close> when asked to, and panics in \<open>After\<close>.\<close>

definition demo_plugin :: "string \<Rightarrow> unit outcome \<Rightarrow> unit outcome \<Rightarrow> (nat, nat hook_event list) plugin" where
  "demo_plugin name before after =
     \<lparr>pl_Name = name,
      pl_Before = (\<lambda>ctx info w. ((ctx, before), info, w\<lparr>w_ext := w_ext w @ [EBefore name (w_db w)]\<rparr>)),
      pl_After = (\<lambda>ctx info w. (after, info, w\<lparr>w_ext := w_ext w @ [EAfter name (w_db w) (ei_err info)]\<rparr>))\<rparr>"

definition demo_chain :: "unit outcome \<Rightarrow> (nat, nat hook_event list) plugin config" where
  "demo_chain before =
     (defaultConfig (ge_unicode conv_demo))
       \<lparr>plugins := [demo_plugin ''a'' (Ok ()) (Ok ()), demo_plugin ''b'' before (Panic ''x'')], pluginErrHandler := True\<rparr>"

definition demo_core :: core_env where
  "demo_core = \<lparr>cr_conv = conv_demo, cr_converters = (\<lambda>_. None), cr_quote = (\<lambda>s. s)\<rparr>"

definition demo_executor :: "nat executor" where
  "demo_executor =
     \<lparr>ex_Exec = (\<lambda>q args d. ((Some (0, 1), Ok ()), 5, d + 1)),
      ex_Query = (\<lambda>q args d. (Ok scan_rows, 5, d + 1))\<rparr>"

definition demo_world :: "(nat, nat hook_event list) world" where
  "demo_world = \<lparr>w_db = 0, w_now = 100, w_st = demo_state, w_reports = [], w_ext = []\<rparr>"

lemma demo_traced: "\<forall>p \<in> set (plugins (demo_chain before)). traced (\<lambda>x. x) p"
  by (auto simp: demo_chain_def demo_plugin_def traced_def)

definition demo_exec_run where
  "demo_exec_run before = execOp demo_core demo_executor (demo_chain before) background False ''DELETE'' Invalid [] demo_world"

definition demo_get_run where
  "demo_get_run before = mapOp demo_core demo_executor (demo_chain before) background OpGet False ''SELECT'' Invalid []
     (TInt I32) (DInt 0) demo_world"

definition demo_query_run where
  "demo_query_run before = queryOp demo_core demo_executor (demo_chain before) background False ''SELECT'' Invalid [] demo_world"

lemma demo_runs:
  "fst (demo_exec_run (Ok ())) = (Some (0, 1), Ok ())" "is_ok (snd (fst (demo_get_run (Ok ()))))"
  "snd (fst (demo_query_run (Ok ()))) = Ok ()"
  by code_simp+

text \<open>The outcomes of the two \<open>After\<close> hooks can be read off their log.\<close>

fun demo_out :: "nat hook_event list \<Rightarrow> (string \<times> unit outcome) list" where
  "demo_out [] = []"
| "demo_out (EBefore n d # es) = demo_out es"
| "demo_out (EAfter n d e # es) = (n, if n = ''a'' then Ok () else Panic ''x'') # demo_out es"

lemma demo_out_append: "demo_out (es @ fs) = demo_out es @ demo_out fs"
  by (induction es rule: demo_out.induct) simp_all

lemma demo_tells: "\<forall>p \<in> set (plugins (demo_chain before)). tells demo_out p"
  by (auto simp: demo_chain_def demo_plugin_def tells_def demo_out_append)

theorem execOp_hooks_witness:
  "(\<exists>n err. w_ext (snd (demo_exec_run (Ok ())))
      = op_log (plugins (demo_chain (Ok ()))) n 0 (w_db (snd (demo_exec_run (Ok ())))) err \<and> n \<le> 2)
   \<and> w_reports (snd (demo_exec_run (Ok ()))) = [(''b'', ErrOther ''panic: x'')]"
proof -
  let ?w = "snd (demo_exec_run (Ok ()))"
  have run: "demo_exec_run (Ok ()) = ((Some (0, 1), Ok ()), ?w)"
    using demo_runs(1) by (metis prod.collapse)
  have len: "length (plugins (demo_chain (Ok ()))) = 2" by (simp add: demo_chain_def)
  have told: "demo_out (w_ext ?w) = [(''b'', Panic ''x''), (''a'', Ok ())]" by code_simp
  have start: "w_ext demo_world = []" "w_reports demo_world = []" "w_db demo_world = 0" "pluginErrHandler (demo_chain (Ok ()))"
    by (simp_all add: demo_world_def demo_chain_def)
  let ?c = "demo_chain (Ok ())"
  from execOp_hooks [OF demo_traced run [unfolded demo_exec_run_def], folded demo_exec_run_def, of demo_out] demo_tells
  obtain n err rs where o: "n \<le> length (plugins ?c)"
    "w_ext ?w = w_ext demo_world @ op_log (plugins ?c) n (w_db demo_world) (w_db ?w) err"
    "demo_out (w_ext ?w) = demo_out (w_ext demo_world) @ rs"
    "w_reports ?w = w_reports demo_world @ (if pluginErrHandler ?c then concat (map reported rs) else [])"
    by blast
  have rs: "rs = [(''b'', Panic ''x''), (''a'', Ok ())]" using o(3) told by (metis append_Nil demo_out.simps(1) start(1))
  have "w_reports ?w = [(''b'', ErrOther ''panic: x'')]" using o(4) by (simp add: start rs)
  moreover have "n \<le> 2 \<and> w_ext ?w = op_log (plugins ?c) n 0 (w_db ?w) err" using o(1,2) by (simp add: start len)
  ultimately show ?thesis by blast
qed

theorem mapOp_hooks_witness:
  "\<exists>n err. w_ext (snd (demo_get_run (Ok ())))
      = op_log (plugins (demo_chain (Ok ()))) n 0 (w_db (snd (demo_get_run (Ok ())))) err \<and> n \<le> 2"
proof -
  have "snd (fst (demo_get_run (Ok ()))) = Ok ()"
    using demo_runs(2) by (cases "snd (fst (demo_get_run (Ok ())))") auto
  then obtain d where run: "demo_get_run (Ok ()) = ((d, Ok ()), snd (demo_get_run (Ok ())))"
    by (metis prod.collapse)
  have len: "length (plugins (demo_chain (Ok ()))) = 2" by (simp add: demo_chain_def)
  show ?thesis
    using mapOp_hooks [OF demo_traced run [unfolded demo_get_run_def]]
    unfolding len demo_get_run_def by (fastforce simp: demo_world_def)
qed

theorem queryOp_hooks_witness:
  "\<exists>rows. fst (fst (demo_query_run (Ok ()))) = Some rows
     \<and> w_ext (snd (close_times 3 rows (snd (demo_query_run (Ok ())))))
       = w_ext (snd (demo_query_run (Ok ())))
         @ map (\<lambda>p. EAfter (pl_Name p) (w_db (snd (demo_query_run (Ok ())))) None) (rev (plugins (demo_chain (Ok ()))))"
proof -
  have some: "fst (fst (demo_query_run (Ok ()))) \<noteq> None" by code_simp
  then obtain rows where rows: "fst (fst (demo_query_run (Ok ()))) = Some rows" by blast
  with demo_runs(3) have run: "demo_query_run (Ok ()) = ((Some rows, Ok ()), snd (demo_query_run (Ok ())))"
    by (metis prod.collapse)
  have "\<forall>k v. w_ext (snd (close_times (Suc k) rows v))
                  = w_ext v @ map (\<lambda>p. EAfter (pl_Name p) (w_db v) None) (rev (plugins (demo_chain (Ok ()))))"
    using queryOp_hooks [OF demo_traced run [unfolded demo_query_run_def]] by blast
  from spec [OF spec [OF this, of 2], of "snd (demo_query_run (Ok ()))"] rows show ?thesis
    by (simp only: numeral_3_eq_3 numeral_2_eq_2) blast
qed

end
