(* ===== verification/CachePlugin.thy ===== *)
theory CachePlugin
  imports CacheStore CoreProps
begin

text \<open>
  The cache plugin plugged into the execution flow of \<^verbatim>\<open>core.go\<close>. \<open>Before\<close> and \<open>After\<close> are those of
  \<^verbatim>\<open>cache/cache.go\<close>, on the store and the flight kept in the world; \<open>Before\<close> runs alone here, one
  goroutine calling, so a \<open>wait\<close> that blocks never returns (the runtime reports a deadlock). A miss
  allocates the recorder, hands its address down in the context and wraps the rows.
\<close>

section \<open>The plugin\<close>

record 's cache_world =
  cw_store :: 's
  cw_flight :: flight
  cw_next :: nat

text \<open>\<open>Before\<close>, run until it returns, panics or blocks.\<close>

fun before_run ::
  "nat \<Rightarrow> cache_config \<Rightarrow> 's store \<Rightarrow> int \<Rightarrow> before_pc \<Rightarrow> 's \<Rightarrow> flight \<Rightarrow> before_pc \<times> 's \<times> flight" where
  "before_run 0 c ops now p s f = (p, s, f)"
| "before_run (Suc n) c ops now p s f =
     (case before_step c ops now p s f of
        None \<Rightarrow> (p, s, f)
      | Some (p', s', f') \<Rightarrow> before_run n c ops now p' s' f')"

definition deadlock :: string where
  "deadlock = ''all goroutines are asleep - deadlock!''"

text \<open>\<open>context.WithValue\<close> and \<open>WithRowWrapper\<close> for a miss.\<close>

definition miss_ctx :: "go_ctx \<Rightarrow> nat \<Rightarrow> go_ctx" where
  "miss_ctx ctx a = WithRowWrapper (ctx\<lparr>cx_recorder := Some a\<rparr>) (\<lambda>rs. Recording rs a)"

definition new_recorder :: "string \<Rightarrow> int \<Rightarrow> recorder" where
  "new_recorder k ttl = \<lparr>rec_key = k, rec_ttl = ttl, rec_cols = [], rec_rows = []\<rparr>"

definition cache_Before ::
  "hash_env \<Rightarrow> cache_config \<Rightarrow> 's store \<Rightarrow> go_ctx \<Rightarrow> info \<Rightarrow> ('d, 's cache_world) world
   \<Rightarrow> (go_ctx \<times> unit outcome) \<times> info \<times> ('d, 's cache_world) world" where
  "cache_Before H c ops ctx info w =
     (let x = w_ext w in
      case before_run 3 c ops (w_now w) (before_start H c info) (cw_store x) (cw_flight x) of
        (p, s', f') \<Rightarrow>
          (let w' = w\<lparr>w_ext := x\<lparr>cw_store := s', cw_flight := f'\<rparr>\<rparr> in
           case p of
             BDone Unchanged \<Rightarrow> ((ctx, Ok ()), info, w')
           | BDone (Hit k rd) \<Rightarrow> ((ctx, Ok ()), info\<lparr>ei_rows := Some (Cached rd 0)\<rparr>, w')
           | BDone (Miss k ttl) \<Rightarrow>
               (let a = cw_next x in
                ((miss_ctx ctx a, Ok ()), info,
                 w'\<lparr>w_ext := (w_ext w')\<lparr>cw_next := a + 1\<rparr>,
                    w_st := (w_st w')\<lparr>ss_heap := (ss_heap (w_st w'))(a := new_recorder k ttl)\<rparr>\<rparr>))
           | BPanic m \<Rightarrow> ((ctx, Panic m), info, w')
           | _ \<Rightarrow> ((ctx, Panic deadlock), info, w')))"

definition cache_After ::
  "cache_config \<Rightarrow> 's store \<Rightarrow> go_ctx \<Rightarrow> info \<Rightarrow> ('d, 's cache_world) world
   \<Rightarrow> unit outcome \<times> info \<times> ('d, 's cache_world) world" where
  "cache_After c ops ctx info w =
     (let x = w_ext w in
      case After c ops (w_now w) info (map_option (ss_heap (w_st w)) (cx_recorder ctx)) (cw_store x) (cw_flight x) of
        (r, s', f') \<Rightarrow> (r, info, w\<lparr>w_ext := x\<lparr>cw_store := s', cw_flight := f'\<rparr>\<rparr>))"

definition cache_plugin :: "hash_env \<Rightarrow> cache_config \<Rightarrow> 's store \<Rightarrow> ('d, 's cache_world) plugin" where
  "cache_plugin H c ops =
     \<lparr>pl_Name = ''cache'', pl_Before = cache_Before H c ops, pl_After = cache_After c ops\<rparr>"

text \<open>Three steps are enough: \<open>Before\<close> has then returned, panicked or blocked.\<close>

lemma before_run_more:
  "before_run 3 c ops now p s f = (case before_step c ops now p s f of
        None \<Rightarrow> (p, s, f) | Some (p', s', f') \<Rightarrow> before_run 2 c ops now p' s' f')"
  "before_run 2 c ops now p s f = (case before_step c ops now p s f of
        None \<Rightarrow> (p, s, f) | Some (p', s', f') \<Rightarrow> before_run 1 c ops now p' s' f')"
  "before_run n c ops now (BDone r) s f = (BDone r, s, f)"
  unfolding numeral_3_eq_3 numeral_2_eq_2 One_nat_def by (simp_all, cases n, simp_all)

lemma before_start_shape:
  "before_start H c info = BDone Unchanged \<or> (\<exists>k ttl. before_start H c info = BAcquire k ttl)
   \<or> (\<exists>k ttl. before_start H c info = BPlain k ttl)"
  by (simp add: before_start_def Let_def)

lemma before_run_ends:
  assumes "fl_wf f" "before_run 3 c ops now (before_start H c info) s f = (p, s', f')"
  shows "before_step c ops now p s' f' = None \<and> ((\<exists>r. p = BDone r) \<or> (\<exists>m. p = BPanic m) \<or> (\<exists>k ttl ch. p = BWait k ttl ch))"
proof -
  consider "before_start H c info = BDone Unchanged" | k ttl where "before_start H c info = BAcquire k ttl"
    | k ttl where "before_start H c info = BPlain k ttl"
    using before_start_shape [of H c info] by blast
  then show ?thesis
  proof cases
    case 2
    show ?thesis
    proof (cases "fl_calls f k")
      case None
      with 2 assms(2) show ?thesis
        by (auto simp: before_run_more acquire_def split: prod.splits outcome.splits option.splits)
    next
      case (Some ch)
      with fl_wfD [OF assms(1) Some] 2 assms(2) show ?thesis by (auto simp: before_run_more acquire_def)
    qed
  next
    case 1
    show ?thesis using assms(2) unfolding 1 by (auto simp: before_run_more)
  next
    case 3
    show ?thesis using assms(2) unfolding 3
      by (auto simp: before_run_more split: prod.splits outcome.splits option.splits)
  qed
qed

section \<open>Examples\<close>

definition plug_cfg :: "(nat, mem_store cache_world) plugin config" where
  "plug_cfg = (defaultConfig (ge_unicode conv_demo))
     \<lparr>plugins := [cache_plugin store_hash (bin_cfg 1000 store_cfg) (mem_ops lru_keys)]\<rparr>"

definition plug_world :: "(nat, mem_store cache_world) world" where
  "plug_world = \<lparr>w_db = 0, w_now = 100, w_st = demo_state, w_reports = [],
     w_ext = \<lparr>cw_store = NewMemoryStore 0 0, cw_flight = new_flight, cw_next = 0\<rparr>\<rparr>"

definition plug_get where
  "plug_get = getOp demo_core demo_executor plug_cfg background False ''SELECT n'' Invalid [WithCache] (TInt I32)"

definition plug_select where
  "plug_select = selectOp demo_core demo_executor plug_cfg background False ''SELECT n'' Invalid [WithCache] (TInt I32)"

text \<open>The cache key holds the namespace, the statement and the arguments, but not the operation. A \<open>Get\<close>
  records the single row it reads; a \<open>Select\<close> of the same statement then hits that entry and returns one
  row where the database has two.\<close>

lemma get_then_select:
  "fst (plug_select plug_world) = (DSlice [DInt 1, DInt 2], Ok ())
   \<and> fst (plug_get plug_world) = (DInt 1, Ok ())
   \<and> fst (plug_select (snd (plug_get plug_world))) = (DSlice [DInt 1], Ok ())"
  by code_simp

definition embed_core :: core_env where
  "embed_core = demo_core\<lparr>cr_conv := embed_env\<rparr>"

end
