(* ===== verification/BindAgree.thy ===== *)
theory BindAgree
  imports ScanProps Bind
begin

text \<open>
  Binding and the type cache: under one configuration the answer does not depend on what the cache
  holds (two caches that answer alike give the same bound query), and binding leaves a cache that
  answers as before. The same for a whole scan.
\<close>

section \<open>Two caches that answer alike\<close>

definition agree :: "'e genv_scheme \<Rightarrow> 'p config \<Rightarrow> 'a \<times> type_cache \<Rightarrow> 'a \<times> type_cache \<Rightarrow> bool" where
  "agree E cfg x y = (fst x = fst y \<and> same_info E cfg (snd x) (snd y))"

lemma agree_pair [simp]: "agree E cfg (a, tc1) (b, tc2) \<longleftrightarrow> a = b \<and> same_info E cfg tc1 tc2"
  by (simp add: agree_def)

lemma getTypeInfo_agree:
  assumes "same_info E cfg tc1 tc2"
  shows "agree E cfg (getTypeInfo E tc1 t (Some cfg)) (getTypeInfo E tc2 t (Some cfg))"
proof -
  obtain r1 t1 r2 t2 where g: "getTypeInfo E tc1 t (Some cfg) = (r1, t1)" "getTypeInfo E tc2 t (Some cfg) = (r2, t2)"
    by fastforce
  have "same_info E cfg t1 t2"
    using getTypeInfo_same [OF g(1)] getTypeInfo_same [OF g(2)] assms by (meson same_info_sym same_info_trans)
  with same_infoD [OF assms g] g show ?thesis by simp
qed

lemma bindNamed_agree:
  assumes "same_info E cfg tc1 tc2"
  shows "agree E cfg (bindNamed E tc1 q arg (Some cfg)) (bindNamed E tc2 q arg (Some cfg))"
proof -
  have "agree E cfg
      (case getTypeInfo E tc1 t (Some cfg) of (Ok ti, tc') \<Rightarrow> (bind_loop E rv (Some ti) (Some cfg) q 0 ps, tc')
        | (Err e, tc') \<Rightarrow> (Err e, tc') | (Panic m, tc') \<Rightarrow> (Panic m, tc'))
      (case getTypeInfo E tc2 t (Some cfg) of (Ok ti, tc') \<Rightarrow> (bind_loop E rv (Some ti) (Some cfg) q 0 ps, tc')
        | (Err e, tc') \<Rightarrow> (Err e, tc') | (Panic m, tc') \<Rightarrow> (Panic m, tc'))" for t rv ps
    using getTypeInfo_agree [OF assms, of t] by (auto split: prod.splits outcome.splits)
  then show ?thesis
    using assms by (simp add: bindNamed_def Let_def split: outcome.split rvalue.split)
qed

lemma resolve_objs_agree:
  "same_info E cfg tc1 tc2 \<Longrightarrow> agree E cfg (resolve_objs E tc1 (Some cfg) ti args) (resolve_objs E tc2 (Some cfg) ti args)"
proof (induction args arbitrary: tc1 tc2 ti)
  case (Cons a args)
  have sub: "agree E cfg (case resolve_objs E tc1 (Some cfg) ti args of (r, tc') \<Rightarrow> (f r, tc'))
     (case resolve_objs E tc2 (Some cfg) ti args of (r, tc') \<Rightarrow> (f r, tc'))" if "same_info E cfg tc1 tc2"
    for tc1 tc2 ti and f :: "(rvalue list \<times> type_info option) outcome \<Rightarrow> (rvalue list \<times> type_info option) outcome"
    using Cons.IH [OF that, of ti] by (auto split: prod.splits)
  have info: "agree E cfg
      (case getTypeInfo E tc1 t (Some cfg) of
          (Ok info, tc') \<Rightarrow> (case resolve_objs E tc' (Some cfg) (Some info) args of (r, tc'') \<Rightarrow> (f r, tc''))
        | (Err e, tc') \<Rightarrow> (Err e, tc') | (Panic m, tc') \<Rightarrow> (Panic m, tc'))
      (case getTypeInfo E tc2 t (Some cfg) of
          (Ok info, tc') \<Rightarrow> (case resolve_objs E tc' (Some cfg) (Some info) args of (r, tc'') \<Rightarrow> (f r, tc''))
        | (Err e, tc') \<Rightarrow> (Err e, tc') | (Panic m, tc') \<Rightarrow> (Panic m, tc'))"
    for t and f :: "(rvalue list \<times> type_info option) outcome \<Rightarrow> (rvalue list \<times> type_info option) outcome"
  proof -
    obtain r1 t1 r2 t2 where g: "getTypeInfo E tc1 t (Some cfg) = (r1, t1)" "getTypeInfo E tc2 t (Some cfg) = (r2, t2)"
      by fastforce
    with getTypeInfo_agree [OF Cons.prems, of t] have r: "r1 = r2" and same: "same_info E cfg t1 t2" by simp_all
    show ?thesis unfolding g r using sub [OF same, of f] same by (cases r2) simp_all
  qed
  note sub1 = sub [OF Cons.prems]
  show ?case using Cons.prems sub1 info by (cases ti) (simp_all split: outcome.split rvalue.split)
qed simp

lemma bindNamedMany_agree:
  assumes "same_info E cfg tc1 tc2"
  shows "agree E cfg (bindNamedMany E tc1 q args (Some cfg)) (bindNamedMany E tc2 q args (Some cfg))"
proof -
  obtain r1 t1 r2 t2 where g: "resolve_objs E tc1 (Some cfg) None args = (r1, t1)" "resolve_objs E tc2 (Some cfg) None args = (r2, t2)"
    by fastforce
  with resolve_objs_agree [OF assms, of None args] have "r1 = r2" "same_info E cfg t1 t2" by simp_all
  with g assms show ?thesis
    by (simp add: bindNamedMany_def Let_def split: outcome.split prod.split)
qed

lemma finish_bind_agree: "agree E cfg x y \<Longrightarrow> agree E cfg (finish_bind cfg x) (finish_bind cfg y)"
  by (simp add: finish_bind_def agree_def)

lemma bindForExec_agree:
  assumes "same_info E cfg tc1 tc2"
  shows "agree E cfg (bindForExec E tc1 q arg cfg) (bindForExec E tc2 q arg cfg)"
proof -
  note bn = finish_bind_agree [OF bindNamed_agree [OF assms]]
  have many: "agree E cfg
      (case bindNamedMany E tc1 q args (Some cfg) of (r, tc') \<Rightarrow> finish_bind cfg (and_then r (\<lambda>(q, args). Ok (q, args, args)), tc'))
      (case bindNamedMany E tc2 q args (Some cfg) of (r, tc') \<Rightarrow> finish_bind cfg (and_then r (\<lambda>(q, args). Ok (q, args, args)), tc'))"
    for args
    using bindNamedMany_agree [OF assms, of q args]
    by (auto intro: finish_bind_agree split: prod.splits)
  show ?thesis
    unfolding bindForExec_def
    using assms bn many by (simp add: finish_bind_agree split: outcome.split rvalue.split)
qed

section \<open>Before and after\<close>

lemma info_keeps:
  assumes "\<And>ti tc'. same_info E cfg tc tc' \<Longrightarrow> same_info E cfg tc (snd (f ti tc'))"
  shows "same_info E cfg tc (snd (case getTypeInfo E tc t (Some cfg) of
      (Ok ti, tc') \<Rightarrow> f ti tc' | (Err e, tc') \<Rightarrow> (Err e, tc') | (Panic m, tc') \<Rightarrow> (Panic m, tc')))"
  using getTypeInfo_same [of E tc t cfg] assms
  by (cases "getTypeInfo E tc t (Some cfg)") (auto split: outcome.split)

lemma bindNamed_keeps: "same_info E cfg tc (snd (bindNamed E tc q arg (Some cfg)))"
  by (simp add: bindNamed_def Let_def info_keeps split: outcome.split rvalue.split)

lemma resolve_objs_keeps: "same_info E cfg tc (snd (resolve_objs E tc (Some cfg) ti args))"
proof (induction args arbitrary: tc ti)
  case (Cons a args)
  have sub: "same_info E cfg tc0 (snd (case resolve_objs E tc (Some cfg) ti args of (r, tc') \<Rightarrow> (f r, tc')))"
    if "same_info E cfg tc0 tc" for tc0 tc ti
      and f :: "(rvalue list \<times> type_info option) outcome \<Rightarrow> (rvalue list \<times> type_info option) outcome"
    using same_info_trans [OF that Cons.IH [of tc ti]] by (cases "resolve_objs E tc (Some cfg) ti args") simp
  note sub1 = sub [OF same_info_refl]
  show ?case by (cases ti) (simp_all add: sub sub1 info_keeps split: outcome.split rvalue.split)
qed simp

lemma bindNamedMany_keeps: "same_info E cfg tc (snd (bindNamedMany E tc q args (Some cfg)))"
proof -
  obtain r tc' where g: "resolve_objs E tc (Some cfg) None args = (r, tc')" by fastforce
  with resolve_objs_keeps [of E cfg tc None args] have "same_info E cfg tc tc'" by simp
  with g show ?thesis by (simp add: bindNamedMany_def Let_def split: outcome.split prod.split)
qed

lemma bindForExec_keeps: "same_info E cfg tc (snd (bindForExec E tc q arg cfg))"
proof -
  have "same_info E cfg tc (snd (case bindNamedMany E tc q args (Some cfg) of
      (r, tc') \<Rightarrow> finish_bind cfg (and_then r (\<lambda>(q, args). Ok (q, args, args)), tc')))" for args
    using bindNamedMany_keeps [of E cfg tc q args]
    by (cases "bindNamedMany E tc q args (Some cfg)") (simp add: finish_bind_def)
  then show ?thesis
    by (simp add: bindForExec_def finish_bind_def bindNamed_keeps split: outcome.split rvalue.split)
qed

lemma bindForExec_same:
  assumes "same_info E cfg tc1 tc2" "bindForExec E tc1 q arg cfg = (r, tc1')"
  obtains tc2' where "bindForExec E tc2 q arg cfg = (r, tc2')" "same_info E cfg tc1 tc1'" "same_info E cfg tc1 tc2'"
proof -
  obtain r2 tc2' where b: "bindForExec E tc2 q arg cfg = (r2, tc2')" by fastforce
  from bindForExec_agree [OF assms(1), of q arg] assms(2) b have "r2 = r" by simp
  moreover have "same_info E cfg tc1 tc1'" using bindForExec_keeps [of E cfg tc1 q arg] assms(2) by simp
  moreover have "same_info E cfg tc1 tc2'"
    using same_info_trans [OF assms(1)] bindForExec_keeps [of E cfg tc2 q arg] b by simp
  ultimately show thesis using that b by simp
qed

section \<open>Scanning\<close>

lemma scan_loop_keeps:
  "scan_loop E cs cfg cc et cols rs st out = (r, rs', st') \<Longrightarrow> same_info E cfg (ss_tc st) (ss_tc st')"
proof (induction "rs_left rs" arbitrary: rs st out rule: less_induct)
  case less
  obtain b rs1 where n: "rs_Next rs = (b, rs1)" by fastforce
  show ?case
  proof (cases b)
    case True
    obtain d1 r1 st1 where v: "scanOneValue E cs cfg cc rs1 et (new_zero E et) cols st = (d1, r1, st1)"
      by (metis prod_cases3)
    note keep = scanOneValue_tc [OF v]
    show ?thesis
    proof (cases r1)
      case (Ok u)
      with less.prems True n v have "scan_loop E cs cfg cc et cols rs1 st1 (out @ [d1]) = (r, rs', st')"
        by (simp add: scan_loop.simps [of E cs cfg cc et cols rs])
      have "rs_left rs1 < rs_left rs" using rs_Next_left [of rs rs1] n True by simp
      from less.hyps [OF this \<open>scan_loop E cs cfg cc et cols rs1 st1 (out @ [d1]) = (r, rs', st')\<close>]
      show ?thesis by (rule same_info_trans [OF keep])
    qed (use less.prems True n v keep in \<open>simp_all add: scan_loop.simps [of E cs cfg cc et cols rs]\<close>)
  qed (use less.prems n in \<open>simp add: scan_loop.simps [of E cs cfg cc et cols rs]\<close>)
qed

lemma scan_target_keeps:
  assumes "scan_target E cs cfg cc rs t d st = (r, d', rs', st')"
  shows "same_info E cfg (ss_tc st) (ss_tc st')"
  using assms scan_loop_keeps [of E cs cfg cc "elem_type t" _ rs "st\<lparr>ss_heap := _\<rparr>"]
    scanOneValue_tc [of E cs cfg cc _ t d _ "st\<lparr>ss_heap := _\<rparr>"]
  by (auto simp: scan_target_def scanSlice_def scanOne_def split: if_splits prod.splits outcome.splits bool.splits)

end
