(* ===== verification/CachedQuery.thy ===== *)
theory CachedQuery
  imports CachePlugin BindAgree
begin

text \<open>
  A cached query end to end: binding, the cache's \<open>Before\<close>, the database, the scan through the recording
  rows, \<open>After\<close> committing, and the same call again, answered from the cache. The memory store, the binary
  codec, one goroutine.
\<close>

section \<open>Before\<close>

abbreviation mem_hit where
  "mem_hit mem c \<equiv> tryHit (bin_cfg mem c) (mem_ops lru_keys)"

definition call_ttl :: "cache_config \<Rightarrow> call_option list \<Rightarrow> int" where
  "call_ttl c opts = (if co_ttl (cacheOpts opts) \<le> 0 then cch_defaultTTL c else co_ttl (cacheOpts opts))"

lemma before_start_query:
  assumes "ei_op info = OpGet \<or> ei_op info = OpSelect" "\<not> ei_inTx info" "\<not> co_noCache (cacheOpts (ei_options info))"
  shows "before_start H c info = (if cch_singleflight c
     then BAcquire (call_key H info) (call_ttl c (ei_options info)) else BPlain (call_key H info) (call_ttl c (ei_options info)))"
  using assms by (auto simp: before_start_def call_key_def call_ttl_def Let_def)

definition led :: "cache_config \<Rightarrow> string \<Rightarrow> flight \<Rightarrow> flight" where
  "led c k f = (if cch_singleflight c then snd (acquire k f) else f)"

lemma before_miss:
  assumes "before_start H c info = (if cch_singleflight c then BAcquire k ttl else BPlain k ttl)"
    "cch_singleflight c \<Longrightarrow> fl_calls f k = None" "tryHit c ops now k s = (Ok None, s')"
  shows "before_run 3 c ops now (before_start H c info) s f = (BDone (Miss k ttl), s', led c k f)"
  using assms by (simp add: before_run_more led_def acquire_def)

lemma before_hit:
  assumes "before_start H c info = (if cch_singleflight c then BAcquire k ttl else BPlain k ttl)"
    "cch_singleflight c \<Longrightarrow> fl_calls f k = None" "tryHit c ops now k s = (Ok (Some rd), s')" "fl_wf f"
  shows "\<exists>f'. before_run 3 c ops now (before_start H c info) s f = (BDone (Hit k rd), s', f')"
proof (cases "cch_singleflight c")
  case True
  have "fl_wf (snd (acquire k f))" by (rule acquire_wf [OF assms(4)])
  from fl_done_Ok [OF this, of k] obtain f' where "fl_done k (snd (acquire k f)) = Ok f'" by blast
  with True assms(1-3) show ?thesis by (simp add: before_run_more acquire_def)
qed (use assms(1,3) in \<open>simp add: before_run_more\<close>)

lemma led_done:
  assumes "fl_wf f" "cch_singleflight c \<Longrightarrow> fl_calls f k = None"
  obtains f' where "fl_done k (led c k f) = Ok f'" "fl_wf f'" "cch_singleflight c \<Longrightarrow> fl_calls f' k = None"
proof -
  have "fl_wf (led c k f)" using assms(1) acquire_wf by (simp add: led_def)
  from fl_done_Ok [OF this, of k] that show thesis by auto
qed

section \<open>The two calls, with the cache as the only plugin\<close>

lemma since_start_simps [simp]:
  "ei_op (since_start info w) = ei_op info" "ei_inTx (since_start info w) = ei_inTx info"
  "ei_err (since_start info w) = ei_err info" "ei_rows (since_start info w) = ei_rows info"
  "ei_options (since_start info w) = ei_options info"
  by (simp_all add: since_start_def)

lemma runAfter_one:
  "runAfter cfg ctx [cache_plugin H c ops] info w
     = (case cache_After c ops ctx info w of
          (Ok u, i, w') \<Rightarrow> (i, w')
        | (Err e, i, w') \<Rightarrow> (i, report cfg ''cache'' e w')
        | (Panic m, i, w') \<Rightarrow> (i, report cfg ''cache'' (ErrOther (''panic: '' @ m)) w'))"
proof -
  have p: "pl_After (cache_plugin H c ops) = cache_After c ops" "pl_Name (cache_plugin H c ops) = ''cache''"
    by (simp_all add: cache_plugin_def)
  have "runAfter cfg ctx [cache_plugin H c ops] info w = after_one cfg ctx (cache_plugin H c ops) (info, w)"
    by (simp add: runAfter_def)
  then show ?thesis unfolding after_one_def p fst_conv snd_conv .
qed

text \<open>What the hooks see of a call.\<close>

definition bound_info :: "op \<Rightarrow> string \<Rightarrow> rvalue \<Rightarrow> call_option list \<Rightarrow> int \<Rightarrow> bound_query \<Rightarrow> info" where
  "bound_info oper q arg opts now b =
     (newExecInfo oper q arg opts False now)\<lparr>ei_boundSQL := bq_boundSQL b, ei_bindSQL := bq_bindSQL b,
        ei_bindArgs := bq_bindArgs b, ei_boundArgs := bq_args b\<rparr>"

lemma bound_info_simps [simp]:
  "ei_op (bound_info oper q arg opts now b) = oper" "ei_inTx (bound_info oper q arg opts now b) = False"
  "ei_err (bound_info oper q arg opts now b) = None" "ei_rows (bound_info oper q arg opts now b) = None"
  "ei_options (bound_info oper q arg opts now b) = opts"
  by (simp_all add: bound_info_def newExecInfo_def)

definition query_key :: "hash_env \<Rightarrow> bound_query \<Rightarrow> call_option list \<Rightarrow> string" where
  "query_key H b opts = computeKey H (co_namespace (cacheOpts opts)) (bq_bindSQL b) (bq_bindArgs b)"

lemma bound_info_key [simp]: "call_key H (bound_info oper q arg opts now b) = query_key H b opts"
  by (simp add: call_key_def query_key_def) (simp add: bound_info_def newExecInfo_def)

lemma prologue_one:
  assumes "plugins cfg = [p]" "bindForExec (cr_conv R) (ss_tc (w_st w)) q arg cfg = (Ok b, tc)"
    "pl_Before p ctx (bound_info oper q arg opts (w_now w) b) (set_tc w tc) = ((ctx', Ok ()), info, w')"
  shows "prologue R cfg ctx oper False q arg opts w = Inr (ctx', info, w', b)"
  using assms by (simp add: prologue_def begin_exec_def bound_info_def newExecInfo_def Let_def)

text \<open>An operation that returns without an error scanned without one and closed the rows without one.\<close>

lemma fail_op_Err: "fail_op R cfg ctx ps info q args e w = (r, w') \<Longrightarrow> r \<noteq> Ok ()"
  by (auto simp: fail_op_def finish_op_def wrapOpErr_def err_outcome_def split: prod.splits)

lemma mapOp_Ok:
  assumes "prologue R cfg ctx oper False q arg opts w = Inr (ctx', info, w1, b)"
    "fetch_rows ex ctx' info b w1 = (Ok rows, w2)"
    "mapOp R ex cfg ctx oper False q arg opts t d0 w = ((d, Ok ()), w')"
  obtains rs st where "scan_target (cr_conv R) (cr_converters R) cfg (applyCallOptions opts) rows t d0 (w_st w2) = (Ok (), d, rs, st)"
    "rs_Close rs = None"
    "w' = snd (runAfter cfg ctx' (plugins cfg) (since_start (info\<lparr>ei_rows := Some rs\<rparr>) (w2\<lparr>w_st := st\<rparr>)) (w2\<lparr>w_st := st\<rparr>))"
proof -
  obtain r d1 rs st where sc: "scan_target (cr_conv R) (cr_converters R) cfg (applyCallOptions opts) rows t d0 (w_st w2) = (r, d1, rs, st)"
    by (metis prod_cases4)
  note op = assms(3) [unfolded mapOp_def assms(1) sum.case prod.case Let_def assms(2) sc outcome.case]
  show thesis
  proof (cases r)
    case (Ok u)
    show thesis
    proof (cases "rs_Close rs")
      case None
      with op Ok sc that show thesis by (simp add: begin_exec_def)
    next
      case (Some e)
      with op Ok fail_op_Err show thesis by (fastforce split: prod.splits)
    qed
  next
    case (Err e)
    with op fail_op_Err show thesis by (fastforce split: prod.splits)
  qed (use op in simp)
qed

lemma mapOp_Ok_intro:
  assumes "prologue R cfg ctx oper False q arg opts w = Inr (ctx', info, w1, b)"
    "fetch_rows ex ctx' info b w1 = (Ok rows, w2)"
    "scan_target (cr_conv R) (cr_converters R) cfg (applyCallOptions opts) rows t d0 (w_st w2) = (Ok (), d, rs, st)"
    "rs_Close rs = None"
  shows "mapOp R ex cfg ctx oper False q arg opts t d0 w
    = ((d, Ok ()), snd (runAfter cfg ctx' (plugins cfg) (since_start (info\<lparr>ei_rows := Some rs\<rparr>) (w2\<lparr>w_st := st\<rparr>)) (w2\<lparr>w_st := st\<rparr>)))"
  using assms by (simp add: mapOp_def Let_def begin_exec_def)

text \<open>A scan moves the source, which does not change how it closes.\<close>

lemma rs_Next_Close: "rs_Close (snd (rs_Next rs)) = rs_Close rs"
  by (induction rs) (auto split: list.splits prod.splits)

lemma scan_loop_Close:
  "scan_loop E cs cfg cc et cols rs st out = (r, rs', st') \<Longrightarrow> rs_Close rs' = rs_Close rs"
proof (induction "rs_left rs" arbitrary: rs st out rule: less_induct)
  case less
  obtain b rs1 where n: "rs_Next rs = (b, rs1)" by fastforce
  then have c: "rs_Close rs1 = rs_Close rs" using rs_Next_Close [of rs] by simp
  show ?case
  proof (cases b)
    case True
    obtain d1 r1 st1 where v: "scanOneValue E cs cfg cc rs1 et (new_zero E et) cols st = (d1, r1, st1)"
      by (metis prod_cases3)
    show ?thesis
    proof (cases r1)
      case (Ok u)
      with less.prems True n v have l: "scan_loop E cs cfg cc et cols rs1 st1 (out @ [d1]) = (r, rs', st')"
        by (simp add: scan_loop.simps [of E cs cfg cc et cols rs])
      have "rs_left rs1 < rs_left rs" using rs_Next_left [of rs rs1] n True by simp
      from less.hyps [OF this l] c show ?thesis by simp
    qed (use less.prems True n v c in \<open>simp_all add: scan_loop.simps [of E cs cfg cc et cols rs]\<close>)
  qed (use less.prems n c in \<open>simp add: scan_loop.simps [of E cs cfg cc et cols rs]\<close>)
qed

lemma scan_target_Close:
  "scan_target E cs cfg cc rs t d st = (r, d', rs', st') \<Longrightarrow> rs_Close rs' = rs_Close rs"
  using scan_loop_Close [of E cs cfg cc "elem_type t" _ rs "st\<lparr>ss_heap := _\<rparr>"] rs_Next_Close [of rs]
  by (auto simp: scan_target_def scanSlice_def scanOne_def split: if_splits prod.splits outcome.splits bool.splits)

section \<open>The first call\<close>

text \<open>The world after a miss in \<open>Before\<close>: the key is led, a fresh recorder is allocated.\<close>

definition missed :: "cache_config \<Rightarrow> string \<Rightarrow> int \<Rightarrow> 's \<Rightarrow> ('d, 's cache_world) world \<Rightarrow> ('d, 's cache_world) world" where
  "missed c k ttl s' w =
     w\<lparr>w_ext := \<lparr>cw_store = s', cw_flight = led c k (cw_flight (w_ext w)), cw_next = cw_next (w_ext w) + 1\<rparr>,
       w_st := (w_st w)\<lparr>ss_heap := (ss_heap (w_st w))(cw_next (w_ext w) := new_recorder k ttl)\<rparr>\<rparr>"

lemma cache_Before_miss:
  assumes "before_run 3 c ops (w_now w) (before_start H c info) (cw_store (w_ext w)) (cw_flight (w_ext w))
      = (BDone (Miss k ttl), s', led c k (cw_flight (w_ext w)))"
  shows "cache_Before H c ops ctx info w = ((miss_ctx ctx (cw_next (w_ext w)), Ok ()), info, missed c k ttl s' w)"
  using assms by (simp add: cache_Before_def missed_def Let_def)

lemma cache_Before_hit:
  assumes "before_run 3 c ops (w_now w) (before_start H c info) (cw_store (w_ext w)) (cw_flight (w_ext w))
      = (BDone (Hit k rd), s', f')"
  shows "cache_Before H c ops ctx info w
    = ((ctx, Ok ()), info\<lparr>ei_rows := Some (Cached rd 0)\<rparr>, w\<lparr>w_ext := (w_ext w)\<lparr>cw_store := s', cw_flight := f'\<rparr>\<rparr>)"
  using assms by (simp add: cache_Before_def Let_def)

lemma fetch_miss:
  "ei_rows info = None \<Longrightarrow> ex_Query ex (bq_boundSQL b) (bq_args b) (w_db w) = (Ok r, el, d) \<Longrightarrow>
   fetch_rows ex (miss_ctx ctx a) info b w = (Ok (Recording (DBRows r) a), set_db w d el)"
  by (simp add: fetch_rows_def wrap_rows_def rowWrapperFrom_def miss_ctx_def WithRowWrapper_def replay_rows_def)

lemma fetch_hit:
  "ei_rows info = Some (Cached rd 0) \<Longrightarrow> fetch_rows ex ctx info b w = (Ok (newValueRows (rd_columns rd) (rd_rows rd)), w)"
  by (simp add: fetch_rows_def replay_rows_def)

text \<open>\<open>After\<close> of a miss whose scan was clean: the recorded rows are stored, the call is closed.\<close>

lemma cache_After_commit:
  assumes "ei_op info = OpGet \<or> ei_op info = OpSelect" "\<not> ei_inTx info" "ei_err info = None"
    "cx_recorder ctx = Some a" "ss_heap (w_st w) a = r" "cd_Encode (cch_codec c) (recorded r) = Ok bytes"
    "fl_done (rec_key r) (cw_flight (w_ext w)) = Ok f'"
  shows "cache_After c ops ctx info w = (Ok (), info, w\<lparr>w_ext := (w_ext w)
     \<lparr>cw_store := snd (st_Set ops (w_now w) (storeKey c (rec_key r)) bytes (rec_ttl r) (cw_store (w_ext w))), cw_flight := f'\<rparr>\<rparr>)"
  using assms by (auto simp: cache_After_def After_def commits_def Let_def)

lemma cache_After_none:
  assumes "ei_op info \<noteq> OpExec" "cx_recorder ctx = None"
  shows "cache_After c ops ctx info w = (Ok (), info, w)"
  using assms by (simp add: cache_After_def After_def Let_def)

text \<open>What a recorded scan leaves in the recorder.\<close>

lemma recorded_scan:
  assumes "ss_heap s = with_rows ((ss_heap st)(a := (ss_heap st a)\<lparr>rec_cols := cols\<rparr>)) a rows"
    "ss_heap st a = new_recorder k ttl"
  shows "ss_heap s a = \<lparr>rec_key = k, rec_ttl = ttl, rec_cols = cols, rec_rows = rows\<rparr>"
  using assms by (simp add: with_rows_def new_recorder_def)

text \<open>The data of a query result that a target of type \<open>t\<close> makes the cache keep.\<close>

definition kept_data :: "gtype \<Rightarrow> string list \<Rightarrow> db_rows \<Rightarrow> row_data" where
  "kept_data t cols r = \<lparr>rd_columns = cols, rd_rows = read_rows_of t (dr_rows r)\<rparr>"

text \<open>What the first call needs: the cache is the only plugin, the call asks for the cache, the key is
  free and missing; and what it gives.\<close>

definition cached_call ::
  "core_env \<Rightarrow> hash_env \<Rightarrow> cache_config \<Rightarrow> 's store \<Rightarrow> ('d, 's cache_world) plugin config \<Rightarrow> op \<Rightarrow> string \<Rightarrow> rvalue
   \<Rightarrow> call_option list \<Rightarrow> bound_query \<Rightarrow> ('d, 's cache_world) world \<Rightarrow> bool" where
  "cached_call R H c ops cfg oper q arg opts b w =
     (plugins cfg = [cache_plugin H c ops] \<and> (oper = OpGet \<or> oper = OpSelect) \<and> \<not> co_noCache (cacheOpts opts)
      \<and> fst (bindForExec (cr_conv R) (ss_tc (w_st w)) q arg cfg) = Ok b
      \<and> fl_wf (cw_flight (w_ext w))
      \<and> (cch_singleflight c \<longrightarrow> fl_calls (cw_flight (w_ext w)) (query_key H b opts) = None))"

lemma cached_callD:
  assumes "cached_call R H c ops cfg oper q arg opts b w"
  shows "plugins cfg = [cache_plugin H c ops]" "oper = OpGet \<or> oper = OpSelect" "\<not> co_noCache (cacheOpts opts)"
    "fst (bindForExec (cr_conv R) (ss_tc (w_st w)) q arg cfg) = Ok b" "fl_wf (cw_flight (w_ext w))"
    "cch_singleflight c \<Longrightarrow> fl_calls (cw_flight (w_ext w)) (query_key H b opts) = None"
  using assms by (simp_all add: cached_call_def)

lemma set_tc_state [simp]:
  "w_now (set_tc w tc) = w_now w"
  "w_st (set_tc w tc) = (w_st w)\<lparr>ss_tc := tc\<rparr>"
  by (simp_all add: set_tc_def)

lemma set_db_state [simp]:
  "w_now (set_db w d el) = w_now w + el"
  "w_st (set_db w d el) = w_st w"
  by (simp_all add: set_db_def)

lemma missed_simps [simp]:
  "w_db (missed c k ttl s' w) = w_db w" "w_now (missed c k ttl s' w) = w_now w"
  "ss_tc (w_st (missed c k ttl s' w)) = ss_tc (w_st w)"
  "ss_heap (w_st (missed c k ttl s' w)) (cw_next (w_ext w)) = new_recorder k ttl"
  "cw_store (w_ext (missed c k ttl s' w)) = s'" "cw_flight (w_ext (missed c k ttl s' w)) = led c k (cw_flight (w_ext w))"
  by (simp_all add: missed_def)

lemma first_prologue:
  assumes "cached_call R H c ops cfg oper q arg opts b w" "bindForExec (cr_conv R) (ss_tc (w_st w)) q arg cfg = (Ok b, tc)"
    "tryHit c ops (w_now w) (query_key H b opts) (cw_store (w_ext w)) = (Ok None, s1)"
  shows "prologue R cfg ctx oper False q arg opts w
    = Inr (miss_ctx ctx (cw_next (w_ext w)), bound_info oper q arg opts (w_now w) b,
           missed c (query_key H b opts) (call_ttl c opts) s1 (set_tc w tc), b)"
proof -
  note d = cached_callD [OF assms(1)]
  let ?i = "bound_info oper q arg opts (w_now w) b"
  have st: "before_start H c ?i = (if cch_singleflight c then BAcquire (query_key H b opts) (call_ttl c opts)
      else BPlain (query_key H b opts) (call_ttl c opts))"
    using before_start_query [of ?i H c] d(2,3) by simp
  have "cache_Before H c ops ctx ?i (set_tc w tc)
      = ((miss_ctx ctx (cw_next (w_ext w)), Ok ()), ?i, missed c (query_key H b opts) (call_ttl c opts) s1 (set_tc w tc))"
    using cache_Before_miss [of c ops "set_tc w tc" H ?i] before_miss [OF st d(6) assms(3)] by simp
  then have "pl_Before (cache_plugin H c ops) ctx ?i (set_tc w tc)
      = ((miss_ctx ctx (cw_next (w_ext w)), Ok ()), ?i, missed c (query_key H b opts) (call_ttl c opts) s1 (set_tc w tc))"
    by (simp add: cache_plugin_def)
  from prologue_one [OF d(1) assms(2) this] show ?thesis .
qed

text \<open>The second call.\<close>

lemma second_call:
  assumes "cached_call R H c ops cfg oper q arg opts b w" "bindForExec (cr_conv R) (ss_tc (w_st w)) q arg cfg = (Ok b, tc)"
    "fst (tryHit c ops (w_now w) (query_key H b opts) (cw_store (w_ext w))) = Ok (Some rd)"
    "\<And>h. \<exists>rs s. scan_target (cr_conv R) (cr_converters R) cfg (applyCallOptions opts)
        (newValueRows (rd_columns rd) (rd_rows rd)) t d0 \<lparr>ss_heap = h, ss_tc = tc\<rparr> = (Ok (), d, rs, s)"
  shows "\<exists>w'. mapOp R ex cfg background oper False q arg opts t d0 w = ((d, Ok ()), w') \<and> w_db w' = w_db w"
proof -
  note d = cached_callD [OF assms(1)]
  let ?i = "bound_info oper q arg opts (w_now w) b" and ?k = "query_key H b opts"
  obtain s1 where hit: "tryHit c ops (w_now w) ?k (cw_store (w_ext w)) = (Ok (Some rd), s1)"
    using assms(3) by (metis prod.collapse)
  have st: "before_start H c ?i = (if cch_singleflight c then BAcquire ?k (call_ttl c opts) else BPlain ?k (call_ttl c opts))"
    using before_start_query [of ?i H c] d(2,3) by simp
  obtain f1 where run: "before_run 3 c ops (w_now w) (before_start H c ?i) (cw_store (w_ext w)) (cw_flight (w_ext w))
      = (BDone (Hit ?k rd), s1, f1)" using before_hit [OF st d(6) hit d(5)] by blast
  let ?i1 = "?i\<lparr>ei_rows := Some (Cached rd 0)\<rparr>"
  let ?w1 = "(set_tc w tc)\<lparr>w_ext := (w_ext w)\<lparr>cw_store := s1, cw_flight := f1\<rparr>\<rparr>"
  have "cache_Before H c ops background ?i (set_tc w tc) = ((background, Ok ()), ?i1, ?w1)"
    using cache_Before_hit [of c ops "set_tc w tc" H ?i] run by simp
  then have "pl_Before (cache_plugin H c ops) background ?i (set_tc w tc) = ((background, Ok ()), ?i1, ?w1)"
    by (simp add: cache_plugin_def)
  note pr = prologue_one [OF d(1) assms(2) this]
  have f: "fetch_rows ex background ?i1 b ?w1 = (Ok (newValueRows (rd_columns rd) (rd_rows rd)), ?w1)"
    by (rule fetch_hit) simp
  obtain rs s where sc: "scan_target (cr_conv R) (cr_converters R) cfg (applyCallOptions opts)
        (newValueRows (rd_columns rd) (rd_rows rd)) t d0 (w_st ?w1) = (Ok (), d, rs, s)"
    using assms(4) [of "ss_heap (w_st w)"] by (cases "w_st w") auto
  have cl: "rs_Close rs = None" using scan_target_Close [OF sc] by (simp add: newValueRows_def)
  note op = mapOp_Ok_intro [OF pr f sc cl]
  have none: "oper \<noteq> OpExec" "cx_recorder background = None" using d(2) by (auto simp: background_def)
  have "w_db (snd (runAfter cfg background (plugins cfg) (since_start (?i1\<lparr>ei_rows := Some rs\<rparr>) (?w1\<lparr>w_st := s\<rparr>)) (?w1\<lparr>w_st := s\<rparr>))) = w_db w"
    by (simp add: d(1) runAfter_one cache_After_none none)
  with op show ?thesis by blast
qed

text \<open>The first call: what it leaves behind. \<open>bytes\<close> encode the rows that a target of type \<open>t\<close> reads.\<close>

lemma first_call:
  assumes "cached_call R H c ops cfg oper q arg opts b w"
    "fst (tryHit c ops (w_now w) (query_key H b opts) (cw_store (w_ext w))) = Ok None"
    "ex_Query ex (bq_boundSQL b) (bq_args b) (w_db w) = (Ok r, el, d1)"
    "dr_cols r = Ok cols" "\<forall>row \<in> set (dr_rows r). length row = length cols" "dr_err r = None"
    "cd_Encode (cch_codec c) (kept_data t cols r) = Ok bytes"
    "mapOp R ex cfg background oper False q arg opts t d0 w = ((d, Ok ()), w')"
  shows "w_db w' = d1 \<and> same_info (cr_conv R) cfg (ss_tc (w_st w)) (ss_tc (w_st w'))
    \<and> cw_store (w_ext w') = snd (st_Set ops (w_now w') (storeKey c (query_key H b opts)) bytes (call_ttl c opts)
          (snd (tryHit c ops (w_now w) (query_key H b opts) (cw_store (w_ext w)))))
    \<and> fl_wf (cw_flight (w_ext w')) \<and> (cch_singleflight c \<longrightarrow> fl_calls (cw_flight (w_ext w')) (query_key H b opts) = None)
    \<and> (\<forall>st2. same_info (cr_conv R) cfg (ss_tc (w_st w)) (ss_tc st2) \<longrightarrow>
          (\<exists>rs s. scan_target (cr_conv R) (cr_converters R) cfg (applyCallOptions opts)
             (newValueRows (rd_columns (kept_data t cols r)) (rd_rows (kept_data t cols r))) t d0 st2 = (Ok (), d, rs, s)))"
proof -
  note d = cached_callD [OF assms(1)]
  let ?i = "bound_info oper q arg opts (w_now w) b" and ?k = "query_key H b opts" and ?a = "cw_next (w_ext w)"
  let ?D = "kept_data t cols r"
  obtain tc where bind: "bindForExec (cr_conv R) (ss_tc (w_st w)) q arg cfg = (Ok b, tc)"
    using d(4) by (metis prod.collapse)
  obtain s1 where miss: "tryHit c ops (w_now w) ?k (cw_store (w_ext w)) = (Ok None, s1)"
    using assms(2) by (metis prod.collapse)
  let ?w1 = "missed c ?k (call_ttl c opts) s1 (set_tc w tc)"
  note pr = first_prologue [OF assms(1) bind miss, of background]
  have f: "fetch_rows ex (miss_ctx background ?a) ?i b ?w1 = (Ok (Recording (DBRows r) ?a), set_db ?w1 d1 el)"
    using assms(3) by (intro fetch_miss) simp_all
  obtain rs st where sc: "scan_target (cr_conv R) (cr_converters R) cfg (applyCallOptions opts) (Recording (DBRows r) ?a) t d0
        (w_st (set_db ?w1 d1 el)) = (Ok (), d, rs, st)"
    and w': "w' = snd (runAfter cfg (miss_ctx background ?a) (plugins cfg)
        (since_start (?i\<lparr>ei_rows := Some rs\<rparr>) ((set_db ?w1 d1 el)\<lparr>w_st := st\<rparr>)) ((set_db ?w1 d1 el)\<lparr>w_st := st\<rparr>))"
    by (rule mapOp_Ok [OF pr f assms(8)])
  have tc: "same_info (cr_conv R) cfg (ss_tc (w_st w)) tc" using bindForExec_keeps [of "cr_conv R" cfg] bind by (metis snd_conv)
  have tcs: "same_info (cr_conv R) cfg tc (ss_tc st)" using scan_target_keeps [OF sc] by simp
  note replay = replay_sim [OF assms(4-6) _ sc]
  have heap: "ss_heap st ?a = \<lparr>rec_key = ?k, rec_ttl = call_ttl c opts, rec_cols = cols, rec_rows = read_rows_of t (dr_rows r)\<rparr>"
    by (rule recorded_scan [OF conjunct1 [OF replay [OF same_info_refl]]]) (simp add: missed_def)
  obtain f' where fl: "fl_done ?k (led c ?k (cw_flight (w_ext w))) = Ok f'" "fl_wf f'" "cch_singleflight c \<Longrightarrow> fl_calls f' ?k = None"
    using led_done [OF d(5,6)] by blast
  let ?w3 = "(set_db ?w1 d1 el)\<lparr>w_st := st\<rparr>"
  let ?j = "since_start (?i\<lparr>ei_rows := Some rs\<rparr>) ?w3"
  have ctx: "cx_recorder (miss_ctx background ?a) = Some ?a" by (simp add: miss_ctx_def WithRowWrapper_def)
  have h3: "ss_heap (w_st ?w3) ?a = \<lparr>rec_key = ?k, rec_ttl = call_ttl c opts, rec_cols = cols, rec_rows = read_rows_of t (dr_rows r)\<rparr>"
    using heap by simp
  have "cache_After c ops (miss_ctx background ?a) ?j ?w3 = (Ok (), ?j, ?w3\<lparr>w_ext := (w_ext ?w3)
     \<lparr>cw_store := snd (st_Set ops (w_now ?w3) (storeKey c ?k) bytes (call_ttl c opts) (cw_store (w_ext ?w3))), cw_flight := f'\<rparr>\<rparr>)"
    using cache_After_commit [OF _ _ _ ctx h3, of ?j c bytes f' ops] d(2) assms(7) fl(1)
    by (simp add: recorded_def kept_data_def)
  then have "w' = ?w3\<lparr>w_ext := (w_ext ?w3)
     \<lparr>cw_store := snd (st_Set ops (w_now ?w3) (storeKey c ?k) bytes (call_ttl c opts) (cw_store (w_ext ?w3))), cw_flight := f'\<rparr>\<rparr>"
    by (simp add: w' d(1) runAfter_one)
  then have w: "w_db w' = d1" "ss_tc (w_st w') = ss_tc st" "cw_flight (w_ext w') = f'"
    "cw_store (w_ext w') = snd (st_Set ops (w_now w') (storeKey c ?k) bytes (call_ttl c opts) s1)"
    by simp_all
  have "\<exists>rs s. scan_target (cr_conv R) (cr_converters R) cfg (applyCallOptions opts)
             (newValueRows (rd_columns ?D) (rd_rows ?D)) t d0 st2 = (Ok (), d, rs, s)"
    if "same_info (cr_conv R) cfg (ss_tc (w_st w)) (ss_tc st2)" for st2
  proof -
    have "same_info (cr_conv R) cfg (ss_tc (w_st (set_db ?w1 d1 el))) (ss_tc st2)"
      using same_info_trans [OF same_info_sym [OF tc] that] by simp
    from conjunct1 [OF conjunct2 [OF replay [OF this]]] show ?thesis by (auto simp: kept_data_def)
  qed
  with w fl(2,3) same_info_trans [OF tc tcs] miss show ?thesis by simp
qed

section \<open>The same call again\<close>

text \<open>C4: A cached \<open>Get\<close> or \<open>Select\<close> end to end. With the cache as the only plugin, a call that asks for
  the cache, misses, and succeeds asks the database once and leaves its entry in the store; the same call
  made later, while the entry has not expired, returns the same value without touching the database,
  whatever the database holds or would answer by then, and whatever metadata the first call left in the
  type cache. The rows must fit the codec (and be their own normal form) and be as wide as the columns.\<close>

theorem cached_query_replayed:
  assumes "cached_call R H (bin_cfg mem c) (mem_ops lru_keys) cfg oper q arg opts b w" "ms_wf (cw_store (w_ext w))"
    "fst (mem_hit mem c (w_now w) (query_key H b opts) (cw_store (w_ext w))) = Ok None"
    "ex_Query ex (bq_boundSQL b) (bq_args b) (w_db w) = (Ok r, el, d1)"
    "dr_cols r = Ok cols" "\<forall>row \<in> set (dr_rows r). length row = length cols" "dr_err r = None"
    "Encode (kept_data t cols r) = Ok bytes" "data_ok mem (kept_data t cols r)" "length bytes < 2 ^ 63"
    "norm_data (kept_data t cols r) = kept_data t cols r"
    "mapOp R ex cfg background oper False q arg opts t d0 w = ((d, Ok ()), w')"
  shows "w_db w' = d1 \<and> ms_lookup (w_now w') (storeKey c (query_key H b opts)) (cw_store (w_ext w')) \<noteq> None
    \<and> (\<forall>now2 d2 ex2. ms_lookup now2 (storeKey c (query_key H b opts)) (cw_store (w_ext w')) \<noteq> None \<longrightarrow>
         (\<exists>w3. mapOp R ex2 cfg background oper False q arg opts t d0 (w'\<lparr>w_now := now2, w_db := d2\<rparr>) = ((d, Ok ()), w3)
               \<and> w_db w3 = d2))"
proof -
  let ?c = "bin_cfg mem c" and ?k = "query_key H b opts" and ?D = "kept_data t cols r"
  let ?s1 = "snd (mem_hit mem c (w_now w) ?k (cw_store (w_ext w)))"
  have enc: "cd_Encode (cch_codec ?c) ?D = Ok bytes" using assms(8) by (simp add: binaryCodec_def)
  have dec: "cd_Decode (binaryCodec mem) bytes = Ok ?D"
    using bc.roundtrip [of mem ?D bytes] assms(8-11) by (simp add: binaryCodec_def codec_fits_def)
  note first = first_call [OF assms(1,3-7) enc assms(12)]
  have wf1: "ms_wf ?s1" unfolding cb.safe.tryHit_state by (rule mem.get_inv [OF assms(2)])
  have key: "storeKey ?c ?k = storeKey c ?k" by (simp add: storeKey_def)
  have store: "cw_store (w_ext w') = snd (st_Set (mem_ops lru_keys) (w_now w') (storeKey c ?k) bytes (call_ttl ?c opts) ?s1)"
    using first key by simp
  have wf: "ms_wf (cw_store (w_ext w'))" unfolding store by (rule mem.set_inv [OF wf1])
  have now: "ms_lookup (w_now w') (storeKey c ?k) (cw_store (w_ext w')) = Some bytes"
    unfolding store by (rule mem.set_same [OF wf1])
  have again: "\<exists>w3. mapOp R ex2 cfg background oper False q arg opts t d0 (w'\<lparr>w_now := now2, w_db := d2\<rparr>) = ((d, Ok ()), w3)
        \<and> w_db w3 = d2"
    if later: "ms_lookup now2 (storeKey c ?k) (cw_store (w_ext w')) \<noteq> None" for now2 d2 ex2
  proof -
    let ?w2 = "w'\<lparr>w_now := now2, w_db := d2\<rparr>"
    have "ms_lookup now2 (storeKey c ?k) (cw_store (w_ext w')) = Some bytes"
      using mem.set_later [OF wf1, of now2 "storeKey c ?k" "w_now w'" bytes "call_ttl ?c opts"] later store by auto
    then have hit: "fst (mem_hit mem c (w_now ?w2) ?k (cw_store (w_ext ?w2))) = Ok (Some ?D)"
      using cb.tryHit_result [OF wf, of mem c now2 ?k] key dec by simp
    obtain tc where b1: "bindForExec (cr_conv R) (ss_tc (w_st w)) q arg cfg = (Ok b, tc)"
      using cached_callD(4) [OF assms(1)] by (metis prod.collapse)
    have same: "same_info (cr_conv R) cfg (ss_tc (w_st w)) (ss_tc (w_st ?w2))" using first by simp
    obtain tc2 where b2: "bindForExec (cr_conv R) (ss_tc (w_st ?w2)) q arg cfg = (Ok b, tc2)"
      "same_info (cr_conv R) cfg (ss_tc (w_st w)) tc2"
      by (rule bindForExec_same [OF same b1])
    have call: "cached_call R H ?c (mem_ops lru_keys) cfg oper q arg opts b ?w2"
      using cached_callD [OF assms(1)] first b2(1) by (simp add: cached_call_def)
    have scan: "\<exists>rs s. scan_target (cr_conv R) (cr_converters R) cfg (applyCallOptions opts)
        (newValueRows (rd_columns ?D) (rd_rows ?D)) t d0 \<lparr>ss_heap = h, ss_tc = tc2\<rparr> = (Ok (), d, rs, s)" for h
      using first b2(2) by (metis scan_state.select_convs(2))
    from second_call [OF call b2(1) hit scan, of ex2] show ?thesis by simp
  qed
  show ?thesis using first now again by simp
qed

section \<open>A panic in the scan\<close>

text \<open>\<open>Before\<close> of a call whose key has an open call blocks.\<close>

lemma before_blocks:
  assumes "before_start H c info = BAcquire k ttl" "fl_wf f" "fl_calls f k = Some ch"
  shows "before_run 3 c ops now (before_start H c info) s f = (BWait k ttl ch, s, f)"
  using assms(1,3) fl_wfD(2) [OF assms(2,3)] by (simp add: before_run_more acquire_def)

lemma blocked_call:
  assumes "plugins cfg = [cache_plugin H c ops]" "oper = OpGet \<or> oper = OpSelect" "\<not> co_noCache (cacheOpts opts)"
    "bindForExec (cr_conv R) (ss_tc (w_st w)) q arg cfg = (Ok b, tc)" "cch_singleflight c"
    "fl_wf (cw_flight (w_ext w))" "fl_calls (cw_flight (w_ext w)) (query_key H b opts) = Some ch"
  shows "\<exists>w'. mapOp R ex cfg ctx oper False q arg opts t d0 w = ((d0, Panic deadlock), w') \<and> w_db w' = w_db w"
proof -
  let ?i = "bound_info oper q arg opts (w_now w) b" and ?k = "query_key H b opts"
  have st: "before_start H c ?i = BAcquire ?k (call_ttl c opts)"
    using before_start_query [of ?i H c] assms(2,3,5) by simp
  let ?w1 = "(set_tc w tc)\<lparr>w_ext := (w_ext w)\<lparr>cw_store := cw_store (w_ext w), cw_flight := cw_flight (w_ext w)\<rparr>\<rparr>"
  have "cache_Before H c ops ctx ?i (set_tc w tc) = ((ctx, Panic deadlock), ?i, ?w1)"
    using before_blocks [OF st assms(6,7), of ops "w_now w" "cw_store (w_ext w)"] by (simp add: cache_Before_def Let_def)
  then have "prologue R cfg ctx oper False q arg opts w = Inl (Panic deadlock, ?w1)"
    using assms(1,4)
    by (simp add: prologue_def begin_exec_def bound_info_def newExecInfo_def Let_def cache_plugin_def)
  then show ?thesis by (simp add: mapOp_def)
qed

text \<open>C39: A panic while scanning. When the scan of a cached call panics (a column of an embedded nil pointer
  is enough) the panic propagates past \<open>Close\<close> and \<open>After\<close>: nothing calls \<open>done\<close>, the key keeps an open
  call, and every later cached call with that key blocks forever in \<open>Before\<close>; no database is asked again.\<close>

theorem scan_panic_blocks_key:
  assumes "cached_call R H c ops cfg oper q arg opts b w" "cch_singleflight c"
    "fst (tryHit c ops (w_now w) (query_key H b opts) (cw_store (w_ext w))) = Ok None"
    "ex_Query ex (bq_boundSQL b) (bq_args b) (w_db w) = (Ok r, el, d1)"
    "mapOp R ex cfg background oper False q arg opts t d0 w = ((d, Panic m), w')"
  shows "w_db w' = d1 \<and> fl_calls (cw_flight (w_ext w')) (query_key H b opts) \<noteq> None
    \<and> (\<forall>now2 ex2 t2 d2. \<exists>w3.
         mapOp R ex2 cfg background oper False q arg opts t2 d2 (w'\<lparr>w_now := now2\<rparr>) = ((d2, Panic deadlock), w3) \<and> w_db w3 = d1)"
proof -
  note d = cached_callD [OF assms(1)]
  let ?i = "bound_info oper q arg opts (w_now w) b" and ?k = "query_key H b opts" and ?a = "cw_next (w_ext w)"
  obtain tc where bind: "bindForExec (cr_conv R) (ss_tc (w_st w)) q arg cfg = (Ok b, tc)"
    using d(4) by (metis prod.collapse)
  obtain s1 where miss: "tryHit c ops (w_now w) ?k (cw_store (w_ext w)) = (Ok None, s1)"
    using assms(3) by (metis prod.collapse)
  let ?w1 = "missed c ?k (call_ttl c opts) s1 (set_tc w tc)"
  note pr = first_prologue [OF assms(1) bind miss, of background]
  have f: "fetch_rows ex (miss_ctx background ?a) ?i b ?w1 = (Ok (Recording (DBRows r) ?a), set_db ?w1 d1 el)"
    using assms(4) by (intro fetch_miss) simp_all
  obtain x dx rs st where sc: "scan_target (cr_conv R) (cr_converters R) cfg (applyCallOptions opts) (Recording (DBRows r) ?a) t d0
        (w_st (set_db ?w1 d1 el)) = (x, dx, rs, st)" by (metis prod_cases4)
  have fail: "fail_op R' cfg' ctx' ps info q' args e v \<noteq> (Panic m, v')" for R' cfg' ctx' ps info q' args e v v'
    by (auto simp: fail_op_def finish_op_def wrapOpErr_def err_outcome_def split: prod.splits)
  note op = assms(5) [unfolded mapOp_def pr sum.case prod.case Let_def f sc outcome.case]
  have w': "w' = (set_db ?w1 d1 el)\<lparr>w_st := st\<rparr>"
    using op by (cases x) (auto simp: fail split: option.splits prod.splits)
  have tcs: "same_info (cr_conv R) cfg (ss_tc (w_st w)) (ss_tc (w_st w'))"
    using same_info_trans [OF _ scan_target_keeps [OF sc]] bindForExec_keeps [of "cr_conv R" cfg "ss_tc (w_st w)" q arg] bind
    by (simp add: w')
  have fl: "fl_wf (cw_flight (w_ext w'))" "fl_calls (cw_flight (w_ext w')) ?k = Some (fl_next (cw_flight (w_ext w)))"
    using acquire_wf [OF d(5), of ?k] assms(2) d(6) by (simp_all add: w' led_def acquire_def)
  have "\<exists>w3. mapOp R ex2 cfg background oper False q arg opts t2 d2 (w'\<lparr>w_now := now2\<rparr>) = ((d2, Panic deadlock), w3) \<and> w_db w3 = d1"
    for now2 ex2 t2 d2
  proof -
    obtain tc2 where "bindForExec (cr_conv R) (ss_tc (w_st (w'\<lparr>w_now := now2\<rparr>))) q arg cfg = (Ok b, tc2)"
      using bindForExec_same [OF tcs bind] by auto
    from blocked_call [OF d(1-3) this assms(2), of _ ex2 background t2 d2] fl show ?thesis by (simp add: w')
  qed
  with fl(2) show ?thesis by (simp add: w')
qed

section \<open>Examples\<close>

definition plug_bound :: bound_query where
  "plug_bound = \<lparr>bq_boundSQL = ''SELECT n'', bq_bindSQL = ''SELECT n'', bq_bindArgs = positionalArgs Invalid, bq_args = positionalArgs Invalid\<rparr>"

definition plug_first where
  "plug_first = mapOp demo_core demo_executor plug_cfg background OpGet False ''SELECT n'' Invalid [WithCache]
     (TInt I32) (DInt 0) plug_world"

lemma plug_first_ok: "fst plug_first = (DInt 1, Ok ())"
  by code_simp

lemma plug_miss: "fst (mem_hit 1000 store_cfg 100 (query_key store_hash plug_bound [WithCache]) (NewMemoryStore 0 0)) = Ok None"
  by code_simp

definition plug_bytes :: string where
  "plug_bytes = (case Encode (kept_data (TInt I32) [''n''] scan_rows) of Ok b \<Rightarrow> b | _ \<Rightarrow> [])"

lemma plug_bytes: "Encode (kept_data (TInt I32) [''n''] scan_rows) = Ok plug_bytes" "length plug_bytes < 100"
  by code_simp+

lemma plug_call:
  "cached_call demo_core store_hash (bin_cfg 1000 store_cfg) (mem_ops lru_keys) plug_cfg OpGet ''SELECT n'' Invalid [WithCache]
     plug_bound plug_world"
proof -
  have "fst (bindForExec conv_demo (\<lambda>_. None) ''SELECT n'' Invalid plug_cfg) = Ok plug_bound" by code_simp
  moreover have "\<not> co_noCache (cacheOpts [WithCache])" by code_simp
  moreover have "plugins plug_cfg = [cache_plugin store_hash (bin_cfg 1000 store_cfg) (mem_ops lru_keys)]"
    by (simp add: plug_cfg_def)
  ultimately show ?thesis
    using fl_wf_new by (simp add: cached_call_def plug_world_def demo_core_def demo_state_def) (simp add: new_flight_def)
qed

theorem cached_query_replayed_witness:
  "\<exists>w3. mapOp demo_core (demo_executor\<lparr>ex_Query := (\<lambda>q args d. (Err ErrTxDone, 0, d))\<rparr>) plug_cfg background OpGet False ''SELECT n'' Invalid
       [WithCache] (TInt I32) (DInt 0) ((snd plug_first)\<lparr>w_db := 77\<rparr>) = ((DInt 1, Ok ()), w3) \<and> w_db w3 = 77"
proof -
  have run: "plug_first = ((DInt 1, Ok ()), snd plug_first)" using plug_first_ok by (metis prod.collapse)
  have ext: "cw_store (w_ext plug_world) = NewMemoryStore 0 0" "w_now plug_world = 100"
    by (simp_all add: plug_world_def)
  have wf: "ms_wf (cw_store (w_ext plug_world))" unfolding ext by (rule ms_wf_new)
  have q: "ex_Query demo_executor (bq_boundSQL plug_bound) (bq_args plug_bound) (w_db plug_world) = (Ok scan_rows, 5, w_db plug_world + 1)"
    by (simp add: demo_executor_def)
  have r: "dr_cols scan_rows = Ok [''n'']" "\<forall>row \<in> set (dr_rows scan_rows). length row = length [''n'']" "dr_err scan_rows = None"
    by (simp_all add: scan_rows_def)
  have "kept_data (TInt I32) [''n''] scan_rows = \<lparr>rd_columns = [''n''], rd_rows = [[RV (TInt I64) (DInt 1)]]\<rparr>"
    by (simp add: kept_data_def read_rows_of_def scan_rows_def)
  then have k: "data_ok 1000 (kept_data (TInt I32) [''n''] scan_rows)"
    "norm_data (kept_data (TInt I32) [''n''] scan_rows) = kept_data (TInt I32) [''n''] scan_rows"
    by (simp_all add: data_ok_def cell_ok_def int64_def norm_data_def norm_cell_def)
  have len: "length plug_bytes < 2 ^ 63" using plug_bytes(2) by simp
  note c = cached_query_replayed [OF plug_call wf plug_miss [folded ext] q r plug_bytes(1) k(1) len k(2)
      run [unfolded plug_first_def], folded plug_first_def]
  have "(snd plug_first)\<lparr>w_now := w_now (snd plug_first), w_db := 77\<rparr> = (snd plug_first)\<lparr>w_db := 77\<rparr>" by simp
  with mp [OF spec [OF spec [OF spec [OF conjunct2 [OF conjunct2 [OF c]]]]] conjunct1 [OF conjunct2 [OF c]],
      of "demo_executor\<lparr>ex_Query := (\<lambda>q args d. (Err ErrTxDone, 0, d))\<rparr>" 77]
  show ?thesis by (simp only:)
qed

text \<open>A query whose target embeds a nil pointer.\<close>

lemma plug_embed_call:
  "cached_call embed_core store_hash (bin_cfg 1000 store_cfg) (mem_ops lru_keys) plug_cfg OpGet ''SELECT n'' Invalid [WithCache]
     plug_bound plug_world"
proof -
  have "fst (bindForExec embed_env (\<lambda>_. None) ''SELECT n'' Invalid plug_cfg) = Ok plug_bound" by code_simp
  then show ?thesis
    using plug_call by (simp add: cached_call_def embed_core_def) (simp add: plug_world_def demo_state_def)
qed

theorem scan_panic_blocks_key_witness:
  "\<exists>w' w3. mapOp embed_core demo_executor plug_cfg background OpGet False ''SELECT n'' Invalid [WithCache]
        (TStruct ''Outer'') (new_zero embed_env (TStruct ''Outer'')) plug_world
          = ((new_zero embed_env (TStruct ''Outer''), Panic ''reflect.Value.Addr of unaddressable value''), w')
     \<and> mapOp embed_core demo_executor plug_cfg background OpGet False ''SELECT n'' Invalid [WithCache] (TInt I32) (DInt 0)
        (w'\<lparr>w_now := 200\<rparr>) = ((DInt 0, Panic deadlock), w3)"
proof -
  let ?first = "mapOp embed_core demo_executor plug_cfg background OpGet False ''SELECT n'' Invalid [WithCache]
        (TStruct ''Outer'') (new_zero embed_env (TStruct ''Outer'')) plug_world"
  have "fst ?first = (new_zero embed_env (TStruct ''Outer''), Panic ''reflect.Value.Addr of unaddressable value'')" by code_simp
  then obtain w' where run: "?first = ((new_zero embed_env (TStruct ''Outer''), Panic ''reflect.Value.Addr of unaddressable value''), w')"
    by (metis prod.collapse)
  have ext: "cw_store (w_ext plug_world) = NewMemoryStore 0 0" "w_now plug_world = 100"
    by (simp_all add: plug_world_def)
  have q: "ex_Query demo_executor (bq_boundSQL plug_bound) (bq_args plug_bound) (w_db plug_world) = (Ok scan_rows, 5, w_db plug_world + 1)"
    by (simp add: demo_executor_def)
  have sf: "cch_singleflight (bin_cfg 1000 store_cfg)" by (simp add: store_cfg_def New_cache_def)
  from scan_panic_blocks_key [OF plug_embed_call sf plug_miss [folded ext] q run] run show ?thesis by blast
qed

end
