(* ===== verification/CacheWrites.thy ===== *)
theory CacheWrites
  imports CachedQuery
begin

text \<open>
  Writes and the cache. An \<open>Exec\<close> that invalidates makes the next cached call ask the database, and
  \<open>InvalidateQuery\<close> removes the entry of the call it names, as far as the handle binds the way the default
  configuration does; an \<open>Exec\<close> inside a transaction invalidates too early.
\<close>

section \<open>What a cached operation does once its rows are there\<close>

lemma cache_After_keeps:
  "cache_After c ops ctx info w = (r, info', w') \<Longrightarrow> info' = info \<and> w_db w' = w_db w"
  by (auto simp: cache_After_def Let_def split: prod.splits)

lemma runAfter_cache:
  assumes "runAfter cfg ctx [cache_plugin H c ops] info w = (info', w')"
  shows "info' = info \<and> w_db w' = w_db w"
proof -
  obtain r i v where a: "cache_After c ops ctx info w = (r, i, v)" by (metis prod_cases3)
  with assms cache_After_keeps [OF a] show ?thesis by (cases r) (auto simp: runAfter_one)
qed

lemma finish_op_cache:
  assumes "finish_op R cfg ctx [cache_plugin H c ops] info q args err w = (r, w')"
  shows "r = err_outcome (wrapOpErr (cr_quote R) (ei_op info) q args err) \<and> w_db w' = w_db w"
  using assms runAfter_cache by (fastforce simp: finish_op_def split: prod.splits)

lemma fail_op_cache:
  assumes "fail_op R cfg ctx [cache_plugin H c ops] info q args e w = (r, w')"
  shows "r = err_outcome (wrapOpErr (cr_quote R) (ei_op info) q args (Some e)) \<and> w_db w' = w_db w"
  using finish_op_cache assms by (fastforce simp: fail_op_def)

text \<open>The answer of \<open>mapOp\<close> from the rows on: it does not depend on the store.\<close>

definition rows_answer ::
  "core_env \<Rightarrow> 'p config \<Rightarrow> op \<Rightarrow> string \<Rightarrow> rvalue list \<Rightarrow> call_option list \<Rightarrow> gtype \<Rightarrow> gdata \<Rightarrow> scan_state
   \<Rightarrow> row_source outcome \<Rightarrow> gdata \<times> unit outcome" where
  "rows_answer R cfg oper q args opts t d0 st fr =
     (let failed = (\<lambda>e. err_outcome (wrapOpErr (cr_quote R) oper q args (Some e))) in
      case fr of
        Err e \<Rightarrow> (d0, failed e)
      | Panic m \<Rightarrow> (d0, Panic m)
      | Ok rows \<Rightarrow>
          (case scan_target (cr_conv R) (cr_converters R) cfg (applyCallOptions opts) rows t d0 st of
             (Panic m, d, rs, st') \<Rightarrow> (d, Panic m)
           | (Err e, d, rs, st') \<Rightarrow> (d, failed e)
           | (Ok u, d, rs, st') \<Rightarrow> (case rs_Close rs of Some e \<Rightarrow> (d, failed e) | None \<Rightarrow> (d, Ok ()))))"

lemma mapOp_cache:
  assumes "plugins cfg = [cache_plugin H c ops]"
    "prologue R cfg ctx oper False q arg opts w = Inr (ctx', info, w1, b)" "ei_op info = oper"
    "fetch_rows ex ctx' info b w1 = (fr, w2)"
  shows "\<exists>w'. mapOp R ex cfg ctx oper False q arg opts t d0 w
      = (rows_answer R cfg oper q (bq_args b) opts t d0 (w_st w2) fr, w') \<and> w_db w' = w_db w2"
proof (cases fr)
  case (Err e)
  obtain r v where f: "fail_op R cfg ctx' (plugins cfg) (since_start info w2) q (bq_args b) e w2 = (r, v)" by fastforce
  with fail_op_cache [OF f [unfolded assms(1)]] assms(2-4) Err show ?thesis
    by (simp add: mapOp_def rows_answer_def Let_def begin_exec_def)
next
  case (Panic m)
  with assms(2,4) show ?thesis by (simp add: mapOp_def rows_answer_def Let_def)
next
  case (Ok rows)
  obtain x d rs st where sc: "scan_target (cr_conv R) (cr_converters R) cfg (applyCallOptions opts) rows t d0 (w_st w2)
      = (x, d, rs, st)" by (metis prod_cases4)
  let ?w3 = "w2\<lparr>w_st := st\<rparr>" and ?i = "since_start (info\<lparr>ei_rows := Some rs\<rparr>) (w2\<lparr>w_st := st\<rparr>)"
  have fail: "\<exists>w'. fail_op R cfg ctx' (plugins cfg) ?i q (bq_args b) e ?w3
      = (err_outcome (wrapOpErr (cr_quote R) oper q (bq_args b) (Some e)), w') \<and> w_db w' = w_db w2" for e
  proof -
    obtain r v where f: "fail_op R cfg ctx' (plugins cfg) ?i q (bq_args b) e ?w3 = (r, v)" by fastforce
    with fail_op_cache [OF f [unfolded assms(1)]] assms(3) show ?thesis by simp
  qed
  obtain i v where a: "runAfter cfg ctx' (plugins cfg) ?i ?w3 = (i, v)" by fastforce
  note after = runAfter_cache [OF a [unfolded assms(1)]]
  note un = mapOp_def rows_answer_def Let_def begin_exec_def assms(2,4) Ok sc
  show ?thesis
  proof (cases x)
    case (Ok u)
    show ?thesis
    proof (cases "rs_Close rs")
      case None
      with Ok a after show ?thesis by (simp add: un)
    next
      case (Some e)
      with Ok fail [of e] show ?thesis by (auto simp: un)
    qed
  next
    case (Err e)
    with fail [of e] show ?thesis by (auto simp: un)
  qed (simp add: un)
qed

text \<open>A cached call that misses asks the database once, and its answer depends on no entry of the store.\<close>

lemma fetch_miss_any:
  assumes "ei_rows info = None"
  shows "\<exists>el. fetch_rows ex (miss_ctx ctx a) info b w =
      (and_then (fst (ex_Query ex (bq_boundSQL b) (bq_args b) (w_db w))) (\<lambda>r. Ok (Recording (DBRows r) a)),
       set_db w (snd (snd (ex_Query ex (bq_boundSQL b) (bq_args b) (w_db w)))) el)"
  using assms
  by (auto simp: fetch_rows_def wrap_rows_def rowWrapperFrom_def miss_ctx_def WithRowWrapper_def replay_rows_def
      split: prod.splits outcome.splits)

lemma miss_asks:
  assumes "cached_call R H c ops cfg oper q arg opts b w" "bindForExec (cr_conv R) (ss_tc (w_st w)) q arg cfg = (Ok b, tc)"
    "fst (tryHit c ops (w_now w) (query_key H b opts) (cw_store (w_ext w))) = Ok None"
  shows "\<exists>w'. mapOp R ex cfg ctx oper False q arg opts t d0 w =
      (rows_answer R cfg oper q (bq_args b) opts t d0
         \<lparr>ss_heap = (ss_heap (w_st w))(cw_next (w_ext w) := new_recorder (query_key H b opts) (call_ttl c opts)), ss_tc = tc\<rparr>
         (and_then (fst (ex_Query ex (bq_boundSQL b) (bq_args b) (w_db w)))
            (\<lambda>r. Ok (Recording (DBRows r) (cw_next (w_ext w))))), w')
    \<and> w_db w' = snd (snd (ex_Query ex (bq_boundSQL b) (bq_args b) (w_db w)))"
proof -
  obtain s1 where "tryHit c ops (w_now w) (query_key H b opts) (cw_store (w_ext w)) = (Ok None, s1)"
    using assms(3) by (metis prod.collapse)
  note pr = first_prologue [OF assms(1,2) this, of ctx]
  let ?i = "bound_info oper q arg opts (w_now w) b"
  let ?w1 = "missed c (query_key H b opts) (call_ttl c opts) s1 (set_tc w tc)"
  obtain el where f: "fetch_rows ex (miss_ctx ctx (cw_next (w_ext w))) ?i b ?w1 =
      (and_then (fst (ex_Query ex (bq_boundSQL b) (bq_args b) (w_db w))) (\<lambda>r. Ok (Recording (DBRows r) (cw_next (w_ext w)))),
       set_db ?w1 (snd (snd (ex_Query ex (bq_boundSQL b) (bq_args b) (w_db w)))) el)"
    using fetch_miss_any [of ?i ex ctx "cw_next (w_ext w)" b ?w1] by auto
  have "w_st ?w1 = \<lparr>ss_heap = (ss_heap (w_st w))(cw_next (w_ext w) := new_recorder (query_key H b opts) (call_ttl c opts)), ss_tc = tc\<rparr>"
    by (simp add: missed_def set_tc_def)
  with mapOp_cache [OF cached_callD(1) [OF assms(1)] pr _ f, of t d0] show ?thesis by simp
qed

section \<open>Read after write\<close>

text \<open>The store after an \<open>Exec\<close> that returned: what \<open>After\<close> made of it, whatever else happened.\<close>

lemma After_exec:
  assumes "ei_op info = OpExec"
  shows "After c ops now info rec s f = (Ok (), fst (snd (After c ops now info None s f)), f)"
  using assms by (simp add: After_def Let_def)

lemma runAfter_cache_store:
  assumes "ei_op info = OpExec"
  shows "w_ext (snd (runAfter cfg ctx [cache_plugin H c ops] info w)) = (w_ext w)
    \<lparr>cw_store := fst (snd (After c ops (w_now w) info None (cw_store (w_ext w)) (cw_flight (w_ext w))))\<rparr>"
  unfolding runAfter_one cache_After_def Let_def
    After_exec [OF assms, of c ops "w_now w" "map_option (ss_heap (w_st w)) (cx_recorder ctx)"]
  by simp

lemma cache_Before_exec:
  "ei_op info = OpExec \<Longrightarrow> cache_Before H c ops ctx info w = ((ctx, Ok ()), info, w)"
  by (simp add: cache_Before_def before_start_def before_run_more)

lemma prologue_exec:
  assumes "plugins cfg = [cache_plugin H c ops]" "prologue R cfg ctx OpExec inTx q arg opts w = x"
  shows "case x of
      Inl (r, w') \<Rightarrow> (\<exists>m. r = Panic m) \<or> (\<exists>info v. ei_op info = OpExec \<and> ei_options info = opts
          \<and> w_ext v = w_ext w \<and> w' = snd (runAfter cfg ctx (plugins cfg) info v))
    | Inr (ctx', info, w', b) \<Rightarrow> ctx' = ctx \<and> ei_op info = OpExec \<and> ei_options info = opts \<and> w_ext w' = w_ext w"
proof -
  obtain r tc where b: "bindForExec (cr_conv R) (ss_tc (w_st w)) q arg cfg = (r, tc)" by fastforce
  let ?i = "newExecInfo OpExec q arg opts inTx (w_now w)"
  have p: "pl_Before (cache_plugin H c ops) = cache_Before H c ops" by (simp add: cache_plugin_def)
  have i: "ei_op ?i = OpExec" "ei_options ?i = opts" by (simp_all add: newExecInfo_def)
  show ?thesis
  proof (cases r)
    case (Err e)
    have "w_ext (set_tc w tc) = w_ext w" by simp
    then have "\<exists>info v. ei_op info = OpExec \<and> ei_options info = opts
          \<and> w_ext v = w_ext w \<and> snd (fail_op R cfg ctx (plugins cfg) ?i q [] e (set_tc w tc)) = snd (runAfter cfg ctx (plugins cfg) info v)"
      using i by (intro exI [of _ "?i\<lparr>ei_err := Some e\<rparr>"] exI [of _ "set_tc w tc"])
        (simp add: fail_op_def finish_op_def split: prod.splits)
    then obtain info v where v: "ei_op info = OpExec" "ei_options info = opts" "w_ext v = w_ext w"
      "snd (fail_op R cfg ctx (plugins cfg) ?i q [] e (set_tc w tc)) = snd (runAfter cfg ctx (plugins cfg) info v)" by blast
    have "x = Inl (fail_op R cfg ctx (plugins cfg) ?i q [] e (set_tc w tc))"
      using assms(2) b Err by (simp add: prologue_def Let_def begin_exec_def)
    with v show ?thesis by (cases "fail_op R cfg ctx (plugins cfg) ?i q [] e (set_tc w tc)") (simp, blast)
  next
    case (Ok bq)
    with assms b i show ?thesis by (auto simp: prologue_def Let_def begin_exec_def p cache_Before_exec)
  qed (use assms b in \<open>auto simp: prologue_def Let_def\<close>)
qed

lemma execOp_store:
  assumes "plugins cfg = [cache_plugin H c ops]" "execOp R ex cfg ctx inTx q arg opts w = ((res, r), w')" "\<not> (\<exists>m. r = Panic m)"
  shows "\<exists>now (i :: info). ei_op i = OpExec \<and> ei_options i = opts
    \<and> w_ext w' = (w_ext w)\<lparr>cw_store := fst (snd (After c ops now i None (cw_store (w_ext w)) (cw_flight (w_ext w))))\<rparr>"
proof -
  have fin: "\<exists>now (i :: info). ei_op i = OpExec \<and> ei_options i = opts
    \<and> w_ext w' = (w_ext w)\<lparr>cw_store := fst (snd (After c ops now i None (cw_store (w_ext w)) (cw_flight (w_ext w))))\<rparr>"
    if "ei_op info = OpExec" "ei_options info = opts" "w_ext v = w_ext w" "w' = snd (runAfter cfg ctx (plugins cfg) info v)"
    for info v
    using that runAfter_cache_store [OF that(1), of cfg ctx H c ops v] assms(1)
    by (intro exI [of _ "w_now v"] exI [of _ info]) simp
  show ?thesis
  proof (cases "prologue R cfg ctx OpExec inTx q arg opts w")
    case (Inl x)
    obtain r' v where x: "x = (r', v)" by fastforce
    with assms(2) Inl have "r' = r" "v = w'" by (auto simp: execOp_def)
    with prologue_exec [OF assms(1) Inl] x assms(3) fin show ?thesis by auto
  next
    case (Inr x)
    obtain ctx' info w1 b where x: "x = (ctx', info, w1, b)" by (metis prod_cases4)
    note pr = prologue_exec [OF assms(1) Inr, unfolded x sum.case prod.case]
    obtain res' r0 el d where e: "ex_Exec ex (bq_boundSQL b) (bq_args b) (w_db w1) = ((res', r0), el, d)" by (metis surj_pair)
    let ?err = "case r0 of Err e \<Rightarrow> Some e | _ \<Rightarrow> None"
    let ?j = "since_start (info\<lparr>ei_result := res', ei_err := ?err\<rparr>) (set_db w1 d el)"
    have "w' = snd (runAfter cfg ctx (plugins cfg) ?j (set_db w1 d el))"
      using assms(2,3) Inr x e pr
      by (cases r0) (auto simp: execOp_def Let_def begin_exec_def finish_op_def split: prod.splits)
    with fin [of ?j "set_db w1 d el"] pr show ?thesis by simp
  qed
qed

definition empty_cache :: "('d, mem_store cache_world) world \<Rightarrow> ('d, mem_store cache_world) world" where
  "empty_cache w = w\<lparr>w_ext := (w_ext w)\<lparr>cw_store := NewMemoryStore 0 0\<rparr>\<rparr>"

lemma empty_cache_simps [simp]:
  "w_db (empty_cache w) = w_db w" "w_now (empty_cache w) = w_now w" "w_st (empty_cache w) = w_st w"
  "cw_store (w_ext (empty_cache w)) = NewMemoryStore 0 0" "cw_flight (w_ext (empty_cache w)) = cw_flight (w_ext w)"
  "cw_next (w_ext (empty_cache w)) = cw_next (w_ext w)"
  by (simp_all add: empty_cache_def)

lemma exec_then_miss:
  assumes "ms_wf s" "ei_op info = OpExec" "cch_invalidateOnWrite c
      \<or> (ns \<noteq> [] \<and> NUL \<notin> set ns \<and> co_invalidate (cacheOpts (ei_options info)) = ns)"
  shows "fst (mem_hit mem c now' (computeKey H ns q args)
      (fst (snd (After (bin_cfg mem c) (mem_ops lru_keys) now info rec s f)))) = Ok None"
proof (cases "cch_invalidateOnWrite c")
  case True
  with assms(2) cb.tryHit_flush [OF assms(1)] show ?thesis by (simp add: After_def)
next
  case False
  with assms(3) key_prefix [of ns "bin_cfg mem c" H q args ns] cb.tryHit_prefix [OF assms(1)] assms(2) show ?thesis
    by (simp add: After_def Let_def)
qed

text \<open>C6: Read after write. Let the cache be the only plugin, and let the handle have
  \<open>WithInvalidateOnWrite\<close> or the \<open>Exec\<close> the option \<open>WithInvalidateNamespace\<close> of the namespace that is read.
  After an \<open>Exec\<close> that returned, with an error or not, a cached \<open>Get\<close> or \<open>Select\<close> asks the database of that
  moment once and returns what it returns when the cache is empty.\<close>

theorem write_then_read:
  assumes "plugins cfg = [cache_plugin H (bin_cfg mem c) (mem_ops lru_keys)]" "ms_wf (cw_store (w_ext w))"
    "execOp R ex cfg ctx inTx q0 arg0 opts0 w = ((res, r0), w1)" "\<not> (\<exists>m. r0 = Panic m)"
    "cch_invalidateOnWrite c \<or> (ns \<noteq> [] \<and> NUL \<notin> set ns \<and> co_invalidate (cacheOpts opts0) = ns)"
    "co_namespace (cacheOpts opts) = ns"
    "cached_call R H (bin_cfg mem c) (mem_ops lru_keys) cfg oper q arg opts b w1"
  shows "\<exists>w2. mapOp R ex2 cfg ctx2 oper False q arg opts t d0 w1
        = (fst (mapOp R ex2 cfg ctx2 oper False q arg opts t d0 (empty_cache w1)), w2)
      \<and> w_db w2 = snd (snd (ex_Query ex2 (bq_boundSQL b) (bq_args b) (w_db w1)))"
proof -
  obtain now and info :: info where exec: "ei_op info = OpExec" "ei_options info = opts0"
    "w_ext w1 = (w_ext w)\<lparr>cw_store := fst (snd (After (bin_cfg mem c) (mem_ops lru_keys) now info None (cw_store (w_ext w)) (cw_flight (w_ext w))))\<rparr>"
    using execOp_store [OF assms(1,3,4)] by blast
  have miss: "fst (mem_hit mem c (w_now w1) (query_key H b opts) (cw_store (w_ext w1))) = Ok None"
    using exec_then_miss [OF assms(2) exec(1), of c ns] assms(5,6) exec(2,3) by (simp add: query_key_def)
  obtain tc where bind: "bindForExec (cr_conv R) (ss_tc (w_st w1)) q arg cfg = (Ok b, tc)"
    using cached_callD(4) [OF assms(7)] by (metis prod.collapse)
  have empty: "cached_call R H (bin_cfg mem c) (mem_ops lru_keys) cfg oper q arg opts b (empty_cache w1)"
    using assms(7) by (simp add: cached_call_def)
  have miss0: "fst (mem_hit mem c (w_now (empty_cache w1)) (query_key H b opts) (cw_store (w_ext (empty_cache w1)))) = Ok None"
    by (simp add: cb.tryHit_result [OF ms_wf_new] ms_lookup_new)
  have bind0: "bindForExec (cr_conv R) (ss_tc (w_st (empty_cache w1))) q arg cfg = (Ok b, tc)" using bind by simp
  show ?thesis
    using miss_asks [OF assms(7) bind miss, of ex2 ctx2 t d0] miss_asks [OF empty bind0 miss0, of ex2 ctx2 t d0] by auto
qed

section \<open>InvalidateQuery\<close>

text \<open>\<open>CacheKey\<close> binds with no configuration. A handle binds the same way when it has the default tag and
  mapper, no time location and no slice expansion.\<close>

definition binds_like_default :: "'e genv_scheme \<Rightarrow> 'p config \<Rightarrow> bool" where
  "binds_like_default E cfg =
     (cfg_tagName (Some cfg) = cfg_tagName (None :: unit config option)
      \<and> cfg_mapper E (Some cfg) = cfg_mapper E (None :: unit config option)
      \<and> timeLocation cfg = None \<and> \<not> sliceExpansion cfg)"

lemma default_like:
  assumes "binds_like_default E cfg"
  shows "locOf (Some cfg) = locOf (None :: unit config option)"
    "slice_expansion_on (Some cfg) = slice_expansion_on (None :: unit config option)"
    "getTypeInfo E tc t (Some cfg) = getTypeInfo E tc t (None :: unit config option)"
  using assms by (simp_all add: binds_like_default_def locOf_def slice_expansion_on_def getTypeInfo_def)

lemma bind_one_default:
  assumes "binds_like_default E cfg"
  shows "bind_one E rv ti name (Some cfg) = bind_one E rv ti name (None :: unit config option)"
  unfolding bind_one_def default_like [OF assms] ..

lemma bind_loop_default:
  assumes "binds_like_default E cfg"
  shows "bind_loop E rv ti (Some cfg) q lo ps = bind_loop E rv ti (None :: unit config option) q lo ps"
  by (induction ps arbitrary: lo) (simp_all add: bind_one_default [OF assms])

lemma bindNamed_default:
  assumes "binds_like_default E cfg"
  shows "bindNamed E tc q arg (Some cfg) = bindNamed E tc q arg (None :: unit config option)"
  unfolding bindNamed_def default_like [OF assms] bind_loop_default [OF assms] ..

text \<open>Without slice expansion the arguments of the key are those of the statement.\<close>

lemma bind_one_same_args:
  "bind_one E rv ti name (None :: unit config option) = Ok (blk, vs, bs) \<Longrightarrow> bs = vs"
  by (auto simp: bind_one_def slice_expansion_on_def outcome_iff split: if_splits prod.splits)

lemma bind_loop_same_args:
  "bind_loop E rv ti (None :: unit config option) q lo ps = Ok (sql, vs, bs) \<Longrightarrow> bs = vs"
  by (induction ps arbitrary: lo sql vs bs)
    (auto simp: outcome_iff dest: bind_one_same_args)

lemma bindNamed_same_args:
  "fst (bindNamed E tc q arg (None :: unit config option)) = Ok (sql, vs, bs) \<Longrightarrow> bs = vs"
  by (auto simp: bindNamed_def Let_def slice_expansion_on_def outcome_iff
      dest: bind_loop_same_args split: outcome.splits if_splits rvalue.splits prod.splits)

definition batch_arg :: "rvalue \<Rightarrow> bool" where
  "batch_arg arg = (case derefValue arg of Ok (RV t d) \<Rightarrow> kind t = KSlice \<and> t \<noteq> TBytes | _ \<Rightarrow> False)"

lemma CacheKey_call:
  assumes "binds_like_default E cfg" "bindForExec E tc q arg cfg = (Ok b, tc')"
    "namedPlaces (parsePlaceholders q) = [] \<or> \<not> batch_arg arg"
  shows "fst (CacheKey E H tc ns q arg) = Ok (computeKey H ns (bq_bindSQL b) (bq_bindArgs b))"
proof -
  have key: ?thesis if "fst (bindNamed E tc q arg (None :: unit config option)) = Ok (bq_bindSQL b, vs, bq_bindArgs b)" for vs
    using that bindNamed_same_args [OF that]
    by (auto simp: CacheKey_def BindNamed_def split: prod.splits)
  show ?thesis
  proof (cases "namedPlaces (parsePlaceholders q) = []")
    case True
    then have "\<not> list_ex (\<lambda>p. pl_name p \<noteq> []) (parsePlaceholders q)"
      by (simp add: namedPlaces_def list_ex_iff filter_empty_conv)
    with True assms(2) key show ?thesis
      by (auto simp: bindForExec_def finish_bind_def bindNamed_def)
  next
    case False
    then have "list_ex (\<lambda>p. pl_name p \<noteq> []) (parsePlaceholders q)"
      by (simp add: namedPlaces_def list_ex_iff filter_empty_conv)
    with False assms(2,3) have "finish_bind cfg (bindNamed E tc q arg (Some cfg)) = (Ok b, tc')"
      by (auto simp: bindForExec_def batch_arg_def split: outcome.splits rvalue.splits if_splits)
    with key show ?thesis
      by (auto simp: bindNamed_default [OF assms(1)] finish_bind_def outcome_iff)
  qed
qed

text \<open>C30: \<open>InvalidateQuery\<close> forgets exactly the call it names. When the handle binds as the default
  configuration does and the argument is no batch, then for every statement and argument that bind,
  \<open>InvalidateQuery\<close> succeeds, the key of that call in that namespace is a miss, and every other key is as
  it was.\<close>

theorem InvalidateQuery_exact:
  assumes "binds_like_default E cfg" "bindForExec E tc q arg cfg = (Ok b, tc')"
    "namedPlaces (parsePlaceholders q) = [] \<or> \<not> batch_arg arg" "ms_wf s"
  shows "\<exists>tc2 s2. InvalidateQuery E H (bin_cfg mem c) (mem_ops lru_keys) tc ns q arg s = (Ok (), tc2, s2)
    \<and> (\<forall>k. fst (mem_hit mem c now k s2)
         = (if k = computeKey H ns (bq_bindSQL b) (bq_bindArgs b) then Ok None else fst (mem_hit mem c now k s)))"
proof -
  let ?k = "computeKey H ns (bq_bindSQL b) (bq_bindArgs b)"
  obtain tc2 where key: "CacheKey E H tc ns q arg = (Ok ?k, tc2)"
    using CacheKey_call [OF assms(1-3), of H ns] by (metis prod.collapse)
  obtain s2 where del: "st_Delete (mem_ops lru_keys) (storeKey (bin_cfg mem c) ?k) s = (Ok (), s2)"
    using mem.delete_ok [OF assms(4)] by (metis prod.collapse)
  have "InvalidateQuery E H (bin_cfg mem c) (mem_ops lru_keys) tc ns q arg s = (Ok (), tc2, s2)"
    using key del by (simp add: InvalidateQuery_def)
  moreover have "fst (mem_hit mem c now k s2) = (if k = ?k then Ok None else fst (mem_hit mem c now k s))" for k
    using cb.tryHit_delete [OF assms(4), of mem c now k ?k] del by simp
  ultimately show ?thesis by blast
qed

section \<open>Examples\<close>

definition write_cfg :: cache_config where
  "write_cfg = New_cache 1000 [WithInvalidateOnWrite]"

text \<open>A table with one number: the committed one, and the one an open transaction has written.\<close>

definition one_row :: "nat \<Rightarrow> db_rows" where
  "one_row n = scan_rows\<lparr>dr_rows := [[RV (TInt I64) (DInt (int n))]]\<rparr>"

definition iso_db :: "(nat \<times> nat option) executor" where
  "iso_db =
     \<lparr>ex_Exec = (\<lambda>q args d. ((Some (0, 1), Ok ()), 5, (fst d + 1, snd d))),
      ex_Query = (\<lambda>q args d. (Ok (one_row (fst d)), 5, d))\<rparr>"

definition iso_tx :: "(nat \<times> nat option) sql_tx" where
  "iso_tx =
     \<lparr>stx_exec = \<lparr>ex_Exec = (\<lambda>q args d. ((Some (0, 1), Ok ()), 5, (fst d, Some (fst d + 1)))),
                  ex_Query = (\<lambda>q args d. (Ok (one_row (case snd d of Some n \<Rightarrow> n | None \<Rightarrow> fst d)), 5, d))\<rparr>,
      stx_Exec = (\<lambda>stmt d. (Ok (), d)),
      stx_Commit = (\<lambda>d. (Ok (), case snd d of Some n \<Rightarrow> (n, None) | None \<Rightarrow> d)),
      stx_Rollback = (\<lambda>d. (Ok (), fst d, None))\<rparr>"

definition iso_cfg :: "(nat \<times> nat option, mem_store cache_world) plugin config" where
  "iso_cfg = (defaultConfig (ge_unicode conv_demo))
     \<lparr>plugins := [cache_plugin store_hash (bin_cfg 1000 write_cfg) (mem_ops lru_keys)]\<rparr>"

definition iso_world :: "(nat \<times> nat option, mem_store cache_world) world" where
  "iso_world = \<lparr>w_db = (1, None), w_now = 100, w_st = demo_state, w_reports = [],
     w_ext = \<lparr>cw_store = NewMemoryStore 0 0, cw_flight = new_flight, cw_next = 0\<rparr>\<rparr>"

definition iso_get where
  "iso_get opts w = getOp demo_core iso_db iso_cfg background False ''SELECT n'' Invalid opts (TInt I32) w"

definition iso_commit where
  "iso_commit w = (case Tx_Commit iso_tx outer_tx (w_db w) of (r, tx, d) \<Rightarrow> (r, w\<lparr>w_db := d\<rparr>))"

definition iso_tx_exec where
  "iso_tx_exec w = snd (Tx_Exec demo_core iso_tx outer_tx iso_cfg background ''UPDATE t SET n = n + 1'' Invalid [] w)"

definition iso_exec where
  "iso_exec w = execOp demo_core iso_db iso_cfg background False ''UPDATE t SET n = n + 1'' Invalid [] w"

text \<open>The row is in the cache when the statement runs.\<close>

definition iso_cached :: "(nat \<times> nat option, mem_store cache_world) world" where
  "iso_cached = iso_world\<lparr>w_ext := (w_ext iso_world)
     \<lparr>cw_store := snd (ms_Set 99 (query_key store_hash plug_bound [WithCache]) plug_bytes 0 (NewMemoryStore 0 0))\<rparr>\<rparr>"

lemma iso_exec_result: "fst (iso_exec iso_cached) = (Some (0, 1), Ok ())"
  by code_simp

lemma iso_exec_bind:
  "fst (bindForExec (cr_conv demo_core) (ss_tc (w_st (snd (iso_exec iso_cached)))) ''SELECT n'' Invalid iso_cfg) = Ok plug_bound"
  by code_simp

lemma iso_cached_hit: "fst (iso_get [WithCache] iso_cached) = (DInt 1, Ok ())"
  by code_simp

theorem write_then_read_witness:
  "fst (iso_get [WithCache] iso_cached) = (DInt 1, Ok ())
   \<and> (\<exists>w2. iso_get [WithCache] (snd (iso_exec iso_cached)) = ((DInt 2, Ok ()), w2) \<and> w_db w2 = (2, None))"
proof -
  let ?w1 = "snd (iso_exec iso_cached)"
  have p: "plugins iso_cfg = [cache_plugin store_hash (bin_cfg 1000 write_cfg) (mem_ops lru_keys)]" by (simp add: iso_cfg_def)
  have wf: "ms_wf (cw_store (w_ext iso_cached))" by (simp add: iso_cached_def ms_Set_wf [OF ms_wf_new])
  have run: "execOp demo_core iso_db iso_cfg background False ''UPDATE t SET n = n + 1'' Invalid [] iso_cached
      = ((Some (0, 1), Ok ()), ?w1)"
    using iso_exec_result unfolding iso_exec_def by (metis prod.collapse)
  have np: "\<not> (\<exists>m. Ok () = Panic m)" by simp
  have inval: "cch_invalidateOnWrite write_cfg" by (simp add: write_cfg_def New_cache_def)
  have flight: "cw_flight (w_ext ?w1) = new_flight"
    using execOp_store [OF p run np] by (auto simp: iso_cached_def iso_world_def)
  have "\<not> co_noCache (cacheOpts [WithCache])" by code_simp
  then have call: "cached_call demo_core store_hash (bin_cfg 1000 write_cfg) (mem_ops lru_keys) iso_cfg OpGet ''SELECT n'' Invalid
      [WithCache] plug_bound ?w1"
    using iso_exec_bind fl_wf_new p unfolding cached_call_def flight by (simp add: new_flight_def)
  have now: "fst (iso_get [WithCache] (empty_cache ?w1)) = (DInt 2, Ok ())" "w_db ?w1 = (2, None)" by code_simp+
  have get: "iso_get [WithCache] w = mapOp demo_core iso_db iso_cfg background OpGet False ''SELECT n'' Invalid [WithCache]
      (TInt I32) (new_zero (cr_conv demo_core) (TInt I32)) w" for w
    by (simp add: iso_get_def getOp_def)
  have q: "snd (snd (ex_Query iso_db (bq_boundSQL plug_bound) (bq_args plug_bound) (2, None))) = (2, None)" by (simp add: iso_db_def)
  show ?thesis
    using write_then_read [OF p wf run np disjI1 [OF inval] refl call, of iso_db background "TInt I32"
        "new_zero (cr_conv demo_core) (TInt I32)"] now
    unfolding get [symmetric] now q by (intro conjI iso_cached_hit)
qed

text \<open>A write in a transaction invalidates too early. The handle has \<open>WithInvalidateOnWrite\<close>. A transaction
  writes, which empties the cache; a cached \<open>Get\<close> outside of it reads the row that is still committed and
  stores it; the transaction commits, which touches no cache. From then on the cached \<open>Get\<close> returns the
  value of before the transaction, while the same \<open>Get\<close> without the cache returns the committed one.\<close>

lemma tx_write_stale:
  "let w1 = iso_tx_exec iso_world; (a, w2) = iso_get [WithCache] w1; (r, w3) = iso_commit w2 in
     a = (DInt 1, Ok ()) \<and> r = Ok () \<and> w_db w3 = (2, None)
     \<and> fst (iso_get [WithCache] w3) = (DInt 1, Ok ()) \<and> fst (iso_get [] w3) = (DInt 2, Ok ())"
  by code_simp

text \<open>One entry, of the statement with one named placeholder and a number for it.\<close>

definition user_bound :: bound_query where
  "user_bound = \<lparr>bq_boundSQL = ''id=?'', bq_bindSQL = ''id=?'', bq_bindArgs = [RV (TInt I64) (DInt 7)],
     bq_args = [RV (TInt I64) (DInt 7)]\<rparr>"

definition user_key :: string where
  "user_key = computeKey store_hash ''u'' (bq_bindSQL user_bound) (bq_bindArgs user_bound)"

definition user_store :: mem_store where
  "user_store = snd (ms_Set 99 user_key plug_bytes 0 (NewMemoryStore 0 0))"

lemma user_bind: "fst (bindForExec conv_demo (\<lambda>_. None) ''id=:id'' (RV (TInt I64) (DInt 7)) iso_cfg) = Ok user_bound"
  by code_simp

theorem InvalidateQuery_exact_witness:
  "(\<exists>rd. fst (mem_hit 1000 write_cfg 100 user_key user_store) = Ok (Some rd))
   \<and> (\<exists>tc2 s2. InvalidateQuery conv_demo store_hash (bin_cfg 1000 write_cfg) (mem_ops lru_keys) (\<lambda>_. None) ''u'' ''id=:id''
        (RV (TInt I64) (DInt 7)) user_store = (Ok (), tc2, s2)
      \<and> fst (mem_hit 1000 write_cfg 100 user_key s2) = Ok None)"
proof -
  have like: "binds_like_default conv_demo iso_cfg"
    by (simp add: binds_like_default_def iso_cfg_def defaultConfig_def cfg_tagName_def cfg_mapper_def)
  obtain tc' where bind: "bindForExec conv_demo (\<lambda>_. None) ''id=:id'' (RV (TInt I64) (DInt 7)) iso_cfg = (Ok user_bound, tc')"
    using user_bind by (metis prod.collapse)
  have batch: "\<not> batch_arg (RV (TInt I64) (DInt 7))" by code_simp
  have wf: "ms_wf user_store" by (simp add: user_store_def ms_Set_wf [OF ms_wf_new])
  have "fst (mem_hit 1000 write_cfg 100 user_key user_store) = Ok (Some (kept_data (TInt I32) [''n''] scan_rows))" by code_simp
  with InvalidateQuery_exact [OF like bind disjI2 [OF batch] wf, of store_hash 1000 write_cfg "''u''" 100]
  show ?thesis unfolding user_key_def by metis
qed

text \<open>A handle with slice expansion runs statements whose cached answer \<open>InvalidateQuery\<close> refuses to
  forget: it binds them without the expansion.\<close>

definition in_arg :: rvalue where
  "in_arg = RV (TMap TString TAny) (DMap [(DStr ''ids'', DIface (TSlice (TInt IInt)) (DSlice [DInt 4, DInt 5]))])"

lemma InvalidateQuery_refuses_slices:
  "(\<exists>b. fst (bindForExec conv_demo (\<lambda>_. None) ''i IN (:ids)'' in_arg (iso_cfg\<lparr>sliceExpansion := True\<rparr>)) = Ok b)
   \<and> (\<exists>e. fst (InvalidateQuery conv_demo store_hash write_cfg (mem_ops lru_keys) (\<lambda>_. None) [] ''i IN (:ids)'' in_arg user_store) = Err e)"
proof -
  have "case fst (bindForExec conv_demo (\<lambda>_. None) ''i IN (:ids)'' in_arg (iso_cfg\<lparr>sliceExpansion := True\<rparr>)) of Ok b \<Rightarrow> True | _ \<Rightarrow> False"
    "case fst (InvalidateQuery conv_demo store_hash write_cfg (mem_ops lru_keys) (\<lambda>_. None) [] ''i IN (:ids)'' in_arg user_store) of Err e \<Rightarrow> True | _ \<Rightarrow> False"
    by code_simp+
  then show ?thesis by (simp split: outcome.splits)
qed

end
