(* ===== verification/Freshness.thy ===== *)
theory Freshness
  imports CacheStore
begin

text \<open>
  What an invalidation means for later calls. After a key was invalidated, a goroutine without a hit yet
  hits only what was committed afterwards. A commit afterwards may still be of a query from before: the
  plugin keeps no record of the invalidations that happen between a miss and its commit.
\<close>

section \<open>Invalidations of a key\<close>

text \<open>The steps that invalidate the key \<open>k\<close> of the namespace \<open>ns\<close>: \<open>Flush\<close>, \<open>Invalidate\<close> of the key,
  \<open>InvalidateNamespace\<close>, and the \<open>After\<close> of an \<open>Exec\<close>, in a cache that invalidates on writes or with the
  option for the namespace.\<close>

inductive forgets ::
  "cache_config \<Rightarrow> 's store \<Rightarrow> string \<Rightarrow> string \<Rightarrow> ('s, 'r) cache_sys \<Rightarrow> ('s, 'r) cache_sys \<Rightarrow> bool"
  for c :: cache_config and ops :: "'s store" and k ns :: string and y :: "('s, 'r) cache_sys"
  where
  flush: "forgets c ops k ns y (y\<lparr>sy_store := snd (Flush ops (sy_store y))\<rparr>)"
| key: "forgets c ops k ns y (y\<lparr>sy_store := snd (Invalidate c ops k (sy_store y))\<rparr>)"
| namespace: "forgets c ops k ns y (y\<lparr>sy_store := snd (InvalidateNamespace c ops ns (sy_store y))\<rparr>)"
| exec: "sy_pc y t = TBefore info (BDone r) \<Longrightarrow> ei_op info = OpExec \<Longrightarrow>
    cch_invalidateOnWrite c \<or> ns \<noteq> [] \<and> co_invalidate (cacheOpts (ei_options info)) = ns \<Longrightarrow>
    After c ops (sy_now y) (info\<lparr>ei_err := err\<rparr>) (recorder_for r cols rows) (sy_store y) (sy_flight y)
      = (res, s', f') \<Longrightarrow>
    forgets c ops k ns y (y\<lparr>sy_pc := (sy_pc y)(t := TDone r), sy_store := s', sy_flight := f',
      sy_hist := history_entry c (info\<lparr>ei_err := err\<rparr>) (recorder_for r cols rows) @ sy_hist y\<rparr>)"

lemma forgets_step: "forgets c ops k ns y z \<Longrightarrow> cache_step H c ops y z"
  by (erule forgets.cases) (auto intro: cache_step.intros)

context cache_backend
begin

text \<open>The key is gone from the store, at any time of looking.\<close>

lemma forgets_lookup:
  assumes "forgets c ops k ns y z" "inv (sy_store y)" "has_prefix (storeKey c k) (cch_keyPrefix c @ ns @ [NUL])"
  shows "inv (sy_store z) \<and> lookup n (storeKey c k) (sy_store z) = None"
  using assms(1)
proof cases
  case (exec t info r err cols rows res s' f')
  have "s' = snd (st_Flush ops (sy_store y)) \<or> s' = snd (st_DeletePrefix ops (cch_keyPrefix c @ ns @ [NUL]) (sy_store y))"
    using exec(3-5) by (auto simp: After_def Let_def split: if_splits)
  with exec(1) assms(2,3) show ?thesis by (auto simp: flush_inv flush_lookup prefix_inv prefix_lookup)
qed (use assms(2,3) in \<open>simp_all add: Flush_def Invalidate_def InvalidateNamespace_def flush_inv flush_lookup
  delete_inv delete_lookup prefix_inv prefix_lookup\<close>)

lemma fresh_hit:
  assumes "cache_reach H c ops s0 now0 y1" "inv s0" "forgets c ops k ns y1 y2"
    "has_prefix (storeKey c k) (cch_keyPrefix c @ ns @ [NUL])" "cache_run H c ops y2 y3"
    "sy_pc y3 t = TBefore info (BDone (Hit k rd))" "sy_pc y2 t \<noteq> TBefore info (BDone (Hit k rd))"
  shows "\<exists>new d b. sy_hist y3 = new @ sy_hist y2 \<and> (k, d) \<in> set new \<and> cd_Encode cod d = Ok b \<and> cd_Decode cod b = Ok rd"
proof -
  have "\<exists>new. sy_hist y3 = new @ sy_hist y2 \<and> safe.replayed new k rd"
    using forgets_lookup [OF assms(3) safe.reach_store_inv [OF assms(1,2)] assms(4)]
    by (intro safe.hit_fresh [where K = "{storeKey c k}", OF assms(5) _ _ assms(6) _ assms(7)]) auto
  then show ?thesis unfolding safe.replayed_def by blast
qed

end

section \<open>Properties\<close>

text \<open>C7: Freshness. After a key was invalidated, by \<open>Flush\<close>, \<open>Invalidate\<close>, \<open>InvalidateNamespace\<close> or the \<open>After\<close>
  of an \<open>Exec\<close>, a hit that a goroutine gets later replays rows that were committed after the invalidation,
  whatever any number of goroutines did before and since.\<close>

theorem fresh_after_invalidation:
  fixes y1 :: "(mem_store, 'r) cache_sys"
  assumes "cache_reach H (bin_cfg mem c) (mem_ops lru_keys) (NewMemoryStore capacity ttl) now0 y1"
    "forgets (bin_cfg mem c) (mem_ops lru_keys) k ns y1 y2" "k = computeKey H ns q args" "NUL \<notin> set ns"
    "cache_run H (bin_cfg mem c) (mem_ops lru_keys) y2 y3"
    "sy_pc y3 t = TBefore info (BDone (Hit k rd))" "sy_pc y2 t \<noteq> TBefore info (BDone (Hit k rd))"
  shows "\<exists>new d b. sy_hist y3 = new @ sy_hist y2 \<and> (k, d) \<in> set new \<and> Encode d = Ok b \<and> Decode mem b = Ok rd"
proof -
  have "has_prefix (storeKey (bin_cfg mem c) k) (cch_keyPrefix (bin_cfg mem c) @ ns @ [NUL])"
    using key_prefix [OF assms(4), of "bin_cfg mem c" H q args ns] assms(3) by simp
  from cb.fresh_hit [OF assms(1) ms_wf_new assms(2) this assms(5-7)] show ?thesis
    unfolding binaryCodec_def codec.simps by blast
qed

text \<open>The limit. A goroutine that missed before the invalidation commits after it what its query read
  before, and later calls hit that; the invalidation is lost.\<close>

lemma stale_fill:
  fixes y :: "(mem_store, 'r) cache_sys" and d :: row_data
  assumes "cache_reach H (bin_cfg mem c) (mem_ops lru_keys) (NewMemoryStore capacity dttl) now0 y" "cch_singleflight c"
    "sy_pc y t = TBefore info (BDone (Miss k ttl))" "sy_pc y u = TIdle" "ei_err info = None"
    "before_start H (bin_cfg mem c) info = BAcquire k ttl" "ei_op info = OpGet \<or> ei_op info = OpSelect" "\<not> ei_inTx info"
    "Encode d = Ok b" "codec_fits mem d b"
  shows "\<exists>z. cache_run H (bin_cfg mem c) (mem_ops lru_keys) (y\<lparr>sy_store := snd (Flush (mem_ops lru_keys) (sy_store y))\<rparr>) z
    \<and> sy_pc z u = TBefore info (BDone (Hit k (norm_data d))) \<and> sy_hist z = (k, d) # sy_hist y"
proof -
  let ?y = "y\<lparr>sy_store := snd (Flush (mem_ops lru_keys) (sy_store y))\<rparr>"
  have sf: "cch_singleflight (bin_cfg mem c)" using assms(2) by simp
  have inv: "sys_inv ?y" using cache_reach_inv [OF assms(1) sf] by (simp add: sys_inv_def)
  have wf: "ms_wf (snd (Flush (mem_ops lru_keys) (sy_store y)))"
    using cb.safe.reach_store_inv [OF assms(1) ms_wf_new] mem.flush_inv by (simp add: Flush_def)
  have com: "commits (bin_cfg mem c) info \<lparr>rec_key = k, rec_ttl = ttl, rec_cols = rd_columns d, rec_rows = rd_rows d\<rparr> = Ok (Some b)"
    using assms(5,9) by (cases d) (simp add: commits_def recorded_def binaryCodec_def)
  have "cd_Decode (binaryCodec mem) b = Ok (norm_data d)"
    using bc.roundtrip [of mem d b] assms(9,10) by (simp add: binaryCodec_def)
  then have "fst (tryHit (bin_cfg mem c) (mem_ops lru_keys) (sy_now ?y) k
      (snd (st_Set (mem_ops lru_keys) (sy_now ?y) (storeKey (bin_cfg mem c) k) b ttl (sy_store ?y)))) = Ok (Some (norm_data d))"
    by (simp add: cb.tryHit_result [OF mem.set_inv [OF wf]] mem.set_same [OF wf])
  then obtain s' where hit: "tryHit (bin_cfg mem c) (mem_ops lru_keys) (sy_now ?y) k
      (snd (st_Set (mem_ops lru_keys) (sy_now ?y) (storeKey (bin_cfg mem c) k) b ttl (sy_store ?y))) = (Ok (Some (norm_data d)), s')"
    by (metis prod.collapse)
  have "sy_pc ?y t = TBefore info (BDone (Miss k ttl))" "sy_pc ?y u = TIdle" using assms(3,4) by simp_all
  from run_second_hit [OF inv sf this assms(5-8) com hit] show ?thesis by simp
qed

section \<open>Example\<close>

text \<open>A goroutine misses; then the cache is flushed; then it commits, and another goroutine hits.\<close>

lemma demo_miss:
  "\<exists>y. cache_reach store_hash (bin_cfg 1000 store_cfg) (mem_ops lru_keys) (NewMemoryStore 0 0) 0 y
     \<and> sy_pc y = (\<lambda>_. TIdle)(0 := TBefore run_info (BDone (Miss store_key 0)))"
proof -
  let ?c = "bin_cfg 1000 store_cfg" and ?y = "new_sys (NewMemoryStore 0 0) 0 :: (mem_store, unit) cache_sys"
  have sf: "cch_singleflight ?c" by (simp add: store_cfg_def New_cache_def)
  have n: "sy_pc ?y = (\<lambda>_. TIdle)" "fl_calls (sy_flight ?y) store_key = None" "ei_err run_info = None"
    by (simp_all add: new_sys_def new_flight_def run_info_def store_info_def)
  have "fst (tryHit ?c (mem_ops lru_keys) 0 store_key (NewMemoryStore 0 0)) = Ok None"
    by (simp add: cb.tryHit_result [OF ms_wf_new] ms_lookup_new)
  then obtain s where "tryHit ?c (mem_ops lru_keys) (sy_now ?y) store_key (sy_store ?y) = (Ok None, s)"
    by (metis prod.collapse cache_sys.select_convs(1,4) new_sys_def)
  from run_miss [OF sys_inv_new sf _ n(3) run_start n(2) this, of 0] obtain z where
    "cache_run store_hash ?c (mem_ops lru_keys) ?y z" "sy_pc z = (\<lambda>_. TIdle)(0 := TBefore run_info (BDone (Miss store_key 0)))"
    by (auto simp: n(1))
  with run_reach [OF this(1) cache_reach.start] show ?thesis by blast
qed

theorem fresh_after_invalidation_witness:
  "\<exists>y1 y2 y3 new d b. forgets (bin_cfg 1000 store_cfg) (mem_ops lru_keys) store_key ''b'' y1 y2
     \<and> cache_run store_hash (bin_cfg 1000 store_cfg) (mem_ops lru_keys) y2 y3
     \<and> sy_pc y3 1 = TBefore run_info (BDone (Hit store_key (norm_data demo_data)))
     \<and> sy_hist y3 = new @ sy_hist y2 \<and> (store_key, d) \<in> set new
     \<and> Encode d = Ok b \<and> Decode 1000 b = Ok (norm_data demo_data)"
proof -
  let ?c = "bin_cfg 1000 store_cfg"
  obtain y1 where y1: "cache_reach store_hash ?c (mem_ops lru_keys) (NewMemoryStore 0 0) 0 y1"
    "sy_pc y1 = (\<lambda>_. TIdle)(0 := TBefore run_info (BDone (Miss store_key 0)))" using demo_miss by blast
  let ?y2 = "y1\<lparr>sy_store := snd (Flush (mem_ops lru_keys) (sy_store y1))\<rparr>"
  have i: "ei_err run_info = None" "ei_op run_info = OpGet \<or> ei_op run_info = OpSelect" "\<not> ei_inTx run_info"
    "cch_singleflight store_cfg" "codec_fits 1000 demo_data demo_bytes"
    using demo_fits by (simp_all add: run_info_def store_info_def store_cfg_def New_cache_def codec_fits_def)
  obtain y3 where y3: "cache_run store_hash ?c (mem_ops lru_keys) ?y2 y3"
    "sy_pc y3 1 = TBefore run_info (BDone (Hit store_key (norm_data demo_data)))"
    using stale_fill [OF y1(1) i(4) _ _ i(1) run_start i(2,3) demo_encode i(5), of 0 1] y1(2) by auto
  have f: "forgets ?c (mem_ops lru_keys) store_key ''b'' y1 ?y2" by (rule forgets.flush)
  have ns: "NUL \<notin> set ''b''" by (simp add: NUL_def)
  have "sy_pc ?y2 1 \<noteq> TBefore run_info (BDone (Hit store_key (norm_data demo_data)))" using y1(2) by simp
  from fresh_after_invalidation [OF y1(1) f store_key_def ns y3 this] f y3 show ?thesis by blast
qed

end
