(* ===== verification/Redis.thy ===== *)
theory Redis
  imports Store
begin

text \<open>
  \<^verbatim>\<open>cache/redis/redis.go\<close>: the store on top of a Redis client. The client library and the server are
  not part of the repository: they are the parameter \<open>redis_client\<close>, with the answer of \<open>Get\<close> for a
  missing key (\<open>goredis.Nil\<close>) as \<open>Ok None\<close>. \<open>scanDel\<close> follows the cursors the server hands out, so it
  may run forever: it is a partial function, and that it returns is proved from what Redis documents
  about a full iteration.
\<close>

record 'r redis_client =
  rc_Get :: "int \<Rightarrow> string \<Rightarrow> 'r \<Rightarrow> string option outcome \<times> 'r"
  rc_Set :: "int \<Rightarrow> string \<Rightarrow> string \<Rightarrow> int \<Rightarrow> 'r \<Rightarrow> unit outcome \<times> 'r"
  rc_Del :: "string list \<Rightarrow> 'r \<Rightarrow> unit outcome \<times> 'r"
  rc_Scan :: "nat \<Rightarrow> string \<Rightarrow> nat \<Rightarrow> 'r \<Rightarrow> (string list \<times> nat) outcome \<times> 'r"
  rc_FlushDB :: "'r \<Rightarrow> unit outcome \<times> 'r"

text \<open>The store itself: the client it holds and its key prefix.\<close>

record 'r redis_store =
  rs_client :: "'r redis_client"
  rs_prefix :: string

definition WithKeyPrefix_redis :: "string \<Rightarrow> 'r redis_store \<Rightarrow> 'r redis_store" where
  "WithKeyPrefix_redis p s = s\<lparr>rs_prefix := p\<rparr>"

definition NewStore :: "'r redis_client \<Rightarrow> ('r redis_store \<Rightarrow> 'r redis_store) list \<Rightarrow> 'r redis_store" where
  "NewStore client opts = foldl (\<lambda>s opt. opt s) \<lparr>rs_client = client, rs_prefix = []\<rparr> opts"

definition redis_key :: "'r redis_store \<Rightarrow> string \<Rightarrow> string" where
  "redis_key s k = rs_prefix s @ k"

definition redis_Get :: "'r redis_store \<Rightarrow> int \<Rightarrow> string \<Rightarrow> 'r \<Rightarrow> string option outcome \<times> 'r" where
  "redis_Get s now k r =
     (case rc_Get (rs_client s) now (redis_key s k) r of
        (Ok None, r') \<Rightarrow> (Ok None, r')
      | (Err e, r') \<Rightarrow> (Err e, r')
      | (Panic m, r') \<Rightarrow> (Panic m, r')
      | (Ok (Some b), r') \<Rightarrow> (Ok (Some b), r'))"

definition redis_Set :: "'r redis_store \<Rightarrow> int \<Rightarrow> string \<Rightarrow> string \<Rightarrow> int \<Rightarrow> 'r \<Rightarrow> unit outcome \<times> 'r" where
  "redis_Set s now k v ttl r = rc_Set (rs_client s) now (redis_key s k) v ttl r"

definition redis_Delete :: "'r redis_store \<Rightarrow> string \<Rightarrow> 'r \<Rightarrow> unit outcome \<times> 'r" where
  "redis_Delete s k r = rc_Del (rs_client s) [redis_key s k] r"

text \<open>One round of \<open>scanDel\<close>: \<open>Inl\<close> is its return, \<open>Inr\<close> the cursor to go on with.\<close>

definition scan_round :: "'r redis_client \<Rightarrow> string \<Rightarrow> nat \<Rightarrow> 'r \<Rightarrow> (unit outcome + nat) \<times> 'r" where
  "scan_round cl pat cursor r =
     (case rc_Scan cl cursor pat 200 r of
        (Ok (keys, next'), r1) \<Rightarrow>
          (case (if length keys > 0 then rc_Del cl keys r1 else (Ok (), r1)) of
             (Ok u, r2) \<Rightarrow> (if next' = 0 then (Inl (Ok ()), r2) else (Inr next', r2))
           | (Err e, r2) \<Rightarrow> (Inl (Err e), r2)
           | (Panic m, r2) \<Rightarrow> (Inl (Panic m), r2))
      | (Err e, r1) \<Rightarrow> (Inl (Err e), r1)
      | (Panic m, r1) \<Rightarrow> (Inl (Panic m), r1))"

partial_function (option) scanDel_loop ::
  "'r redis_client \<Rightarrow> string \<Rightarrow> nat \<Rightarrow> 'r \<Rightarrow> (unit outcome \<times> 'r) option" where
  [code]: "scanDel_loop cl pat cursor r =
     (case scan_round cl pat cursor r of
        (Inl res, r') \<Rightarrow> Some (res, r')
      | (Inr next', r') \<Rightarrow> scanDel_loop cl pat next' r')"

definition scanDel :: "'r redis_store \<Rightarrow> string \<Rightarrow> 'r \<Rightarrow> (unit outcome \<times> 'r) option" where
  "scanDel s pat r = scanDel_loop (rs_client s) pat 0 r"

definition redis_DeletePrefix :: "'r redis_store \<Rightarrow> string \<Rightarrow> 'r \<Rightarrow> (unit outcome \<times> 'r) option" where
  "redis_DeletePrefix s p r = scanDel s (rs_prefix s @ p @ ''*'') r"

definition redis_Flush :: "'r redis_store \<Rightarrow> 'r \<Rightarrow> (unit outcome \<times> 'r) option" where
  "redis_Flush s r =
     (if rs_prefix s \<noteq> [] then scanDel s (rs_prefix s @ ''*'') r
      else Some (rc_FlushDB (rs_client s) r))"

section \<open>What Redis documents\<close>

text \<open>
  \<open>scan_contract cl keys matches todo rank\<close>, of a client whose server holds the keys \<open>keys r\<close> and
  matches patterns with \<open>matches\<close>: \<open>DEL\<close> removes the keys it is given and no other; \<open>SCAN\<close> changes
  nothing and returns keys that match; what is still to be visited from a cursor (\<open>todo\<close>; everything
  from cursor 0) is returned or still to be visited from the next cursor, and cursors advance
  (\<open>rank\<close>) until 0 comes back.
\<close>

definition scan_contract ::
  "'r redis_client \<Rightarrow> ('r \<Rightarrow> string set) \<Rightarrow> (string \<Rightarrow> string \<Rightarrow> bool) \<Rightarrow> (nat \<Rightarrow> string set) \<Rightarrow> (nat \<Rightarrow> nat) \<Rightarrow> bool" where
  "scan_contract cl keys matches todo rank =
     ((\<forall>ks r. fst (rc_Del cl ks r) = Ok () \<and> keys (snd (rc_Del cl ks r)) = keys r - set ks)
      \<and> todo 0 = UNIV
      \<and> (\<forall>c pat r. \<exists>ks c'. rc_Scan cl c pat 200 r = (Ok (ks, c'), r)
            \<and> set ks \<subseteq> {k \<in> keys r. matches pat k}
            \<and> {k \<in> keys r. matches pat k} \<inter> todo c \<subseteq> set ks \<union> (if c' = 0 then {} else todo c')
            \<and> (c' \<noteq> 0 \<longrightarrow> rank c' < rank c)))"

lemma scan_contractD:
  assumes "scan_contract cl keys matches todo rank"
  shows "\<exists>r'. rc_Del cl ks r = (Ok (), r') \<and> keys r' = keys r - set ks"
    and "todo 0 = UNIV"
    and "\<exists>ks c'. rc_Scan cl c pat 200 r = (Ok (ks, c'), r)
            \<and> set ks \<subseteq> {k \<in> keys r. matches pat k}
            \<and> {k \<in> keys r. matches pat k} \<inter> todo c \<subseteq> set ks \<union> (if c' = 0 then {} else todo c')
            \<and> (c' \<noteq> 0 \<longrightarrow> rank c' < rank c)"
proof -
  have "fst (rc_Del cl ks r) = Ok ()" "keys (snd (rc_Del cl ks r)) = keys r - set ks"
    using assms unfolding scan_contract_def by blast+
  then show "\<exists>r'. rc_Del cl ks r = (Ok (), r') \<and> keys r' = keys r - set ks"
    by (cases "rc_Del cl ks r") simp
qed (use assms in \<open>unfold scan_contract_def, blast+\<close>)

lemma scan_round_contract:
  assumes "scan_contract cl keys matches todo rank"
  obtains c' r' where "scan_round cl pat c r = ((if c' = 0 then Inl (Ok ()) else Inr c'), r')"
    "keys r - keys r' \<subseteq> {k. matches pat k}" "keys r' \<subseteq> keys r"
    "{k \<in> keys r'. matches pat k} \<inter> todo c \<subseteq> (if c' = 0 then {} else todo c')"
    "c' \<noteq> 0 \<longrightarrow> rank c' < rank c"
proof -
  obtain ks c' where s: "rc_Scan cl c pat 200 r = (Ok (ks, c'), r)"
    "set ks \<subseteq> {k \<in> keys r. matches pat k}"
    "{k \<in> keys r. matches pat k} \<inter> todo c \<subseteq> set ks \<union> (if c' = 0 then {} else todo c')"
    "c' \<noteq> 0 \<longrightarrow> rank c' < rank c"
    using scan_contractD(3) [OF assms] by blast
  obtain r' where d: "(if length ks > 0 then rc_Del cl ks r else (Ok (), r)) = (Ok (), r')"
    "keys r' = keys r - set ks"
    using scan_contractD(1) [OF assms, of ks r] by (cases "ks = []") auto
  have "scan_round cl pat c r = ((if c' = 0 then Inl (Ok ()) else Inr c'), r')"
    using s(1) d(1) by (simp add: scan_round_def)
  then show thesis by (rule that) (use s(2-4) d(2) in auto)
qed

lemma scanDel_loop_contract:
  assumes "scan_contract cl keys matches todo rank"
  shows "\<exists>r'. scanDel_loop cl pat c r = Some (Ok (), r') \<and> keys r' \<subseteq> keys r
    \<and> keys r - keys r' \<subseteq> {k. matches pat k} \<and> {k \<in> keys r'. matches pat k} \<inter> todo c = {}"
proof (induction "rank c" arbitrary: c r rule: less_induct)
  case less
  obtain c' r1 where r1: "scan_round cl pat c r = ((if c' = 0 then Inl (Ok ()) else Inr c'), r1)"
    "keys r - keys r1 \<subseteq> {k. matches pat k}" "keys r1 \<subseteq> keys r"
    "{k \<in> keys r1. matches pat k} \<inter> todo c \<subseteq> (if c' = 0 then {} else todo c')"
    "c' \<noteq> 0 \<longrightarrow> rank c' < rank c"
    using scan_round_contract [OF assms, of pat c r] .
  show ?case
  proof (cases "c' = 0")
    case True
    with r1 show ?thesis by (subst scanDel_loop.simps) auto
  next
    case False
    with less(1) [of c' r1] r1(5) obtain r2 where "scanDel_loop cl pat c' r1 = Some (Ok (), r2)"
      "keys r2 \<subseteq> keys r1" "keys r1 - keys r2 \<subseteq> {k. matches pat k}"
      "{k \<in> keys r2. matches pat k} \<inter> todo c' = {}" by blast
    with False r1 show ?thesis by (subst scanDel_loop.simps) auto
  qed
qed

lemma scanDel_contract:
  assumes "scan_contract (rs_client s) keys matches todo rank"
  shows "\<exists>r'. scanDel s pat r = Some (Ok (), r') \<and> keys r' = {k \<in> keys r. \<not> matches pat k}"
  using scanDel_loop_contract [OF assms, of pat 0 r] scan_contractD(2) [OF assms]
  unfolding scanDel_def by auto

section \<open>Properties\<close>

text \<open>C28: When the client keeps to what Redis documents and a pattern \<open>p*\<close> with the store's prefix
  matches exactly the keys that start with \<open>p\<close>, then \<open>DeletePrefix\<close> returns, without an error, and
  leaves exactly the keys that do not start with the store prefix and the given prefix; and \<open>Flush\<close> of
  a store with a prefix leaves exactly the keys outside that prefix.\<close>

theorem redis_DeletePrefix_correct:
  assumes "scan_contract (rs_client s) keys matches todo rank"
    and "\<And>k. matches (rs_prefix s @ p @ ''*'') k \<longleftrightarrow> has_prefix k (rs_prefix s @ p)"
    and "\<And>k. matches (rs_prefix s @ ''*'') k \<longleftrightarrow> has_prefix k (rs_prefix s)"
  shows "(\<exists>r'. redis_DeletePrefix s p r = Some (Ok (), r')
            \<and> keys r' = {k \<in> keys r. \<not> has_prefix k (rs_prefix s @ p)})
    \<and> (rs_prefix s \<noteq> [] \<longrightarrow>
         (\<exists>r'. redis_Flush s r = Some (Ok (), r') \<and> keys r' = {k \<in> keys r. \<not> has_prefix k (rs_prefix s)}))"
  using scanDel_contract [OF assms(1), of "rs_prefix s @ p @ ''*''" r]
    scanDel_contract [OF assms(1), of "rs_prefix s @ ''*''" r]
  by (simp add: assms(2,3) redis_DeletePrefix_def redis_Flush_def)

text \<open>A server with two hash buckets, keys of even and of odd length, visited in turn.\<close>

definition star_match :: "string \<Rightarrow> string \<Rightarrow> bool" where
  "star_match pat k = (if last pat = CHR ''*'' then has_prefix k (butlast pat) else k = pat)"

definition demo_client :: "string list redis_client" where
  "demo_client =
     \<lparr>rc_Get = (\<lambda>now k r. (Ok (if k \<in> set r then Some [] else None), r)),
      rc_Set = (\<lambda>now k v ttl r. (Ok (), k # r)),
      rc_Del = (\<lambda>ks r. (Ok (), filter (\<lambda>k. k \<notin> set ks) r)),
      rc_Scan = (\<lambda>c pat n r.
        (if c = 0 then Ok (filter (\<lambda>k. star_match pat k \<and> even (length k)) r, 1)
         else Ok (filter (\<lambda>k. star_match pat k \<and> odd (length k)) r, 0), r)),
      rc_FlushDB = (\<lambda>r. (Ok (), []))\<rparr>"

definition demo_redis :: "string list redis_store" where
  "demo_redis = NewStore demo_client [WithKeyPrefix_redis ''app:'']"

lemma demo_scan_contract:
  "scan_contract demo_client set star_match (\<lambda>c. if c = 0 then UNIV else {k. odd (length k)}) (\<lambda>c. 1 - c)"
  by (auto simp: scan_contract_def demo_client_def)

theorem redis_DeletePrefix_correct_witness:
  "\<exists>r'. redis_DeletePrefix demo_redis ''u'' [''app:u1'', ''app:u'', ''app:v'', ''u''] = Some (Ok (), r')
     \<and> set r' = {''app:v'', ''u''}"
proof -
  have *: "rs_client demo_redis = demo_client" "rs_prefix demo_redis = ''app:''"
    by (simp_all add: demo_redis_def NewStore_def WithKeyPrefix_redis_def)
  have set: "{k \<in> set [''app:u1'', ''app:u'', ''app:v'', ''u'']. \<not> has_prefix k (''app:'' @ ''u'')} = {''app:v'', ''u''}"
    by auto
  show ?thesis
    using redis_DeletePrefix_correct [of demo_redis set star_match
        "\<lambda>c. if c = 0 then UNIV else {k. odd (length k)}" "\<lambda>c. 1 - c" "''u''" "[''app:u1'', ''app:u'', ''app:v'', ''u'']"]
      demo_scan_contract
    unfolding * set by (simp add: star_match_def)
qed

end
