(* ===== verification/RedisCache.thy ===== *)
theory RedisCache
  imports Redis CacheStore
begin

text \<open>
  The Redis store as the store of the cache plugin. It keeps the weak store contract over every client
  that does, so coherence holds with it whatever commands fail, entries expire or keys are evicted; and
  what the pattern of \<open>DeletePrefix\<close> does to a prefix with a wildcard in it.
\<close>

section \<open>The Redis store as a store\<close>

text \<open>A call that never returns has no result; it is told apart as a panic that leaves the state.\<close>

definition returned :: "('a outcome \<times> 'r) option \<Rightarrow> 'r \<Rightarrow> 'a outcome \<times> 'r" where
  "returned x r = (case x of Some y \<Rightarrow> y | None \<Rightarrow> (Panic ''does not return'', r))"

definition redis_ops :: "'r redis_store \<Rightarrow> 'r store" where
  "redis_ops s =
     \<lparr>st_Get = redis_Get s, st_Set = redis_Set s, st_Delete = redis_Delete s,
      st_DeletePrefix = (\<lambda>p r. returned (redis_DeletePrefix s p r) r),
      st_Flush = (\<lambda>r. returned (redis_Flush s r) r)\<rparr>"

text \<open>
  \<open>redis_safe cl view\<close>, of a client whose server shows \<open>view now k r\<close> under a key: \<open>GET\<close> answers with
  what is shown, a \<open>SET\<close> shows its own value under its own key or nothing new, and no other command
  makes anything visible. Every command may fail, and any key may vanish.
\<close>

definition redis_safe :: "'r redis_client \<Rightarrow> (int \<Rightarrow> string \<Rightarrow> 'r \<Rightarrow> string option) \<Rightarrow> bool" where
  "redis_safe cl view =
     ((\<forall>now k r v. fst (rc_Get cl now k r) = Ok (Some v) \<longrightarrow> view now k r = Some v)
      \<and> (\<forall>now now' k k' r w. now \<le> now' \<longrightarrow> view now' k' (snd (rc_Get cl now k r)) = Some w \<longrightarrow> view now' k' r = Some w)
      \<and> (\<forall>now now' k v ttl k' r w. now \<le> now' \<longrightarrow> view now' k' (snd (rc_Set cl now k v ttl r)) = Some w \<longrightarrow>
            (k' = k \<and> w = v) \<or> view now' k' r = Some w)
      \<and> (\<forall>ks now k' r w. view now k' (snd (rc_Del cl ks r)) = Some w \<longrightarrow> view now k' r = Some w)
      \<and> (\<forall>cur pat n now k' r w. view now k' (snd (rc_Scan cl cur pat n r)) = Some w \<longrightarrow> view now k' r = Some w)
      \<and> (\<forall>now k' r w. view now k' (snd (rc_FlushDB cl r)) = Some w \<longrightarrow> view now k' r = Some w))"

lemma redis_safeD:
  assumes "redis_safe cl view"
  shows "fst (rc_Get cl now k r) = Ok (Some v) \<Longrightarrow> view now k r = Some v"
    and "now \<le> now' \<Longrightarrow> view now' k' (snd (rc_Get cl now k r)) = Some w \<Longrightarrow> view now' k' r = Some w"
    and "now \<le> now' \<Longrightarrow> view now' k' (snd (rc_Set cl now k x ttl r)) = Some w \<Longrightarrow>
      (k' = k \<and> w = x) \<or> view now' k' r = Some w"
    and "view now k' (snd (rc_Del cl ks r)) = Some w \<Longrightarrow> view now k' r = Some w"
    and "view now k' (snd (rc_Scan cl cur pat n r)) = Some w \<Longrightarrow> view now k' r = Some w"
    and "view now k' (snd (rc_FlushDB cl r)) = Some w \<Longrightarrow> view now k' r = Some w"
  using assms unfolding redis_safe_def by fast+

lemma scan_round_view:
  assumes "redis_safe cl view" "view now k (snd (scan_round cl pat cur r)) = Some w"
  shows "view now k r = Some w"
proof -
  obtain x r1 where sc: "rc_Scan cl cur pat 200 r = (x, r1)" by fastforce
  have "view now k r1 = Some w"
    using assms(2) redis_safeD(4) [OF assms(1), of now k _ r1 w]
    by (auto simp: scan_round_def sc split: outcome.splits prod.splits if_splits) (metis snd_conv)+
  with redis_safeD(5) [OF assms(1), of now k cur pat 200 r w] sc show ?thesis by simp
qed

lemma scanDel_loop_view:
  assumes "redis_safe cl view" "scanDel_loop cl pat cur r = Some y" "view now k (snd y) = Some w"
  shows "view now k r = Some w"
proof -
  let ?P = "\<lambda>cl' pt cu q z. cl' = cl \<longrightarrow> view now k (snd z) = Some w \<longrightarrow> view now k q = Some w"
  have "?P cl pat cur r y"
  proof (rule scanDel_loop.raw_induct [where P = ?P, OF _ assms(2)])
    fix loop cl' pt cu q z
    assume IH: "\<And>cl' pt cu q z. loop cl' pt cu q = Some z \<Longrightarrow> ?P cl' pt cu q z"
      and run: "(case scan_round cl' pt cu q of (Inl res, r') \<Rightarrow> Some (res, r') | (Inr next', r') \<Rightarrow> loop cl' pt next' r') = Some z"
    obtain x q1 where x: "scan_round cl' pt cu q = (x, q1)" by fastforce
    then have "cl' = cl \<longrightarrow> view now k q1 = Some w \<longrightarrow> view now k q = Some w"
      using scan_round_view [OF assms(1), of now k pt cu q w] by auto
    with IH run x show "?P cl' pt cu q z" by (cases x) auto
  qed
  with assms(3) show ?thesis by blast
qed

lemma returned_view:
  assumes "redis_safe (rs_client s) view" "view now k (snd (returned (scanDel s pat r) r)) = Some w"
  shows "view now k r = Some w"
  using assms scanDel_loop_view [OF assms(1)]
  by (auto simp: returned_def scanDel_def split: option.splits)

lemma redis_kv_safe:
  assumes "redis_safe (rs_client s) view"
  shows "kv_safe (redis_ops s) (\<lambda>_. True) (\<lambda>now k r. view now (redis_key s k) r)"
proof (unfold_locales, simp_all only: redis_ops_def store.simps)
  fix now now' :: int and k k' v w p :: string and ttl :: int and r
  note safe = redis_safeD [OF assms]
  show "view now (redis_key s k) r = Some v" if "fst (redis_Get s now k r) = Ok (Some v)"
    using that by (intro safe(1)) (auto simp: redis_Get_def split: prod.splits outcome.splits option.splits)
  have get: "snd (redis_Get s now k r) = snd (rc_Get (rs_client s) now (redis_key s k) r)"
    by (auto simp: redis_Get_def split: prod.splits outcome.splits option.splits)
  show "view now' (redis_key s k') r = Some w"
    if "now \<le> now'" "view now' (redis_key s k') (snd (redis_Get s now k r)) = Some w"
    using that(2) unfolding get by (rule safe(2) [OF that(1)])
  show "(k' = k \<and> w = v) \<or> view now' (redis_key s k') r = Some w"
    if "now \<le> now'" "view now' (redis_key s k') (snd (redis_Set s now k v ttl r)) = Some w"
    using safe(3) [OF that(1), of "redis_key s k'" "redis_key s k" v ttl r w] that(2)
    by (auto simp: redis_Set_def redis_key_def)
  show "view now (redis_key s k') r = Some w"
    if "view now (redis_key s k') (snd (redis_Delete s k r)) = Some w"
    using that by (auto simp: redis_Delete_def dest: safe(4))
  show "view now (redis_key s k') r = Some w"
    if "view now (redis_key s k') (snd (returned (redis_DeletePrefix s p r) r)) = Some w"
    using that unfolding redis_DeletePrefix_def by (rule returned_view [OF assms])
  show "view now (redis_key s k') r = Some w"
    if "view now (redis_key s k') (snd (returned (redis_Flush s r) r)) = Some w"
    using that returned_view [OF assms, of now "redis_key s k'" "rs_prefix s @ ''*''" r w]
    by (auto simp: redis_Flush_def returned_def dest: safe(6) split: if_splits)
qed

section \<open>Coherence\<close>

text \<open>C8: Coherence over Redis. Let the cache use the Redis store with a client that may fail on any
  command and lose any key, but shows under a key only what was set there, and let no key of the store's
  prefix be visible at the start. Then in every reachable state of any number of goroutines a hit has the
  key of its own call, and its rows are what a clean call committed under that key, encoded and decoded.\<close>

theorem redis_coherence:
  fixes y :: "('r, 'i) cache_sys"
  assumes "redis_safe (rs_client s) view" "\<And>n k. view n (redis_key s k) r0 = None"
    "cache_reach H (bin_cfg mem c) (redis_ops s) r0 now0 y" "sy_pc y t = TBefore info (BDone (Hit k rd))"
  shows "k = call_key H info
    \<and> (\<exists>d b. (k, d) \<in> set (sy_hist y) \<and> Encode d = Ok b \<and> Decode mem b = Ok rd
          \<and> (data_ok mem d \<and> length b < 2 ^ 63 \<longrightarrow> rd = norm_data d))"
proof -
  have "safe_backend (redis_ops s) (\<lambda>_. True) (\<lambda>now k r. view now (redis_key s k) r)
      (binaryCodec mem) (codec_fits mem) norm_data (bin_cfg mem c)"
    by (intro safe_backend.intro safe_backend_axioms.intro redis_kv_safe assms(1) bc.row_codec_axioms) simp
  from safe_backend.hit_coherent [OF this assms(3) TrueI assms(2,4)] show ?thesis
    unfolding binaryCodec_def codec_fits_def codec.simps by blast
qed

text \<open>A server that keeps its keys in a list, forgets every key longer than 64 bytes and cannot \<open>FLUSHDB\<close>.\<close>

definition list_client :: "(string \<times> string) list redis_client" where
  "list_client =
     \<lparr>rc_Get = (\<lambda>now k r. (Ok (map_of r k), r)),
      rc_Set = (\<lambda>now k v ttl r. if length k > 64 then (Err (ErrOther ''OOM''), r) else (Ok (), (k, v) # r)),
      rc_Del = (\<lambda>ks r. (Ok (), filter (\<lambda>e. fst e \<notin> set ks) r)),
      rc_Scan = (\<lambda>c pat n r. (Ok (filter (star_match pat) (map fst r), 0), r)),
      rc_FlushDB = (\<lambda>r. (Err (ErrOther ''NOPERM''), r))\<rparr>"

definition list_redis :: "(string \<times> string) list redis_store" where
  "list_redis = NewStore list_client [WithKeyPrefix_redis ''app:'']"

lemma list_redis_simps [simp]: "rs_client list_redis = list_client" "rs_prefix list_redis = ''app:''"
  by (simp_all add: list_redis_def NewStore_def WithKeyPrefix_redis_def)

lemma map_of_filter_visible: "map_of (filter (\<lambda>e. fst e \<notin> K) r) k = Some w \<Longrightarrow> map_of r k = Some w"
  using map_of_filter_keys [of "\<lambda>k. k \<notin> K" r k] by (simp split: if_splits)

lemma list_client_safe: "redis_safe list_client (\<lambda>now k r. map_of r k)"
  by (auto simp: redis_safe_def list_client_def dest: map_of_filter_visible split: if_splits)

lemma list_redis_run:
  "\<exists>y. cache_reach store_hash (bin_cfg 1000 store_cfg) (redis_ops list_redis) [] 0 y
     \<and> sy_pc y 1 = TBefore run_info (BDone (Hit store_key demo_data))"
proof (rule reach_hit)
  show "before_start store_hash (bin_cfg 1000 store_cfg) run_info = BAcquire store_key 0" by (rule run_start)
  show "tryHit (bin_cfg 1000 store_cfg) (redis_ops list_redis) 0 store_key [] = (Ok None, [])" by code_simp
  show "commits (bin_cfg 1000 store_cfg) run_info
      \<lparr>rec_key = store_key, rec_ttl = 0, rec_cols = rd_columns demo_data, rec_rows = rd_rows demo_data\<rparr>
    = Ok (Some demo_bytes)" by code_simp
  show "tryHit (bin_cfg 1000 store_cfg) (redis_ops list_redis) 0 store_key
      (snd (st_Set (redis_ops list_redis) 0 (storeKey (bin_cfg 1000 store_cfg) store_key) demo_bytes 0 []))
    = (Ok (Some demo_data), [(''app:'' @ store_key, demo_bytes)])" by code_simp
qed (simp_all add: run_info_def store_info_def store_cfg_def New_cache_def)

theorem redis_coherence_witness:
  "\<exists>d b. Encode d = Ok b \<and> Decode 1000 b = Ok demo_data \<and> store_key = call_key store_hash run_info"
proof -
  obtain y where y: "cache_reach store_hash (bin_cfg 1000 store_cfg) (redis_ops list_redis) [] 0 y"
    "sy_pc y 1 = TBefore run_info (BDone (Hit store_key demo_data))"
    using list_redis_run by blast
  have "redis_safe (rs_client list_redis) (\<lambda>now k r. map_of r k)" using list_client_safe by simp
  from redis_coherence [OF this _ y] show ?thesis by auto
qed

section \<open>Wildcards\<close>

text \<open>The prefix goes into the pattern of \<open>SCAN\<close> as it is. If a question mark matches any byte there, as
  Redis documents, then \<open>InvalidateNamespace\<close> of a namespace that ends in one also removes the entries of
  other namespaces; over the memory store it removes its own only.\<close>

lemma redis_namespace_wildcard:
  assumes "scan_contract (rs_client s) keys matches todo rank"
    and "\<And>pre suf ch rest. matches (pre @ ''?'' @ suf @ ''*'') (pre @ [ch] @ suf @ rest)"
  shows "redis_key s (cch_keyPrefix c @ ns @ [ch] @ [NUL] @ rest)
    \<notin> keys (snd (InvalidateNamespace c (redis_ops s) (ns @ ''?'') r))"
proof -
  let ?p = "cch_keyPrefix c @ (ns @ ''?'') @ [NUL]"
  obtain r' where r': "scanDel s (rs_prefix s @ ?p @ ''*'') r = Some (Ok (), r')"
    "keys r' = {k \<in> keys r. \<not> matches (rs_prefix s @ ?p @ ''*'') k}"
    using scanDel_contract [OF assms(1)] by blast
  have "InvalidateNamespace c (redis_ops s) (ns @ ''?'') r = (Ok (), r')"
    using r'(1) by (simp add: InvalidateNamespace_def redis_ops_def redis_DeletePrefix_def returned_def)
  with r'(2) assms(2) [of "rs_prefix s @ cch_keyPrefix c @ ns" "[NUL]" ch rest] show ?thesis
    by (simp add: redis_key_def)
qed

end
