(* ===== verification/Log.thy ===== *)
theory Log
  imports Errors
begin

text \<open>
  \<^verbatim>\<open>log/log.go\<close> and \<^verbatim>\<open>log/rainbowlog/rainbowlog.go\<close>: the two logging plugins. \<open>After\<close> chooses a level,
  drops the record below the configured threshold and otherwise emits one record, here a value.
  The levels of \<open>slog\<close> are its constants; those of the rainbowlog library are a parameter.
\<close>

record log_config =
  lg_level :: int
  lg_slowThreshold :: int
  lg_withQuery :: bool
  lg_withArgs :: bool

datatype log_option =
    WithLevel int
  | WithSlowQueryThreshold int
  | WithQuery bool
  | WithArgs bool

fun apply_log_option :: "log_config \<Rightarrow> log_option \<Rightarrow> log_config" where
  "apply_log_option c (WithLevel l) = c\<lparr>lg_level := l\<rparr>"
| "apply_log_option c (WithSlowQueryThreshold d) = c\<lparr>lg_slowThreshold := d\<rparr>"
| "apply_log_option c (WithQuery b) = c\<lparr>lg_withQuery := b\<rparr>"
| "apply_log_option c (WithArgs b) = c\<lparr>lg_withArgs := b\<rparr>"

text \<open>The rainbowlog plugin declares the same options for itself.\<close>

type_synonym rl_config = log_config

fun apply_rl_option :: "rl_config \<Rightarrow> log_option \<Rightarrow> rl_config" where
  "apply_rl_option c (WithLevel l) = c\<lparr>lg_level := l\<rparr>"
| "apply_rl_option c (WithSlowQueryThreshold d) = c\<lparr>lg_slowThreshold := d\<rparr>"
| "apply_rl_option c (WithQuery b) = c\<lparr>lg_withQuery := b\<rparr>"
| "apply_rl_option c (WithArgs b) = c\<lparr>lg_withArgs := b\<rparr>"

record log_levels =
  lv_info :: int
  lv_warn :: int
  lv_error :: int

definition slog_levels :: log_levels where
  "slog_levels = \<lparr>lv_info = 0, lv_warn = 4, lv_error = 8\<rparr>"

text \<open>\<open>New\<close>, up to the logger.\<close>

definition New_log :: "log_levels \<Rightarrow> log_option list \<Rightarrow> log_config" where
  "New_log L opts =
     foldl apply_log_option
       \<lparr>lg_level = lv_info L, lg_slowThreshold = 0, lg_withQuery = True, lg_withArgs = False\<rparr> opts"

definition New_rainbowlog :: "log_levels \<Rightarrow> log_option list \<Rightarrow> rl_config" where
  "New_rainbowlog L opts =
     foldl apply_rl_option
       \<lparr>lg_level = lv_info L, lg_slowThreshold = 0, lg_withQuery = True, lg_withArgs = False\<rparr> opts"

section \<open>compactQuery\<close>

text \<open>\<open>strings.Fields\<close>: the maximal runs of bytes between white-space runes. \<open>cur\<close> is the field
  being read.\<close>

function fields_loop :: "string \<Rightarrow> string \<Rightarrow> string list" where
  "fields_loop cur [] = (if cur = [] then [] else [cur])"
| "fields_loop cur (c # s) =
     (let w = snd (decode_rune (c # s)) in
      if is_space (fst (decode_rune (c # s)))
      then (if cur = [] then [] else [cur]) @ fields_loop [] (drop w (c # s))
      else fields_loop (cur @ take w (c # s)) (drop w (c # s)))"
  by pat_completeness auto
termination
proof (relation "measure (\<lambda>(cur, s). length s)")
  fix cur :: string and c :: char and s :: string and w
  assume "w = snd (decode_rune (c # s))"
  moreover have "0 < snd (decode_rune (c # s))" by (rule decode_rune_width) simp
  ultimately show "(([], drop w (c # s)), cur, c # s) \<in> measure (\<lambda>(cur, s). length s)"
    and "((cur @ take w (c # s), drop w (c # s)), cur, c # s) \<in> measure (\<lambda>(cur, s). length s)"
    by auto
qed simp

declare fields_loop.simps(2) [simp del]

definition Fields :: "string \<Rightarrow> string list" where
  "Fields s = fields_loop [] s"

definition compactQuery :: "string \<Rightarrow> string" where
  "compactQuery s = join '' '' (Fields s)"

definition rl_compactQuery :: "string \<Rightarrow> string" where
  "rl_compactQuery s = join '' '' (Fields s)"

section \<open>After\<close>

datatype log_attr =
    AStr string string
  | ADur string int
  | ABool string bool
  | AArgs string "rvalue list"
  | AErr string goerr

record log_record =
  lr_level :: int
  lr_message :: string
  lr_attrs :: "log_attr list"

definition log_level_of :: "log_levels \<Rightarrow> log_config \<Rightarrow> 'r exec_info \<Rightarrow> int" where
  "log_level_of L c info =
     (if ei_err info \<noteq> None then lv_error L
      else if lg_slowThreshold c > 0 \<and> ei_duration info \<ge> lg_slowThreshold c then lv_warn L
      else lv_info L)"

definition log_attrs :: "log_config \<Rightarrow> 'r exec_info \<Rightarrow> log_attr list" where
  "log_attrs c info =
     [AStr ''op'' (op_String (ei_op info)), ADur ''duration'' (ei_duration info), ABool ''in_tx'' (ei_inTx info)]
     @ (if lg_withQuery c then [AStr ''query'' (compactQuery (ei_query info))] else [])
     @ (if lg_withArgs c then [AArgs ''args'' (ei_boundArgs info)] else [])
     @ (case ei_err info of None \<Rightarrow> [] | Some e \<Rightarrow> [AErr ''error'' e])"

definition log_After :: "log_config \<Rightarrow> 'r exec_info \<Rightarrow> log_record option" where
  "log_After c info =
     (let level = log_level_of slog_levels c info in
      if level < lg_level c then None
      else Some \<lparr>lr_level = level, lr_message = ''rainbowsquirrel '' @ op_String (ei_op info),
                 lr_attrs = log_attrs c info\<rparr>)"

text \<open>The rainbowlog plugin labels the record instead of giving it a message.\<close>

definition rl_After :: "log_levels \<Rightarrow> rl_config \<Rightarrow> 'r exec_info \<Rightarrow> log_record option" where
  "rl_After L c info =
     (let level = log_level_of L c info in
      if level < lg_level c then None
      else Some \<lparr>lr_level = level, lr_message = ''rainbowsquirrel'', lr_attrs = log_attrs c info\<rparr>)"

end
