(* ===== verification/LogPlugin.thy ===== *)
theory LogPlugin
  imports Log CoreProps
begin

text \<open>
  The logging plugins of \<^verbatim>\<open>log/log.go\<close> and \<^verbatim>\<open>log/rainbowlog/rainbowlog.go\<close> as plugins of the core. Both only
  look: the locale \<open>observer\<close> is the contract of such a plugin, and what an operation shows to one is
  proved there once for both.
\<close>

section \<open>The plugins\<close>

definition log_Before :: "go_ctx \<Rightarrow> info \<Rightarrow> ('d, 'x) world \<Rightarrow> (go_ctx \<times> unit outcome) \<times> info \<times> ('d, 'x) world" where
  "log_Before ctx info w = ((ctx, Ok ()), info, w)"

definition rl_Before :: "go_ctx \<Rightarrow> info \<Rightarrow> ('d, 'x) world \<Rightarrow> (go_ctx \<times> unit outcome) \<times> info \<times> ('d, 'x) world" where
  "rl_Before ctx info w = ((ctx, Ok ()), info, w)"

text \<open>The logger appends to the log, which is the plugin's part of the world.\<close>

definition log_emit :: "log_record option \<Rightarrow> log_record list \<Rightarrow> log_record list" where
  "log_emit r ls = (case r of None \<Rightarrow> ls | Some x \<Rightarrow> ls @ [x])"

definition log_plugin :: "log_config \<Rightarrow> ('d, log_record list) plugin" where
  "log_plugin c =
     \<lparr>pl_Name = ''log'', pl_Before = log_Before,
      pl_After = (\<lambda>ctx info w. (Ok (), info, w\<lparr>w_ext := log_emit (log_After c info) (w_ext w)\<rparr>))\<rparr>"

definition rainbowlog_plugin :: "log_levels \<Rightarrow> rl_config \<Rightarrow> ('d, log_record list) plugin" where
  "rainbowlog_plugin L c =
     \<lparr>pl_Name = ''rainbowlog'', pl_Before = rl_Before,
      pl_After = (\<lambda>ctx info w. (Ok (), info, w\<lparr>w_ext := log_emit (rl_After L c info) (w_ext w)\<rparr>))\<rparr>"

section \<open>Observers\<close>

locale observer =
  fixes p :: "('d, 'x) plugin" and obs :: "info \<Rightarrow> 'x \<Rightarrow> 'x"
  assumes before: "pl_Before p ctx info w = ((ctx, Ok ()), info, w)"
    and after: "pl_After p ctx info w = (Ok (), info, w\<lparr>w_ext := obs info (w_ext w)\<rparr>)"
begin

text \<open>What a returned operation has shown: one record of the operation, with the time it took and the
  error that came out of it.\<close>

definition shown :: "op \<Rightarrow> bool \<Rightarrow> string \<Rightarrow> ('d, 'x) world \<Rightarrow> ('d, 'x) world \<Rightarrow> unit outcome \<Rightarrow> bool" where
  "shown oper inTx q w w' r =
     (\<exists>i. w_ext w' = obs i (w_ext w) \<and> ei_op i = oper \<and> ei_inTx i = inTx \<and> ei_query i = q
        \<and> ei_duration i = w_now w' - w_now w \<and> outcome_of (ei_err i) r)"

lemma runAfter_obs: "runAfter cfg ctx [p] info w = (info, w\<lparr>w_ext := obs info (w_ext w)\<rparr>)"
  by (simp add: runAfter_def after_one_def after)

lemma outcome_wrap: "outcome_of err (err_outcome (wrapOpErr f oper q args err))"
  by (auto simp: outcome_of_def err_outcome_def wrapOpErr_def split: option.splits)

lemma finish_op_obs:
  "finish_op R cfg ctx [p] info q args err w
     = (err_outcome (wrapOpErr (cr_quote R) (ei_op info) q args err), w\<lparr>w_ext := obs info (w_ext w)\<rparr>)"
  by (simp add: finish_op_def runAfter_obs)

lemma fail_op_obs:
  "fail_op R cfg ctx [p] info q args e w
     = (err_outcome (wrapOpErr (cr_quote R) (ei_op info) q args (Some e)),
        w\<lparr>w_ext := obs (info\<lparr>ei_err := Some e\<rparr>) (w_ext w)\<rparr>)"
  by (simp add: fail_op_def finish_op_obs)

lemma prologue_obs:
  assumes "plugins cfg = [p]"
  shows "prologue R cfg ctx oper inTx q arg opts w = Inl (r, w') \<Longrightarrow> \<not> (\<exists>m. r = Panic m) \<Longrightarrow> shown oper inTx q w w' r"
    and "prologue R cfg ctx oper inTx q arg opts w = Inr (ctx', info, w1, b) \<Longrightarrow>
      ei_op info = oper \<and> ei_inTx info = inTx \<and> ei_query info = q \<and> ei_err info = None \<and> ei_rows info = None
      \<and> ei_start info = w_now w \<and> w_now w1 = w_now w \<and> w_ext w1 = w_ext w"
proof -
  obtain br tc where b: "bindForExec (cr_conv R) (ss_tc (w_st w)) q arg cfg = (br, tc)" by fastforce
  let ?i = "newExecInfo oper q arg opts inTx (w_now w)"
  note un = prologue_def [of R cfg ctx oper inTx q arg opts w, unfolded b Let_def begin_exec_def assms snd_conv prod.case]
  have i: "ei_op ?i = oper" "ei_inTx ?i = inTx" "ei_query ?i = q" "ei_duration ?i = 0" "ei_start ?i = w_now w"
    "ei_err ?i = None" "ei_rows ?i = None" by (simp_all add: newExecInfo_def)
  have tc: "w_now (set_tc w tc) = w_now w" by (simp add: set_tc_def)
  show "shown oper inTx q w w' r"
    if pr: "prologue R cfg ctx oper inTx q arg opts w = Inl (r, w')" and np: "\<not> (\<exists>m. r = Panic m)"
  proof (cases br)
    case (Err e)
    with pr un have "r = err_outcome (wrapOpErr (cr_quote R) oper q [] (Some e))"
      "w' = (set_tc w tc)\<lparr>w_ext := obs (?i\<lparr>ei_err := Some e\<rparr>) (w_ext w)\<rparr>"
      by (simp_all add: fail_op_obs i)
    with tc i outcome_wrap [of "Some e" "cr_quote R" oper q "[]"] show ?thesis
      unfolding shown_def by (intro exI [of _ "?i\<lparr>ei_err := Some e\<rparr>"]) simp
  qed (use pr np un before in auto)
  show "ei_op info = oper \<and> ei_inTx info = inTx \<and> ei_query info = q \<and> ei_err info = None \<and> ei_rows info = None
      \<and> ei_start info = w_now w \<and> w_now w1 = w_now w \<and> w_ext w1 = w_ext w"
    if "prologue R cfg ctx oper inTx q arg opts w = Inr (ctx', info, w1, b)"
    using that un i tc before by (cases br) auto
qed

lemma exec_shown:
  assumes "plugins cfg = [p]" "execOp R ex cfg ctx inTx q arg opts w = ((res, r), w')" "\<not> (\<exists>m. r = Panic m)"
  shows "shown OpExec inTx q w w' r"
proof (cases "prologue R cfg ctx OpExec inTx q arg opts w")
  case (Inl x)
  with assms(2) have "prologue R cfg ctx OpExec inTx q arg opts w = Inl (r, w')" by (cases x) (simp add: execOp_def)
  with prologue_obs(1) [OF assms(1) this assms(3)] show ?thesis by simp
next
  case (Inr x)
  then obtain ctx' info w1 b where pr: "prologue R cfg ctx OpExec inTx q arg opts w = Inr (ctx', info, w1, b)"
    by (metis prod_cases4)
  note i = prologue_obs(2) [OF assms(1) pr]
  obtain res' r0 el d where e: "ex_Exec ex (bq_boundSQL b) (bq_args b) (w_db w1) = ((res', r0), el, d)" by (metis surj_pair)
  let ?err = "case r0 of Err e \<Rightarrow> Some e | _ \<Rightarrow> None"
  let ?w2 = "set_db w1 d el"
  let ?j = "since_start (info\<lparr>ei_result := res', ei_err := ?err\<rparr>) ?w2"
  have "r = err_outcome (wrapOpErr (cr_quote R) OpExec q (bq_args b) ?err)" "w' = ?w2\<lparr>w_ext := obs ?j (w_ext ?w2)\<rparr>"
    using assms pr e i by (cases r0; auto simp: execOp_def Let_def begin_exec_def finish_op_obs since_start_def)+
  with i outcome_wrap [of ?err "cr_quote R" OpExec q "bq_args b"] show ?thesis
    unfolding shown_def by (intro exI [of _ ?j]) (simp add: since_start_def set_db_def)
qed

lemma map_shown:
  assumes "plugins cfg = [p]" "mapOp R ex cfg ctx oper inTx q arg opts t d0 w = ((d, r), w')" "\<not> (\<exists>m. r = Panic m)"
  shows "shown oper inTx q w w' r"
proof (cases "prologue R cfg ctx oper inTx q arg opts w")
  case (Inl x)
  with assms(2) have "prologue R cfg ctx oper inTx q arg opts w = Inl (r, w')" by (cases x) (simp add: mapOp_def)
  with prologue_obs(1) [OF assms(1) this assms(3)] show ?thesis by simp
next
  case (Inr x)
  then obtain ctx' info w1 b where pr: "prologue R cfg ctx oper inTx q arg opts w = Inr (ctx', info, w1, b)"
    by (metis prod_cases4)
  note i = prologue_obs(2) [OF assms(1) pr]
  obtain fr w2 where f: "fetch_rows ex ctx' info b w1 = (fr, w2)" by fastforce
  have w2: "w_ext w2 = w_ext w" using fetch_rows_trace [OF f] i by simp
  have one: "shown oper inTx q w (v\<lparr>w_ext := obs j (w_ext w)\<rparr>) (err_outcome (wrapOpErr (cr_quote R) oper q (bq_args b) (ei_err j)))"
    if "ei_op j = oper" "ei_inTx j = inTx" "ei_query j = q" "ei_duration j = w_now v - w_now w" for j v
    using that outcome_wrap [of "ei_err j" "cr_quote R" oper q "bq_args b"]
    unfolding shown_def by (intro exI [of _ j]) simp
  note un = mapOp_def Let_def begin_exec_def assms(1) pr f
  show ?thesis
  proof (cases fr)
    case (Err e)
    with assms(2) i w2 one [of "(since_start info w2)\<lparr>ei_err := Some e\<rparr>" w2] show ?thesis
      by (simp add: un fail_op_obs since_start_def)
  next
    case (Panic m)
    with assms(2,3) show ?thesis by (auto simp: un)
  next
    case (Ok rows)
    obtain x d1 rs st where sc: "scan_target (cr_conv R) (cr_converters R) cfg (applyCallOptions opts) rows t d0 (w_st w2)
        = (x, d1, rs, st)" by (metis prod_cases4)
    let ?w3 = "w2\<lparr>w_st := st\<rparr>" and ?err = "case x of Err e \<Rightarrow> Some e | _ \<Rightarrow> rs_Close rs"
    let ?j = "since_start (info\<lparr>ei_rows := Some rs\<rparr>) ?w3"
    have np: "\<not> (\<exists>m. x = Panic m)" using assms(2,3) Ok sc by (auto simp: un)
    show ?thesis
    proof (cases ?err)
      case None
      with np assms(2) Ok sc i w2 have "r = Ok ()" "w' = ?w3\<lparr>w_ext := obs ?j (w_ext w)\<rparr>"
        by (cases x; simp add: un runAfter_obs)+
      with one [of ?j ?w3] i show ?thesis by (simp add: since_start_def wrapOpErr_def err_outcome_def)
    next
      case (Some e)
      with np assms(2) Ok sc i w2 have "r = err_outcome (wrapOpErr (cr_quote R) oper q (bq_args b) (Some e))"
        "w' = ?w3\<lparr>w_ext := obs (?j\<lparr>ei_err := Some e\<rparr>) (w_ext w)\<rparr>"
        by (cases x; auto simp: un fail_op_obs since_start_def)+
      with one [of "?j\<lparr>ei_err := Some e\<rparr>" ?w3] i show ?thesis by (simp add: since_start_def)
    qed
  qed
qed

end

interpretation slog: observer "log_plugin c" "\<lambda>i. log_emit (log_After c i)"
  by unfold_locales (simp_all add: log_plugin_def log_Before_def)

interpretation rainbow: observer "rainbowlog_plugin L c" "\<lambda>i. log_emit (rl_After L c i)"
  by unfold_locales (simp_all add: rainbowlog_plugin_def rl_Before_def)

section \<open>What is logged\<close>

text \<open>The record of an operation: its level, and what it says. Arguments appear only when configured.\<close>

definition op_level :: "log_levels \<Rightarrow> log_config \<Rightarrow> int \<Rightarrow> goerr option \<Rightarrow> int" where
  "op_level L c took err =
     (if err \<noteq> None then lv_error L
      else if 0 < lg_slowThreshold c \<and> lg_slowThreshold c \<le> took then lv_warn L else lv_info L)"

definition op_record ::
  "log_levels \<Rightarrow> string \<Rightarrow> log_config \<Rightarrow> op \<Rightarrow> bool \<Rightarrow> string \<Rightarrow> rvalue list \<Rightarrow> int \<Rightarrow> goerr option \<Rightarrow> log_record" where
  "op_record L msg c oper inTx q args took err =
     \<lparr>lr_level = op_level L c took err, lr_message = msg,
      lr_attrs =
        [AStr ''op'' (op_String oper), ADur ''duration'' took, ABool ''in_tx'' inTx]
        @ (if lg_withQuery c then [AStr ''query'' (compactQuery q)] else [])
        @ (if lg_withArgs c then [AArgs ''args'' args] else [])
        @ (case err of None \<Rightarrow> [] | Some e \<Rightarrow> [AErr ''error'' e])\<rparr>"

definition logged ::
  "log_levels \<Rightarrow> string \<Rightarrow> log_config \<Rightarrow> op \<Rightarrow> bool \<Rightarrow> string \<Rightarrow> ('d, log_record list) world \<Rightarrow> ('d, log_record list) world
   \<Rightarrow> unit outcome \<Rightarrow> bool" where
  "logged L msg c oper inTx q w w' r =
     (\<exists>err args. outcome_of err r
        \<and> w_ext w' = w_ext w @ (if op_level L c (w_now w' - w_now w) err < lg_level c then []
                             else [op_record L msg c oper inTx q args (w_now w' - w_now w) err]))"

lemma log_level_of_op: "log_level_of L c i = op_level L c (ei_duration i) (ei_err i)"
  by (simp add: log_level_of_def op_level_def)

lemma log_After_record:
  "log_After c i =
     (if op_level slog_levels c (ei_duration i) (ei_err i) < lg_level c then None
      else Some (op_record slog_levels (''rainbowsquirrel '' @ op_String (ei_op i)) c
        (ei_op i) (ei_inTx i) (ei_query i) (ei_boundArgs i) (ei_duration i) (ei_err i)))"
  unfolding log_After_def Let_def log_level_of_op by (simp add: op_record_def log_attrs_def)

lemma rl_After_record:
  "rl_After L c i =
     (if op_level L c (ei_duration i) (ei_err i) < lg_level c then None
      else Some (op_record L ''rainbowsquirrel'' c
        (ei_op i) (ei_inTx i) (ei_query i) (ei_boundArgs i) (ei_duration i) (ei_err i)))"
  unfolding rl_After_def Let_def log_level_of_op by (simp add: op_record_def log_attrs_def)

lemma slog_logged:
  assumes "slog.shown c oper inTx q w w' r"
  shows "logged slog_levels (''rainbowsquirrel '' @ op_String oper) c oper inTx q w w' r"
proof -
  obtain i :: info where "w_ext w' = log_emit (log_After c i) (w_ext w)" "ei_op i = oper" "ei_inTx i = inTx" "ei_query i = q"
    "ei_duration i = w_now w' - w_now w" "outcome_of (ei_err i) r"
    using assms unfolding slog.shown_def by blast
  then show ?thesis
    unfolding logged_def log_After_record
    by (intro exI [of _ "ei_err i"] exI [of _ "ei_boundArgs i"]) (simp add: log_emit_def)
qed

lemma rainbow_logged:
  assumes "rainbow.shown L c oper inTx q w w' r"
  shows "logged L ''rainbowsquirrel'' c oper inTx q w w' r"
proof -
  obtain i :: info where "w_ext w' = log_emit (rl_After L c i) (w_ext w)" "ei_op i = oper" "ei_inTx i = inTx" "ei_query i = q"
    "ei_duration i = w_now w' - w_now w" "outcome_of (ei_err i) r"
    using assms unfolding rainbow.shown_def by blast
  then show ?thesis
    unfolding logged_def rl_After_record
    by (intro exI [of _ "ei_err i"] exI [of _ "ei_boundArgs i"]) (simp add: log_emit_def)
qed

text \<open>C31: One operation, one record. With a log plugin as the only plugin, an \<open>Exec\<close>, \<open>Get\<close> or \<open>Select\<close> that
  returns appends exactly one record to the log, or none when its level is below the configured one. The
  level is error exactly when the operation failed, warning when it was slow, and info otherwise; the
  record holds the operation, the time from start to end, the compacted statement if asked for, the bound
  arguments only if asked for, and the error that the caller gets, unwrapped. The plugin for rainbowlog
  does the same with that library's levels.\<close>

theorem log_one_record:
  assumes "plugins cfg = [log_plugin c]" "plugins cfg' = [rainbowlog_plugin L c]"
  shows "(execOp R ex cfg ctx inTx q arg opts w = ((res, r), w') \<longrightarrow> (\<exists>m. r = Panic m)
        \<or> logged slog_levels ''rainbowsquirrel Exec'' c OpExec inTx q w w' r)
    \<and> (mapOp R ex cfg ctx oper inTx q arg opts t d0 w = ((d, r), w') \<longrightarrow> (\<exists>m. r = Panic m)
        \<or> logged slog_levels (''rainbowsquirrel '' @ op_String oper) c oper inTx q w w' r)
    \<and> (execOp R ex cfg' ctx inTx q arg opts w = ((res, r), w') \<longrightarrow> (\<exists>m. r = Panic m)
        \<or> logged L ''rainbowsquirrel'' c OpExec inTx q w w' r)
    \<and> (mapOp R ex cfg' ctx oper inTx q arg opts t d0 w = ((d, r), w') \<longrightarrow> (\<exists>m. r = Panic m)
        \<or> logged L ''rainbowsquirrel'' c oper inTx q w w' r)"
proof (intro conjI impI)
  have msg: "''rainbowsquirrel '' @ op_String OpExec = ''rainbowsquirrel Exec''" by simp
  note slog = slog.exec_shown [OF assms(1), THEN slog_logged, unfolded msg] slog.map_shown [OF assms(1), THEN slog_logged]
  note rainbow = rainbow.exec_shown [OF assms(2), THEN rainbow_logged] rainbow.map_shown [OF assms(2), THEN rainbow_logged]
  {
    assume "execOp R ex cfg ctx inTx q arg opts w = ((res, r), w')"
    from slog(1) [OF this] show "(\<exists>m. r = Panic m) \<or> logged slog_levels ''rainbowsquirrel Exec'' c OpExec inTx q w w' r" by blast
  next
    assume "mapOp R ex cfg ctx oper inTx q arg opts t d0 w = ((d, r), w')"
    from slog(2) [OF this] show "(\<exists>m. r = Panic m)
      \<or> logged slog_levels (''rainbowsquirrel '' @ op_String oper) c oper inTx q w w' r" by blast
  next
    assume "execOp R ex cfg' ctx inTx q arg opts w = ((res, r), w')"
    from rainbow(1) [OF this] show "(\<exists>m. r = Panic m) \<or> logged L ''rainbowsquirrel'' c OpExec inTx q w w' r" by blast
  next
    assume "mapOp R ex cfg' ctx oper inTx q arg opts t d0 w = ((d, r), w')"
    from rainbow(2) [OF this] show "(\<exists>m. r = Panic m) \<or> logged L ''rainbowsquirrel'' c oper inTx q w w' r" by blast
  }
qed

section \<open>Examples\<close>

definition log_demo :: log_config where
  "log_demo = New_log slog_levels [WithSlowQueryThreshold 5, WithLevel 4]"

definition log_demo_cfg :: "(nat, log_record list) plugin config" where
  "log_demo_cfg = (defaultConfig (ge_unicode conv_demo))\<lparr>plugins := [log_plugin log_demo]\<rparr>"

definition log_demo_rl :: "(nat, log_record list) plugin config" where
  "log_demo_rl = (defaultConfig (ge_unicode conv_demo))\<lparr>plugins := [rainbowlog_plugin slog_levels log_demo]\<rparr>"

definition log_demo_world :: "(nat, log_record list) world" where
  "log_demo_world = \<lparr>w_db = 0, w_now = 100, w_st = demo_state, w_reports = [], w_ext = []\<rparr>"

definition log_demo_run where
  "log_demo_run = execOp demo_core demo_executor log_demo_cfg background False ''UPDATE  t'' Invalid [] log_demo_world"

lemma log_demo_result: "fst log_demo_run = (Some (0, 1), Ok ())" "w_now (snd log_demo_run) = 105"
  by code_simp+

theorem log_one_record_witness:
  "w_ext (snd log_demo_run)
     = [op_record slog_levels ''rainbowsquirrel Exec'' log_demo OpExec False ''UPDATE  t'' [] 5 None]"
proof -
  have run: "execOp demo_core demo_executor log_demo_cfg background False ''UPDATE  t'' Invalid [] log_demo_world
      = ((Some (0, 1), Ok ()), snd log_demo_run)"
    using log_demo_result(1) unfolding log_demo_run_def by (metis prod.collapse)
  have p: "plugins log_demo_cfg = [log_plugin log_demo]" "plugins log_demo_rl = [rainbowlog_plugin slog_levels log_demo]"
    by (simp_all add: log_demo_cfg_def log_demo_rl_def)
  have c: "lg_withArgs log_demo = False" "lg_slowThreshold log_demo = 5" "lg_level log_demo = 4"
    by (simp_all add: log_demo_def New_log_def slog_levels_def)
  from mp [OF conjunct1 [OF log_one_record [OF p]] run]
  have "logged slog_levels ''rainbowsquirrel Exec'' log_demo OpExec False ''UPDATE  t'' log_demo_world (snd log_demo_run) (Ok ())" by simp
  then show ?thesis
    by (auto simp: logged_def outcome_of_def op_level_def op_record_def c log_demo_result(2) log_demo_world_def slog_levels_def
        split: option.splits)
qed

end
