(* ===== verification/Spec2Isabelle.thy ===== *)
theory Spec2Isabelle
  imports BindProps CacheProps CacheWrites Freshness RedisCache LogPlugin
begin

text \<open>
  A verification library for rainbowsquirrel, a Go library over \<open>database/sql\<close> with named placeholders,
  struct mapping, plugins and a query cache.

  \<^bold>\<open>How the program works.\<close> An operation (\<^verbatim>\<open>core.go\<close>: \<open>Exec\<close>, \<open>Query\<close>, \<open>Get\<close>, \<open>Select\<close> on a \<open>DB\<close> or a
  \<open>Tx\<close>) binds its named placeholders to a struct, map or slice and rewrites them for the SQL dialect
  (\<^verbatim>\<open>bind.go\<close>, with the struct metadata of \<^verbatim>\<open>meta.go\<close>), runs the \<open>Before\<close> hooks of the plugins in order,
  asks the database unless a hook supplied rows, scans the rows into the target (\<^verbatim>\<open>scan.go\<close>, each cell
  converted by \<^verbatim>\<open>convert.go\<close>), and runs the \<open>After\<close> hooks in reverse. The cache (\<^verbatim>\<open>cache/cache.go\<close>) is such
  a plugin: \<open>Before\<close> looks a key up in a store (\<^verbatim>\<open>cache/store.go\<close> in memory, \<^verbatim>\<open>cache/redis/redis.go\<close> on a
  server) under a single flight per key (\<^verbatim>\<open>cache/flight.go\<close>), supplies the decoded rows on a hit and wraps
  the real rows with a recorder on a miss (\<^verbatim>\<open>cache/source.go\<close>), which \<open>After\<close> encodes (\<^verbatim>\<open>cache/codec.go\<close>)
  and stores. The logging plugins (\<^verbatim>\<open>log/\<close>) emit one record per operation.

  \<^bold>\<open>Theories and what they model.\<close>

  \<^item> \<open>Prelude\<close>: the result type \<open>outcome\<close> (\<open>Ok\<close>, \<open>Err\<close> with an error chain, \<open>Panic\<close>), its sequencing, and
    lemmas on lists, prefixes and decimal numerals. Every error return and every panic of the source is a
    branch of a definition.
  \<^item> \<open>GoStrings\<close>, \<open>GoValues\<close>, \<open>Floats\<close>: what the code uses of Go: UTF-8 strings as byte lists, reflect
    types (\<open>gtype\<close>) and values (\<open>rvalue\<close>: a type and its data, or the zero \<open>Value\<close>), IEEE conversions.
  \<^item> \<open>Placeholders\<close> (\<^verbatim>\<open>bind.go\<close> 1--135, 360--440): the index-driven parser with its inner loops, \<open>Rebind\<close>,
    groups, against a lexer whose tokens concatenate to the statement.
  \<^item> \<open>Config\<close> (\<^verbatim>\<open>config.go\<close>), \<open>Meta\<close> (\<^verbatim>\<open>meta.go\<close>): options, freezing, call options, name mapping; struct
    flattening with tags, embedding and ambiguity, the type cache keyed by type, tag and mapper.
  \<^item> \<open>Bind\<close>, \<open>BindProps\<close> (\<^verbatim>\<open>bind.go\<close>): \<open>bindNamed\<close>, \<open>bindNamedMany\<close>, \<open>bindForExec\<close> and their properties.
  \<^item> \<open>Errors\<close>, \<open>Plugin\<close>, \<open>Log\<close> (\<^verbatim>\<open>errors.go\<close>, \<^verbatim>\<open>plugin.go\<close>, \<^verbatim>\<open>log/\<close>): wrapping and redaction, the record shared
    by the hooks, \<open>Rows.Close\<close>, levels and attributes of the log records.
  \<^item> \<open>Convert\<close>, \<open>ConvertProps\<close> (\<^verbatim>\<open>convert.go\<close>): \<open>convertAssign\<close> on a location, which is a type and its present
    content; the conversion matrix with integers at their width.
  \<^item> \<open>RowSource\<close>, \<open>Scan\<close>, \<open>ScanProps\<close> (\<^verbatim>\<open>cache/source.go\<close>, \<^verbatim>\<open>scan.go\<close>): the four row sources, recorders as heap
    cells shared by address, scanning into structs, maps, scalars and slices in recording and direct mode.
  \<^item> \<open>Core\<close>, \<open>CoreProps\<close>, \<open>Tx\<close> (\<^verbatim>\<open>core.go\<close>): the four operations over plugins and an executor given as
    functions on a world (database, clock, recorders, type cache, reports, plugin state); the \<open>DB\<close> handle;
    transactions and savepoints.
  \<^item> \<open>Store\<close>, \<open>Codec\<close>, \<open>Flight\<close>, \<open>Redis\<close> (\<^verbatim>\<open>cache/\<close>): \<open>MemoryStore\<close> with its list elements as heap cells, the
    binary codec with varints and reader, the single flight, the store over a Redis client.
  \<^item> \<open>Cache\<close>, \<open>CacheProps\<close> (\<^verbatim>\<open>cache/cache.go\<close>): options, keys, invalidation, \<open>Before\<close> as a machine of atomic
    steps, any number of goroutines interleaved by \<open>cache_step\<close>, each of which may also die between its
    \<open>Before\<close> and its \<open>After\<close> (a panic of the driver or of the scan). The deferred \<open>done\<close> is one step with
    the \<open>Set\<close> before it.
  \<^item> \<open>Coherence\<close>, \<open>CacheStore\<close>, \<open>RedisCache\<close>, \<open>Freshness\<close>: what hits replay, against the weak contract of a
    store, then over \<open>MemoryStore\<close> and over Redis, and after invalidations.
  \<^item> \<open>CachePlugin\<close>, \<open>BindAgree\<close>, \<open>CachedQuery\<close>, \<open>CacheWrites\<close>: the cache plugged into the execution flow, a
    cached query end to end, reads after writes, \<open>InvalidateQuery\<close>, writes in transactions.
  \<^item> \<open>LogPlugin\<close>: the logging plugins plugged into the execution flow.

  \<^bold>\<open>Interfaces.\<close> Two contracts of a cache store: \<open>kv_store\<close> says what a healthy store does (what a lookup
  returns after each operation) and is interpreted as \<open>mem\<close> on \<open>MemoryStore\<close>; \<open>kv_safe\<close>, which \<open>kv_store\<close>
  implies, lets every operation fail and every entry vanish, and the Redis store meets it over any client
  that does (\<open>redis_kv_safe\<close>). \<open>row_codec\<close> is the contract of a codec, interpreted as \<open>bc\<close> on the binary codec.
  \<open>safe_backend\<close> joins the weak store contract with the codec and a cache configuration and proves coherence
  and freshness once; \<open>cache_backend\<close> does so with the strong one, adds commit and invalidation, and is
  interpreted as \<open>cb\<close>. \<open>observer\<close> is the contract of a plugin that only looks, with interpretations \<open>slog\<close> and
  \<open>rainbow\<close> for the two logging plugins. What is assumed of code outside the repository is stated by
  predicates: \<open>scan_contract\<close> (Redis \<open>SCAN\<close> and \<open>DEL\<close>), \<open>redis_safe\<close> (what Redis commands can make visible),
  \<open>savepoint_contract\<close> (SQL savepoints), \<open>conv_env_ok\<close> (user scanners and converters return data of their
  type), \<open>traced\<close> and \<open>tells\<close> (a plugin only logs its calls, and the outcomes of its \<open>After\<close> hook). \<open>enclosed\<close>
  says that the group of a batch stands between SQL parentheses with no other parenthesis before its first
  and after its last placeholder.

  \<^bold>\<open>What the properties show.\<close>

  \<^item> Binding: the parser finds exactly the lexer's placeholders; a bound statement differs from the query
    in the placeholders only and has one marker per argument; without slice expansion its text does not
    depend on the values; batches bind row by row, and when their group is enclosed only the group is
    repeated; typed arguments, with plain string keys in maps and types that do not embed themselves, never
    make it panic.
  \<^item> Metadata: flattening ends on types that do not embed themselves and yields valid paths; lookups find
    what they should; the type cache is transparent when code pointers identify mappers.
  \<^item> Conversion and scanning: integers are stored exactly or refused (large \<open>uint\<close> sources wrap); a success leaves data of the right
    type; a replay of a recording gives what the recording scan gave; how many rows each target reads.
  \<^item> Execution: hooks run in order, once, with the final error, whatever they return, and what an \<open>After\<close>
    hook fails with is reported; \<open>Query\<close> defers them to \<open>Close\<close>; nested rollback and commit; a finished transaction is inert.
  \<^item> Store and codec: refinement of a recency list with expiry, capacity, encode and decode round trip,
    truncated data never decode.
  \<^item> Cache: one leader per key, no double close, every \<open>Before\<close> can finish unless the leader of its key died,
    hits replay what was committed
    under their own key, over Redis too whatever fails there, hits after an invalidation replay what was
    committed since, invalidation is exact over \<open>MemoryStore\<close>, keys separate calls, a cached query repeated returns the same
    value without the database, and a read after a write asks the database.
  \<^item> Logging: one record per operation, of the right level, with the error the caller gets.
  \<^item> Limits of the code: a scan that panics blocks its cache key; self-embedding structs exhaust the stack.
    More are lemmas: \<open>get_then_select\<close> (a \<open>Select\<close> hits the row of a \<open>Get\<close>), \<open>tx_write_stale\<close> and \<open>stale_fill\<close>
    (writes in a transaction, and writes during a query, leave old rows cached), \<open>redis_namespace_wildcard\<close>,
    \<open>InvalidateQuery_refuses_slices\<close>, \<open>Decode_panics\<close> (corrupt counts), \<open>codec_time\<close> (times outside 64-bit
    nanoseconds), \<open>bindNamedMany_literal_paren\<close>, \<open>bindNamedMany_nested_call\<close>, \<open>convertToInt_uint_wraps\<close>, \<open>scan_null_fast_path\<close>,
    \<open>scan_time_target_ignored\<close>, \<open>scan_embedded_pointer_panics\<close>, \<open>bindNamed_named_key_panics\<close>,
    \<open>getTypeInfo_shares_closures\<close>.

  \<^bold>\<open>Bounds and fuel.\<close> \<open>ge_depth\<close> is the stack available to \<open>collectFields\<close> (and the nesting of zero values);
  \<open>buildTypeInfo_correct\<close> shows that a depth above the embedding rank is enough and more changes nothing.
  \<open>before_run 3\<close> runs \<open>Before\<close> for one goroutine; \<open>before_run_ends\<close> shows that three steps always bring it to
  a return, a panic or a wait that blocks. \<open>scanDel\<close> is partial; \<open>redis_DeletePrefix_correct\<close> shows that it
  returns. All other loops are total. Liveness (\<open>cache_no_lost_wakeup\<close>) is possibility under a fair
  scheduler: as long as the leader of its key did not die, a run to the end of a \<open>Before\<close> exists from every
  reachable state; once it died, no run ends the \<open>Before\<close> of a goroutine that waits for it.

  \<^bold>\<open>Not modelled.\<close> Parameters stand for \<open>json.Marshal\<close> and \<open>json.Unmarshal\<close>, SHA-256, \<open>strconv.ParseFloat\<close> and
  \<open>strconv.Quote\<close>, \<open>time.Parse\<close>, how \<open>database/sql\<close> stores a value into a typed destination, user plugins,
  scanners and converters, the Redis client and server, and the logger back ends, because none of them is
  code of the repository. \<open>RawDB\<close> and \<open>RawTx\<close> only hand out the handles they hold. Unsafe field offsets
  denote the location their index path reaches. \<open>Decode\<close> copies the byte strings that the code lets alias the
  stored data, so a target that is written in place after a hit is outside the model. Aliasing between two
  targets of one call, data races on
  \<open>ExecInfo\<close> by user plugins, and the cancellation of contexts are outside the model; \<open>sync\<close> primitives are
  the atomicity of the steps they guard.
\<close>

end
